(* ===== verification/Plc_Prelude.thy ===== *)
theory Plc_Prelude
  imports Main "HOL-Library.Word" "HOL-Library.Multiset"
begin

text \<open>
  Shared material of the development: the machine types of the C and C++ sources, the result
  type of fallible C code, the non-recursive mutex the containers use, and the generic lemmas
  on lists and words that several components need.
\<close>

unbundle bit_operations_syntax

section \<open>Machine types\<close>

type_synonym u8 = "8 word"
type_synonym u16 = "16 word"
type_synonym u32 = "32 word"
type_synonym u64 = "64 word"

text \<open>\<open>void *\<close>, \<open>app_pc\<close> and \<open>ptr_uint_t\<close> of a 64-bit build; NULL is 0.\<close>

type_synonym ptr = u64
type_synonym app_pc = u64

section \<open>Results of C code that can go wrong\<close>

text \<open>
  Undefined behaviour the sources can reach (a write outside an allocation, a dereference of
  NULL, a read of memory that was never written, a self-deadlock on a mutex, a shift by the
  width of its operand), failing assertions and uncaught C++ exceptions are values of this type, so that a theorem
  "the operation returns" also says that none of them happens.
\<close>

datatype cfault = NullDeref | OutOfBounds | Uninit | Deadlock | BadShift | Assert | Throw

type_synonym 'a cres = "cfault + 'a"

fun bind_res :: "'a cres \<Rightarrow> ('a \<Rightarrow> 'b cres) \<Rightarrow> 'b cres" where
  "bind_res (Inl e) f = Inl e"
| "bind_res (Inr x) f = f x"

lemma bind_res_Inr_iff:
  "bind_res r f = Inr y \<longleftrightarrow> (\<exists>x. r = Inr x \<and> f x = Inr y)"
  by (cases r) auto

lemma bind_res_assoc: "bind_res (bind_res r f) g = bind_res r (\<lambda>x. bind_res (f x) g)"
  by (cases r) auto

section \<open>Collections\<close>

named_theorems map_laws \<open>what an operation does to the abstract map or list of a container\<close>
named_theorems inv_intros \<open>preservation of a component's well-formedness invariant\<close>

section \<open>Lists\<close>

lemma take_list_update_snoc:
  "n < length xs \<Longrightarrow> take (Suc n) (xs[n := x]) = take n xs @ [x]"
  by (simp add: take_Suc_conv_app_nth)

lemma set_list_update_subset: "set (xs[i := x]) \<subseteq> insert x (set xs)"
  by (rule set_update_subset_insert)

lemma filter_mset_partition:
  "mset (filter P xs) + mset (filter (\<lambda>x. \<not> P x) xs) = mset xs"
  by (induction xs) auto

section \<open>Words\<close>

lemma unat_le_u32: "unat (w :: u32) < 2 ^ 32"
  using unsigned_less [of w, where ?'a = nat] by simp

lemma unat_Suc_u32: "unat (w :: u32) < 2 ^ 32 - 1 \<Longrightarrow> unat (w + 1) = Suc (unat w)"
  by (subst unat_word_ariths) simp

lemma unat_double_u32: "unat (w :: u32) < 2 ^ 31 \<Longrightarrow> unat (w * 2) = 2 * unat w"
  by (subst unat_word_ariths) simp

lemma unat_minus_of_nat_u32:
  fixes a :: u32
  assumes "m \<le> unat a"
  shows "unat (a - of_nat m) = unat a - m"
proof -
  have "m < 2 ^ 32" using assms unat_le_u32 [of a] by linarith
  then have "unat (of_nat m :: u32) = m" by (simp add: unat_of_nat take_bit_nat_eq_self)
  then show ?thesis using assms unat_sub [of "of_nat m" a] by (simp add: word_le_nat_alt)
qed

end
