(* ===== verification/Drvector.thy ===== *)
theory Drvector
  imports Plc_Prelude
begin

text \<open>
  The growable pointer array of \<open>ext/drcontainers/drvector.c\<close>. The array is a list of cells,
  a cell being \<open>None\<close> until it is written (\<open>dr_global_alloc\<close> does not initialise memory). The
  counters keep their 32-bit width, the mutex is the boolean "held", and \<open>vec_freed\<close> logs the
  data handed to \<open>free_data_func\<close>.
\<close>

record drvector =
  vec_entries :: u32
  vec_capacity :: u32
  vec_array :: "ptr option list option"
  vec_synch :: bool
  vec_lock :: bool
  vec_free_func :: bool
  vec_freed :: "ptr list"

definition INITIAL_CAPACITY_IF_ZERO_REQUESTED :: u32 where
  "INITIAL_CAPACITY_IF_ZERO_REQUESTED = 8"

section \<open>Operations\<close>

definition drvector_init :: "drvector option \<Rightarrow> u32 \<Rightarrow> bool \<Rightarrow> bool \<Rightarrow> bool \<times> drvector option" where
  "drvector_init vec initial_capacity synch free_data_func =
     (case vec of None \<Rightarrow> (False, None)
      | Some v \<Rightarrow> (True, Some \<lparr>
          vec_entries = 0, vec_capacity = initial_capacity,
          vec_array = (if initial_capacity > 0
                       then Some (replicate (unat initial_capacity) None) else None),
          vec_synch = synch, vec_lock = False, vec_free_func = free_data_func,
          vec_freed = vec_freed v\<rparr>))"

definition drvector_lock :: "drvector \<Rightarrow> drvector cres" where
  "drvector_lock v = (if vec_lock v then Inl Deadlock else Inr (v\<lparr>vec_lock := True\<rparr>))"

definition drvector_unlock :: "drvector \<Rightarrow> drvector" where
  "drvector_unlock v = v\<lparr>vec_lock := False\<rparr>"

definition vec_lock_if_synch :: "drvector \<Rightarrow> drvector cres" where
  "vec_lock_if_synch v = (if vec_synch v then drvector_lock v else Inr v)"

definition vec_unlock_if_synch :: "drvector \<Rightarrow> drvector" where
  "vec_unlock_if_synch v = (if vec_synch v then drvector_unlock v else v)"

definition array_load :: "ptr option list option \<Rightarrow> nat \<Rightarrow> ptr cres" where
  "array_load arr i =
     (case arr of None \<Rightarrow> Inl NullDeref
      | Some a \<Rightarrow> if i < length a
                  then (case a ! i of None \<Rightarrow> Inl Uninit | Some p \<Rightarrow> Inr p)
                  else Inl OutOfBounds)"

definition array_store :: "ptr option list option \<Rightarrow> nat \<Rightarrow> ptr \<Rightarrow> ptr option list option cres" where
  "array_store arr i p =
     (case arr of None \<Rightarrow> Inl NullDeref
      | Some a \<Rightarrow> if i < length a then Inr (Some (a[i := Some p])) else Inl OutOfBounds)"

definition drvector_get_entry :: "drvector option \<Rightarrow> u32 \<Rightarrow> ptr cres" where
  "drvector_get_entry vec idx =
     (case vec of None \<Rightarrow> Inr 0
      | Some v \<Rightarrow> bind_res (vec_lock_if_synch v) (\<lambda>v.
          if idx < vec_entries v then array_load (vec_array v) (unat idx) else Inr 0))"

definition drvector_increase_size :: "drvector \<Rightarrow> u32 \<Rightarrow> drvector cres" where
  "drvector_increase_size v newcap =
     (let newarray = replicate (unat newcap) None; n = unat (vec_entries v) in
      case vec_array v of
        None \<Rightarrow> Inr (v\<lparr>vec_array := Some newarray, vec_capacity := newcap\<rparr>)
      | Some a \<Rightarrow>
          if n \<le> length a \<and> n \<le> unat newcap
          then Inr (v\<lparr>vec_array := Some (take n a @ drop n newarray), vec_capacity := newcap\<rparr>)
          else Inl OutOfBounds)"

definition drvector_set_entry ::
    "drvector option \<Rightarrow> u32 \<Rightarrow> ptr \<Rightarrow> (bool \<times> drvector option) cres" where
  "drvector_set_entry vec idx data =
     (case vec of None \<Rightarrow> Inr (False, None)
      | Some v \<Rightarrow>
          bind_res (vec_lock_if_synch v) (\<lambda>v.
          bind_res (if idx \<ge> vec_capacity v then drvector_increase_size v (idx * 2) else Inr v) (\<lambda>v.
          bind_res (array_store (vec_array v) (unat idx) data) (\<lambda>a.
          let v = v\<lparr>vec_array := a\<rparr>;
              v = (if idx \<ge> vec_entries v then v\<lparr>vec_entries := idx + 1\<rparr> else v)
          in Inr (True, Some (vec_unlock_if_synch v))))))"

definition drvector_append :: "drvector option \<Rightarrow> ptr \<Rightarrow> (bool \<times> drvector option) cres" where
  "drvector_append vec data =
     (case vec of None \<Rightarrow> Inr (False, None)
      | Some v \<Rightarrow>
          bind_res (vec_lock_if_synch v) (\<lambda>v.
          bind_res (if vec_entries v \<ge> vec_capacity v
                    then (if vec_capacity v = 0
                          then drvector_increase_size v INITIAL_CAPACITY_IF_ZERO_REQUESTED
                          else drvector_increase_size v (vec_capacity v * 2))
                    else Inr v) (\<lambda>v.
          bind_res (array_store (vec_array v) (unat (vec_entries v)) data) (\<lambda>a.
          Inr (True, Some (vec_unlock_if_synch
                 (v\<lparr>vec_array := a, vec_entries := vec_entries v + 1\<rparr>)))))))"

text \<open>The loop of \<open>drvector_delete\<close> over \<open>i < vec->entries\<close>: read a cell, hand it to the callback.\<close>

fun free_entries :: "ptr option list option \<Rightarrow> nat list \<Rightarrow> ptr list cres" where
  "free_entries arr [] = Inr []"
| "free_entries arr (i # is) =
     bind_res (array_load arr i) (\<lambda>p. bind_res (free_entries arr is) (\<lambda>ps. Inr (p # ps)))"

definition drvector_delete :: "drvector option \<Rightarrow> (bool \<times> drvector option) cres" where
  "drvector_delete vec =
     (case vec of None \<Rightarrow> Inr (False, None)
      | Some v \<Rightarrow>
          bind_res (vec_lock_if_synch v) (\<lambda>v.
          bind_res (if vec_free_func v \<and> vec_array v \<noteq> None
                    then free_entries (vec_array v) [0..<unat (vec_entries v)] else Inr []) (\<lambda>ps.
          let v = v\<lparr>vec_freed := vec_freed v @ ps\<rparr>;
              v = (if vec_array v \<noteq> None then v\<lparr>vec_array := None, vec_entries := 0\<rparr> else v)
          in Inr (True, Some (vec_unlock_if_synch v)))))"

lemmas vec_lock_defs =
  vec_lock_if_synch_def vec_unlock_if_synch_def drvector_lock_def drvector_unlock_def

section \<open>Well-formedness and the abstract sequence\<close>

definition vec_shape :: "drvector \<Rightarrow> bool" where
  "vec_shape v \<longleftrightarrow>
     (case vec_array v of
        None \<Rightarrow> vec_entries v = 0 \<and> vec_capacity v = 0
      | Some a \<Rightarrow> length a = unat (vec_capacity v) \<and> vec_entries v \<le> vec_capacity v)"

definition drvector_ok :: "drvector \<Rightarrow> bool" where
  "drvector_ok v \<longleftrightarrow> \<not> vec_lock v \<and> vec_shape v"

definition vec_cells :: "drvector \<Rightarrow> ptr option list" where
  "vec_cells v = (case vec_array v of None \<Rightarrow> [] | Some a \<Rightarrow> take (unat (vec_entries v)) a)"

text \<open>The appends that are in range: a free cell is left, or doubling does not wrap to 0.\<close>

definition vec_room :: "drvector \<Rightarrow> bool" where
  "vec_room v \<longleftrightarrow> vec_entries v < vec_capacity v \<or> unat (vec_capacity v) < 2 ^ 31"

lemmas vec_defs = drvector_ok_def vec_shape_def vec_cells_def

lemma vec_shape_lock [simp]: "vec_shape (v\<lparr>vec_lock := b\<rparr>) = vec_shape v"
  by (simp add: vec_shape_def split: option.split)

lemma vec_cells_lock [simp]: "vec_cells (v\<lparr>vec_lock := b\<rparr>) = vec_cells v"
  by (simp add: vec_cells_def split: option.split)

lemma length_vec_cells: "vec_shape v \<Longrightarrow> length (vec_cells v) = unat (vec_entries v)"
  by (auto simp: vec_defs word_le_nat_alt split: option.splits)

lemma drvector_init_ok:
  "drvector_init (Some v) n s f = (True, Some w) \<Longrightarrow>
     drvector_ok w \<and> vec_cells w = [] \<and> vec_capacity w = n"
  by (auto simp: drvector_init_def vec_defs word_gt_0)

text \<open>Taking the lock of a well-formed vector succeeds and changes nothing else.\<close>

lemma vec_lock_if_synch_ok:
  "drvector_ok v \<Longrightarrow>
     vec_lock_if_synch v = Inr (v\<lparr>vec_lock := vec_synch v\<rparr>)"
  by (auto simp: vec_lock_defs drvector_ok_def)

lemma vec_unlock_if_synch_ok:
  "vec_lock w = vec_synch w \<Longrightarrow> vec_shape w \<Longrightarrow>
     drvector_ok (vec_unlock_if_synch w) \<and> vec_cells (vec_unlock_if_synch w) = vec_cells w \<and>
     vec_entries (vec_unlock_if_synch w) = vec_entries w \<and>
     vec_capacity (vec_unlock_if_synch w) = vec_capacity w"
  by (auto simp: vec_lock_defs drvector_ok_def)

text \<open>Growing keeps the sequence and makes room, if the new capacity holds the old entries.\<close>

lemma drvector_increase_size_ok:
  assumes "vec_shape v" "vec_entries v \<le> newcap"
  shows "\<exists>w. drvector_increase_size v newcap = Inr w \<and> vec_shape w \<and>
             vec_cells w = vec_cells v \<and> vec_capacity w = newcap \<and> vec_array w \<noteq> None \<and>
             vec_entries w = vec_entries v \<and> vec_lock w = vec_lock v \<and> vec_synch w = vec_synch v"
  using assms
  by (auto simp: drvector_increase_size_def vec_defs word_le_nat_alt Let_def
      split: option.splits)

text \<open>Writing one cell of the array, at or below the end of the sequence.\<close>

lemma array_store_append:
  assumes "vec_shape v" "vec_array v \<noteq> None" "vec_entries v < vec_capacity v"
  shows "\<exists>a. array_store (vec_array v) (unat (vec_entries v)) x = Inr (Some a) \<and>
             vec_shape (v\<lparr>vec_array := Some a, vec_entries := vec_entries v + 1\<rparr>) \<and>
             vec_cells (v\<lparr>vec_array := Some a, vec_entries := vec_entries v + 1\<rparr>) =
               vec_cells v @ [Some x]"
proof -
  from assms obtain a where a: "vec_array v = Some a" "length a = unat (vec_capacity v)"
    by (auto simp: vec_shape_def)
  have lt: "unat (vec_entries v) < length a" using assms(3) a by (simp add: word_less_nat_alt)
  then have "unat (vec_entries v) < 2 ^ 32 - 1"
    using a(2) unat_le_u32 [of "vec_capacity v"] by simp
  then have s: "unat (vec_entries v + 1) = Suc (unat (vec_entries v))" by (rule unat_Suc_u32)
  show ?thesis using a lt s
    by (simp add: array_store_def vec_defs word_le_nat_alt take_list_update_snoc)
qed

lemma drvector_append_ok:
  assumes ok: "drvector_ok v" and room: "vec_room v"
  shows "\<exists>w. drvector_append (Some v) x = Inr (True, Some w) \<and> drvector_ok w \<and>
             vec_cells w = vec_cells v @ [Some x]"
proof -
  let ?v = "v\<lparr>vec_lock := vec_synch v\<rparr>"
  let ?grow = "if vec_entries ?v \<ge> vec_capacity ?v
               then (if vec_capacity ?v = 0
                     then drvector_increase_size ?v INITIAL_CAPACITY_IF_ZERO_REQUESTED
                     else drvector_increase_size ?v (vec_capacity ?v * 2))
               else Inr ?v"
  have sh: "vec_shape ?v" and le: "vec_entries v \<le> vec_capacity v"
    using ok by (auto simp: drvector_ok_def vec_shape_def split: option.splits)
  have "\<exists>w. ?grow = Inr w \<and> vec_shape w \<and> vec_cells w = vec_cells v \<and> vec_array w \<noteq> None \<and>
            vec_entries w < vec_capacity w \<and> vec_lock w = vec_synch w"
  proof (cases "vec_entries v < vec_capacity v")
    case True
    with sh show ?thesis by (auto simp: vec_shape_def split: option.splits)
  next
    case False
    with le have eq: "vec_entries v = vec_capacity v" by simp
    define c where "c = (if vec_capacity v = 0 then INITIAL_CAPACITY_IF_ZERO_REQUESTED
                         else vec_capacity v * 2)"
    have "unat (vec_capacity v) < 2 ^ 31" using False room by (simp add: vec_room_def)
    from unat_double_u32 [OF this] have "vec_entries v < c"
      unfolding c_def eq INITIAL_CAPACITY_IF_ZERO_REQUESTED_def
      by (auto simp: word_less_nat_alt unat_gt_0)
    then have "vec_entries ?v \<le> c" and lt: "vec_entries v < c" by simp_all
    from drvector_increase_size_ok [OF sh this(1)] obtain w where
      "drvector_increase_size ?v c = Inr w" "vec_shape w" "vec_cells w = vec_cells v"
      "vec_capacity w = c" "vec_array w \<noteq> None" "vec_entries w = vec_entries v"
      "vec_lock w = vec_synch v" "vec_synch w = vec_synch v" by auto
    moreover have "?grow = drvector_increase_size ?v c" using eq by (simp add: c_def)
    ultimately show ?thesis using lt by simp
  qed
  then obtain w where w: "?grow = Inr w" "vec_shape w" "vec_cells w = vec_cells v"
    "vec_array w \<noteq> None" "vec_entries w < vec_capacity w" "vec_lock w = vec_synch w" by blast
  from array_store_append [OF w(2,4,5)] obtain a where
    a: "array_store (vec_array w) (unat (vec_entries w)) x = Inr (Some a)"
    "vec_shape (w\<lparr>vec_array := Some a, vec_entries := vec_entries w + 1\<rparr>)"
    "vec_cells (w\<lparr>vec_array := Some a, vec_entries := vec_entries w + 1\<rparr>) = vec_cells v @ [Some x]"
    using w(3) by metis
  show ?thesis
    using a w(1,6) vec_unlock_if_synch_ok [OF _ a(2)]
    by (simp add: drvector_append_def vec_lock_if_synch_ok [OF ok])
qed

lemma drvector_get_entry_ok:
  assumes "drvector_ok v"
  shows "drvector_get_entry (Some v) i =
           (if unat i < length (vec_cells v)
            then (case vec_cells v ! unat i of None \<Rightarrow> Inl Uninit | Some p \<Rightarrow> Inr p)
            else Inr 0)"
  using assms length_vec_cells [of v]
  by (auto simp: drvector_get_entry_def vec_lock_if_synch_ok array_load_def vec_defs
      word_less_nat_alt word_le_nat_alt split: option.splits)


text \<open>
  \<open>drvector_set_entry\<close> past the capacity reallocates to twice the index. That makes room for
  every index but 0, and only while the doubled index does not wrap.
\<close>

definition vec_settable :: "drvector \<Rightarrow> u32 \<Rightarrow> bool" where
  "vec_settable v idx \<longleftrightarrow> idx < vec_capacity v \<or> (0 < idx \<and> unat idx < 2 ^ 31)"

lemma vec_grow_for_set:
  assumes sh: "vec_shape v" and set: "vec_settable v idx"
  shows "\<exists>w. (if idx \<ge> vec_capacity v then drvector_increase_size v (idx * 2) else Inr v) = Inr w \<and>
             vec_shape w \<and> vec_cells w = vec_cells v \<and> idx < vec_capacity w \<and> vec_array w \<noteq> None \<and>
             vec_entries w = vec_entries v \<and> vec_lock w = vec_lock v \<and> vec_synch w = vec_synch v"
proof (cases "idx < vec_capacity v")
  case True
  with sh show ?thesis by (auto simp: vec_shape_def split: option.splits)
next
  case False
  with set have "unat idx < 2 ^ 31" "0 < idx" by (auto simp: vec_settable_def)
  from unat_double_u32 [OF this(1)] this(2) have lt: "idx < idx * 2"
    by (simp add: word_less_nat_alt unat_gt_0)
  have "vec_entries v \<le> vec_capacity v" using sh by (auto simp: vec_shape_def split: option.splits)
  with False lt have "vec_entries v \<le> idx * 2" by simp
  from drvector_increase_size_ok [OF sh this] lt False show ?thesis by auto
qed

lemma vec_store_in_range:
  assumes "vec_shape v" "vec_array v \<noteq> None" "idx < vec_capacity v"
  shows "\<exists>a w. array_store (vec_array v) (unat idx) x = Inr (Some a) \<and>
             w = (if idx \<ge> vec_entries v then v\<lparr>vec_array := Some a, vec_entries := idx + 1\<rparr>
                  else v\<lparr>vec_array := Some a\<rparr>) \<and>
             vec_shape w \<and> unat idx < length (vec_cells w) \<and> vec_cells w ! unat idx = Some x \<and>
             length (vec_cells v) \<le> length (vec_cells w) \<and>
             (\<forall>j < length (vec_cells v). j \<noteq> unat idx \<longrightarrow> vec_cells w ! j = vec_cells v ! j)"
proof -
  from assms obtain a where a: "vec_array v = Some a" "length a = unat (vec_capacity v)"
    "vec_entries v \<le> vec_capacity v" by (auto simp: vec_shape_def)
  have lt: "unat idx < length a" using assms(3) a by (simp add: word_less_nat_alt)
  then have "unat idx < 2 ^ 32 - 1" using a(2) unat_le_u32 [of "vec_capacity v"] by simp
  then have s: "unat (idx + 1) = Suc (unat idx)" by (rule unat_Suc_u32)
  show ?thesis using a lt s
    by (auto simp: array_store_def vec_defs word_le_nat_alt word_less_nat_alt)
qed

lemma drvector_set_entry_ok:
  assumes ok: "drvector_ok v" and set: "vec_settable v idx"
  shows "\<exists>w. drvector_set_entry (Some v) idx x = Inr (True, Some w) \<and> drvector_ok w \<and>
             unat idx < length (vec_cells w) \<and> vec_cells w ! unat idx = Some x \<and>
             length (vec_cells v) \<le> length (vec_cells w) \<and>
             (\<forall>j < length (vec_cells v). j \<noteq> unat idx \<longrightarrow> vec_cells w ! j = vec_cells v ! j)"
proof -
  let ?v = "v\<lparr>vec_lock := vec_synch v\<rparr>"
  have "vec_shape ?v" "vec_settable ?v idx" using ok set by (simp_all add: drvector_ok_def vec_settable_def)
  from vec_grow_for_set [OF this] obtain u where
    u: "(if idx \<ge> vec_capacity ?v then drvector_increase_size ?v (idx * 2) else Inr ?v) = Inr u"
    "vec_shape u" "vec_cells u = vec_cells v" "idx < vec_capacity u" "vec_array u \<noteq> None"
    "vec_lock u = vec_synch u" by auto
  from vec_store_in_range [OF u(2,5,4), of x] obtain a w where
    a: "array_store (vec_array u) (unat idx) x = Inr (Some a)" and
    weq: "w = (if idx \<ge> vec_entries u then u\<lparr>vec_array := Some a, vec_entries := idx + 1\<rparr>
             else u\<lparr>vec_array := Some a\<rparr>)" and
    w: "vec_shape w" "unat idx < length (vec_cells w)" "vec_cells w ! unat idx = Some x"
    "length (vec_cells v) \<le> length (vec_cells w)"
    "\<forall>j < length (vec_cells v). j \<noteq> unat idx \<longrightarrow> vec_cells w ! j = vec_cells v ! j"
    unfolding u(3) by blast
  have "drvector_set_entry (Some v) idx x = Inr (True, Some (vec_unlock_if_synch w))"
    using u(1) a by (simp add: drvector_set_entry_def vec_lock_if_synch_ok [OF ok] weq Let_def)
  moreover have "vec_lock w = vec_synch w" using u(6) by (simp add: weq)
  ultimately show ?thesis using vec_unlock_if_synch_ok [OF _ w(1)] w by simp
qed

section \<open>The interface of an append-only sequence\<close>

text \<open>
  What a client of the vector relies on: appending returns, keeps the invariant and extends the
  sequence; reading returns the sequence's elements.
\<close>

locale pointer_sequence =
  fixes invar :: "'v \<Rightarrow> bool"
    and room :: "'v \<Rightarrow> bool"
    and elems :: "'v \<Rightarrow> ptr option list"
    and append :: "'v \<Rightarrow> ptr \<Rightarrow> 'v cres"
    and get :: "'v \<Rightarrow> u32 \<Rightarrow> ptr cres"
  assumes append_law: "invar v \<Longrightarrow> room v \<Longrightarrow>
      \<exists>w. append v x = Inr w \<and> invar w \<and> elems w = elems v @ [Some x]"
    and get_law: "invar v \<Longrightarrow> unat i < length (elems v) \<Longrightarrow> elems v ! unat i = Some x \<Longrightarrow>
      get v i = Inr x"
begin

lemma append_then_get_last:
  assumes "invar v" "room v" "append v x = Inr w" "unat i = length (elems v)"
  shows "get w i = Inr x"
  using append_law [OF assms(1,2), of x] assms(3,4) by (auto intro: get_law)

lemma append_then_get_old:
  assumes "invar v" "room v" "append v x = Inr w" "unat i < length (elems v)"
    "elems v ! unat i = Some y"
  shows "get w i = Inr y"
  using append_law [OF assms(1,2), of x] assms(3-5) by (auto intro: get_law simp: nth_append)

end

definition vec_push :: "drvector \<Rightarrow> ptr \<Rightarrow> drvector cres" where
  "vec_push v x = bind_res (drvector_append (Some v) x) (\<lambda>(_, w). case w of None \<Rightarrow> Inl NullDeref | Some w \<Rightarrow> Inr w)"

interpretation dv: pointer_sequence drvector_ok vec_room vec_cells vec_push "\<lambda>v. drvector_get_entry (Some v)"
proof
  fix v x assume "drvector_ok v" "vec_room v"
  from drvector_append_ok [OF this, of x]
  show "\<exists>w. vec_push v x = Inr w \<and> drvector_ok w \<and> vec_cells w = vec_cells v @ [Some x]"
    by (auto simp: vec_push_def)
next
  fix v x and i :: u32 assume "drvector_ok v" "unat i < length (vec_cells v)" "vec_cells v ! unat i = Some x"
  then show "drvector_get_entry (Some v) i = Inr x" by (simp add: drvector_get_entry_ok)
qed


section \<open>Properties\<close>

lemma unat_double_wrap_u32:
  assumes "2 ^ 31 \<le> unat (w :: u32)"
  shows "unat (w * 2) < unat w"
proof -
  have "unat (w * 2) = (2 * unat w) mod 2 ^ 32" by (subst unat_word_ariths) (simp add: mult.commute)
  also have "\<dots> = 2 * unat w - 2 ^ 32"
    using assms unat_le_u32 [of w] by (subst le_mod_geq) simp_all
  finally show ?thesis using unat_le_u32 [of w] assms by simp
qed



text \<open>C27. Setting an entry and reading it back gives the pointer that was set and leaves every
  other entry of the vector as it was, for every index the vector can hold.\<close>

theorem drvector_set_get:
  assumes "drvector_ok v" "vec_settable v idx"
  shows "\<exists>w. drvector_set_entry (Some v) idx x = Inr (True, Some w) \<and> drvector_ok w \<and>
             drvector_get_entry (Some w) idx = Inr x \<and>
             (\<forall>j. j \<noteq> idx \<and> unat j < length (vec_cells v) \<longrightarrow>
                  drvector_get_entry (Some w) j = drvector_get_entry (Some v) j)"
proof -
  from drvector_set_entry_ok [OF assms] obtain w where
    w: "drvector_set_entry (Some v) idx x = Inr (True, Some w)" "drvector_ok w"
    "unat idx < length (vec_cells w)" "vec_cells w ! unat idx = Some x"
    "length (vec_cells v) \<le> length (vec_cells w)"
    "\<forall>j < length (vec_cells v). j \<noteq> unat idx \<longrightarrow> vec_cells w ! j = vec_cells v ! j" by blast
  then show ?thesis
    by (auto simp: drvector_get_entry_ok assms(1) word_unat_eq_iff)
qed

theorem drvector_set_get_witness:
  "\<exists>w. drvector_set_entry (Some \<lparr>vec_entries = 1, vec_capacity = 2, vec_array = Some [Some 5, None],
        vec_synch = True, vec_lock = False, vec_free_func = False, vec_freed = []\<rparr>) 3 9 =
         Inr (True, Some w) \<and> drvector_get_entry (Some w) 3 = Inr 9"
proof -
  let ?v = "\<lparr>vec_entries = 1, vec_capacity = 2, vec_array = Some [Some 5, None],
        vec_synch = True, vec_lock = False, vec_free_func = False, vec_freed = []\<rparr>"
  have "drvector_ok ?v" "vec_settable ?v 3" by (simp_all add: vec_defs vec_settable_def)
  from drvector_set_get [OF this, of 9] show ?thesis by blast
qed

text \<open>C35. For the remaining indices the write goes out of bounds: index 0 of a vector without
  storage asks for \<open>0 * 2\<close> cells, and an index of \<open>2^31\<close> or more wraps when it is doubled.\<close>

theorem drvector_set_entry_out_of_bounds:
  assumes "drvector_ok v" "\<not> vec_settable v idx"
  shows "drvector_set_entry (Some v) idx x = Inl OutOfBounds"
proof -
  have ge: "vec_capacity v \<le> idx" and idx: "idx = 0 \<or> 2 ^ 31 \<le> unat idx"
    using assms(2) by (auto simp: vec_settable_def word_gt_0)
  have "unat (idx * 2) \<le> unat idx" using idx unat_double_wrap_u32 [of idx] by fastforce
  with assms(1) ge show ?thesis
    by (auto simp: drvector_set_entry_def vec_lock_if_synch_ok drvector_increase_size_def
        array_store_def Let_def drvector_ok_def vec_shape_def split: option.splits)
qed

theorem drvector_set_entry_out_of_bounds_witness:
  "drvector_set_entry (snd (drvector_init (Some \<lparr>vec_entries = 0, vec_capacity = 0, vec_array = None,
     vec_synch = False, vec_lock = False, vec_free_func = False, vec_freed = []\<rparr>) 0 True False)) 0 9 =
   Inl OutOfBounds"
proof -
  let ?v = "\<lparr>vec_entries = 0, vec_capacity = 0, vec_array = None,
     vec_synch = True, vec_lock = False, vec_free_func = False, vec_freed = []\<rparr>"
  have "drvector_ok ?v" "\<not> vec_settable ?v 0" by (simp_all add: vec_defs vec_settable_def)
  from drvector_set_entry_out_of_bounds [OF this, of 9] show ?thesis
    by (simp add: drvector_init_def)
qed

lemma free_entries_all:
  "\<forall>i \<in> set is. i < length a \<and> a ! i \<noteq> None \<Longrightarrow>
     free_entries (Some a) is = Inr (map (\<lambda>i. the (a ! i)) is)"
  by (induction "is") (auto simp: array_load_def)

text \<open>C28. Deleting a vector hands each stored pointer to \<open>free_data_func\<close> exactly once, in order,
  drops the storage and leaves the lock free.\<close>

theorem drvector_delete_frees_each_once:
  assumes "drvector_ok v" "vec_free_func v" "None \<notin> set (vec_cells v)"
  shows "\<exists>w. drvector_delete (Some v) = Inr (True, Some w) \<and>
             vec_freed w = vec_freed v @ map the (vec_cells v) \<and>
             vec_array w = None \<and> vec_entries w = 0 \<and> \<not> vec_lock w"
proof (cases "vec_array v")
  case None
  with assms(1) show ?thesis
    by (auto simp: drvector_delete_def vec_lock_if_synch_ok vec_lock_defs vec_defs)
next
  case (Some a)
  let ?n = "unat (vec_entries v)"
  have cells: "vec_cells v = take ?n a" "?n \<le> length a"
    using Some assms(1) by (simp_all add: vec_defs word_le_nat_alt)
  have "a ! i \<noteq> None" if "i < ?n" for i
  proof -
    have "take ?n a ! i \<in> set (take ?n a)" using that cells(2) by (intro nth_mem) simp
    with assms(3) cells(1) that show ?thesis by (metis nth_take)
  qed
  with cells(2) have "free_entries (Some a) [0..<?n] = Inr (map (\<lambda>i. the (a ! i)) [0..<?n])"
    by (intro free_entries_all) auto
  also have "map (\<lambda>i. the (a ! i)) [0..<?n] = map the (vec_cells v)"
    by (rule nth_equalityI) (simp_all add: cells)
  finally show ?thesis using Some assms(1,2)
    by (auto simp: drvector_delete_def vec_lock_if_synch_ok vec_lock_defs drvector_ok_def)
qed

theorem drvector_delete_frees_each_once_witness:
  "\<exists>w. drvector_delete (Some \<lparr>vec_entries = 2, vec_capacity = 3, vec_array = Some [Some 5, Some 6, None],
        vec_synch = True, vec_lock = False, vec_free_func = True, vec_freed = []\<rparr>) =
         Inr (True, Some w) \<and> vec_freed w = [5, 6]"
proof -
  let ?v = "\<lparr>vec_entries = 2, vec_capacity = 3, vec_array = Some [Some 5, Some 6, None],
        vec_synch = True, vec_lock = False, vec_free_func = True, vec_freed = []\<rparr>"
  have two: "unat (2 :: u32) = Suc (Suc 0)" by simp
  have c: "vec_cells ?v = [Some 5, Some 6]" unfolding vec_defs by (simp add: two)
  have "drvector_ok ?v" "vec_free_func ?v" "None \<notin> set (vec_cells ?v)"
    unfolding c by (simp_all add: vec_defs)
  from drvector_delete_frees_each_once [OF this] show ?thesis unfolding c by auto
qed

end
