(* ===== verification/Hashtable.thy ===== *)
theory Hashtable
  imports Plc_Prelude
begin

text \<open>
  The chained hashtable of \<open>ext/drcontainers/hashtable.c\<close>: 64-bit pointer keys, C-string keys
  (case-sensitive or not) and custom keys, automatic doubling, an optional lock around every
  operation. A key is the pointer together with the C string stored at it (the bytes before the
  terminating NUL); a bucket is the list of its chain. Payloads handed to \<open>free_payload_func\<close>
  are logged in \<open>ht_freed\<close>. Memory from \<open>hash_alloc\<close> is the list itself, except for the address
  of a duplicated string key, which is an argument of the operations that duplicate.
\<close>

record hkey =
  kptr :: ptr
  kstr :: "u8 list"

datatype hash_type = HASH_INTPTR | HASH_STRING | HASH_STRING_NOCASE | HASH_CUSTOM

record hash_entry =
  he_key :: hkey
  he_payload :: ptr

record hashtable_config =
  cfg_size :: nat
  cfg_resizable :: bool
  cfg_resize_threshold :: u32

record hashtable =
  ht_table :: "hash_entry list list"
  ht_hashtype :: hash_type
  ht_str_dup :: bool
  ht_lock :: bool
  ht_table_bits :: nat
  ht_synch :: bool
  ht_free_payload_func :: bool
  ht_hash_key_func :: "(hkey \<Rightarrow> u32) option"
  ht_cmp_key_func :: "(hkey \<Rightarrow> hkey \<Rightarrow> bool) option"
  ht_entries :: u32
  ht_config :: hashtable_config
  ht_freed :: "ptr list"

section \<open>Characters, strings and keys\<close>

definition tolower :: "u8 \<Rightarrow> u8" where
  "tolower c = (if 65 \<le> c \<and> c \<le> 90 then c + 32 else c)"

fun stri_eq_chars :: "u8 list \<Rightarrow> u8 list \<Rightarrow> bool" where
  "stri_eq_chars [] s2 = (s2 = [])"
| "stri_eq_chars (a # s1) [] = False"
| "stri_eq_chars (a # s1) (b # s2) =
     (let uc1 = (if 65 \<le> a \<and> a \<le> 90 then a + 97 - 65 else a);
          uc2 = (if 65 \<le> b \<and> b \<le> 90 then b + 97 - 65 else b)
      in if uc1 = uc2 then stri_eq_chars s1 s2 else False)"

definition stri_eq :: "hkey \<Rightarrow> hkey \<Rightarrow> bool" where
  "stri_eq s1 s2 = (if kptr s1 = 0 \<or> kptr s2 = 0 then False else stri_eq_chars (kstr s1) (kstr s2))"

definition HASHTABLE_SIZE :: "nat \<Rightarrow> nat" where
  "HASHTABLE_SIZE num_bits = 2 ^ num_bits"

definition HASH_MASK :: "nat \<Rightarrow> u32" where
  "HASH_MASK num_bits = drop_bit (32 - num_bits) (NOT 0)"

definition align_forward_8 :: "nat \<Rightarrow> nat" where
  "align_forward_8 x = (x + 7) div 8 * 8"

text \<open>The loop of \<open>hash_key\<close> over the characters of a string, from index \<open>i\<close>.\<close>

fun hash_chars :: "bool \<Rightarrow> nat \<Rightarrow> nat \<Rightarrow> u8 list \<Rightarrow> u32 \<Rightarrow> u32" where
  "hash_chars nocase max_shift i [] hash = hash"
| "hash_chars nocase max_shift i (c # s) hash =
     (let c = (if nocase then tolower c else c);
          shift = (i mod 4) * 8;
          shift = (if shift > max_shift then max_shift else shift)
      in hash_chars nocase max_shift (Suc i) s (hash XOR push_bit shift (scast c)))"

definition hash_key :: "hashtable \<Rightarrow> hkey \<Rightarrow> u32" where
  "hash_key table key =
     (let hash =
        (case ht_hash_key_func table of
           Some f \<Rightarrow> f key
         | None \<Rightarrow>
             if ht_hashtype table = HASH_STRING \<or> ht_hashtype table = HASH_STRING_NOCASE
             then hash_chars (ht_hashtype table = HASH_STRING_NOCASE)
                    (align_forward_8 (ht_table_bits table)) 0 (kstr key) 0
             else ucast (kptr key))
      in hash AND HASH_MASK (ht_table_bits table))"

definition keys_equal :: "hashtable \<Rightarrow> hkey \<Rightarrow> hkey \<Rightarrow> bool" where
  "keys_equal table key1 key2 =
     (case ht_cmp_key_func table of
        Some f \<Rightarrow> f key1 key2
      | None \<Rightarrow>
          if ht_hashtype table = HASH_STRING then kstr key1 = kstr key2
          else if ht_hashtype table = HASH_STRING_NOCASE then stri_eq key1 key2
          else kptr key1 = kptr key2)"

section \<open>Operations\<close>

definition hashtable_init_ex ::
    "nat \<Rightarrow> hash_type \<Rightarrow> bool \<Rightarrow> bool \<Rightarrow> bool \<Rightarrow> (hkey \<Rightarrow> u32) option \<Rightarrow>
     (hkey \<Rightarrow> hkey \<Rightarrow> bool) option \<Rightarrow> hashtable" where
  "hashtable_init_ex num_bits hashtype str_dup synch free_payload_func hash_key_func cmp_key_func =
     \<lparr>ht_table = replicate (HASHTABLE_SIZE num_bits) [],
      ht_hashtype = hashtype, ht_str_dup = str_dup, ht_lock = False, ht_table_bits = num_bits,
      ht_synch = synch, ht_free_payload_func = free_payload_func,
      ht_hash_key_func = hash_key_func, ht_cmp_key_func = cmp_key_func, ht_entries = 0,
      ht_config = \<lparr>cfg_size = 16, cfg_resizable = True, cfg_resize_threshold = 75\<rparr>,
      ht_freed = []\<rparr>"

definition hashtable_init :: "nat \<Rightarrow> hash_type \<Rightarrow> bool \<Rightarrow> hashtable" where
  "hashtable_init num_bits hashtype str_dup =
     hashtable_init_ex num_bits hashtype str_dup True False None None"

text \<open>\<open>resizable\<close> is at offset 8 and \<open>resize_threshold\<close> at offset 12 of the config struct.\<close>

definition hashtable_configure :: "hashtable \<Rightarrow> hashtable_config \<Rightarrow> hashtable" where
  "hashtable_configure table config =
     (let c = ht_config table;
          c = (if cfg_size config > 8 then c\<lparr>cfg_resizable := cfg_resizable config\<rparr> else c);
          c = (if cfg_size config > 12
               then c\<lparr>cfg_resize_threshold := cfg_resize_threshold config\<rparr> else c)
      in table\<lparr>ht_config := c\<rparr>)"

definition hashtable_lock :: "hashtable \<Rightarrow> hashtable cres" where
  "hashtable_lock t = (if ht_lock t then Inl Deadlock else Inr (t\<lparr>ht_lock := True\<rparr>))"

definition hashtable_unlock :: "hashtable \<Rightarrow> hashtable" where
  "hashtable_unlock t = t\<lparr>ht_lock := False\<rparr>"

definition ht_lock_if_synch :: "hashtable \<Rightarrow> hashtable cres" where
  "ht_lock_if_synch t = (if ht_synch t then hashtable_lock t else Inr t)"

definition ht_unlock_if_synch :: "hashtable \<Rightarrow> hashtable" where
  "ht_unlock_if_synch t = (if ht_synch t then hashtable_unlock t else t)"

definition ht_bucket :: "hashtable \<Rightarrow> nat \<Rightarrow> hash_entry list cres" where
  "ht_bucket t i = (if i < length (ht_table t) then Inr (ht_table t ! i) else Inl OutOfBounds)"

fun chain_lookup :: "hashtable \<Rightarrow> hkey \<Rightarrow> hash_entry list \<Rightarrow> ptr" where
  "chain_lookup t key [] = 0"
| "chain_lookup t key (e # es) =
     (if keys_equal t (he_key e) key then he_payload e else chain_lookup t key es)"

definition hashtable_lookup :: "hashtable \<Rightarrow> hkey \<Rightarrow> ptr cres" where
  "hashtable_lookup table key =
     bind_res (ht_lock_if_synch table) (\<lambda>t.
     bind_res (ht_bucket t (unat (hash_key t key))) (\<lambda>es. Inr (chain_lookup t key es)))"

text \<open>
  The rehash loop takes the entries chain by chain and puts each at the head of its new chain.
\<close>

definition rehash_entry :: "hashtable \<Rightarrow> hash_entry \<Rightarrow> hash_entry list list \<Rightarrow> hash_entry list list" where
  "rehash_entry t e new_table =
     (let hindex = unat (hash_key t (he_key e)) in new_table[hindex := e # new_table ! hindex])"

definition hashtable_check_for_resize :: "hashtable \<Rightarrow> (bool \<times> hashtable) cres" where
  "hashtable_check_for_resize table =
     (let capacity = HASHTABLE_SIZE (ht_table_bits table) in
      if cfg_resizable (ht_config table) \<and>
         unat (ht_entries table * 100) > unat (cfg_resize_threshold (ht_config table)) * capacity
      then
        if Suc (ht_table_bits table) \<ge> 32 then Inl BadShift
        else
          let t = table\<lparr>ht_table_bits := Suc (ht_table_bits table)\<rparr>;
              new_table = replicate (HASHTABLE_SIZE (ht_table_bits t)) []
          in Inr (True, t\<lparr>ht_table := fold (rehash_entry t) (concat (ht_table t)) new_table\<rparr>)
      else Inr (False, table))"

definition new_entry :: "hashtable \<Rightarrow> hkey \<Rightarrow> ptr \<Rightarrow> ptr \<Rightarrow> hash_entry" where
  "new_entry t key payload dup =
     \<lparr>he_key = (if ht_str_dup t then key\<lparr>kptr := dup\<rparr> else key), he_payload = payload\<rparr>"

definition ht_insert_head :: "hashtable \<Rightarrow> nat \<Rightarrow> hash_entry \<Rightarrow> hashtable" where
  "ht_insert_head t hindex e =
     t\<lparr>ht_table := (ht_table t)[hindex := e # ht_table t ! hindex], ht_entries := ht_entries t + 1\<rparr>"

definition hashtable_add :: "hashtable \<Rightarrow> hkey \<Rightarrow> ptr \<Rightarrow> ptr \<Rightarrow> (bool \<times> hashtable) cres" where
  "hashtable_add table key payload dup =
     bind_res (ht_lock_if_synch table) (\<lambda>t.
     let hindex = unat (hash_key t key) in
     bind_res (ht_bucket t hindex) (\<lambda>es.
     if \<exists>e \<in> set es. keys_equal t (he_key e) key then Inr (False, ht_unlock_if_synch t)
     else
       bind_res (hashtable_check_for_resize (ht_insert_head t hindex (new_entry t key payload dup)))
         (\<lambda>(_, t). Inr (True, ht_unlock_if_synch t))))"

fun chain_replace :: "hashtable \<Rightarrow> hkey \<Rightarrow> hash_entry \<Rightarrow> hash_entry list \<Rightarrow> ptr \<times> hash_entry list" where
  "chain_replace t key new_e [] = (0, [])"
| "chain_replace t key new_e (e # es) =
     (if keys_equal t (he_key e) key then (he_payload e, new_e # es)
      else let (old, es') = chain_replace t key new_e es in (old, e # es'))"

definition hashtable_add_replace :: "hashtable \<Rightarrow> hkey \<Rightarrow> ptr \<Rightarrow> ptr \<Rightarrow> (ptr \<times> hashtable) cres" where
  "hashtable_add_replace table key payload dup =
     bind_res (ht_lock_if_synch table) (\<lambda>t.
     let hindex = unat (hash_key t key); new_e = new_entry t key payload dup in
     bind_res (ht_bucket t hindex) (\<lambda>es.
     let (old_payload, es') = chain_replace t key new_e es;
         t = t\<lparr>ht_table := (ht_table t)[hindex := es']\<rparr> in
     if old_payload = 0
     then bind_res (hashtable_check_for_resize (ht_insert_head t hindex new_e))
            (\<lambda>(_, t). Inr (old_payload, ht_unlock_if_synch t))
     else Inr (old_payload, ht_unlock_if_synch t)))"

fun chain_remove :: "hashtable \<Rightarrow> hkey \<Rightarrow> hash_entry list \<Rightarrow> hash_entry option \<times> hash_entry list" where
  "chain_remove t key [] = (None, [])"
| "chain_remove t key (e # es) =
     (if keys_equal t (he_key e) key then (Some e, es)
      else let (r, es') = chain_remove t key es in (r, e # es'))"

definition free_payloads :: "hashtable \<Rightarrow> hash_entry list \<Rightarrow> hashtable" where
  "free_payloads t es =
     (if ht_free_payload_func t then t\<lparr>ht_freed := ht_freed t @ map he_payload es\<rparr> else t)"

definition hashtable_remove :: "hashtable \<Rightarrow> hkey \<Rightarrow> (bool \<times> hashtable) cres" where
  "hashtable_remove table key =
     bind_res (ht_lock_if_synch table) (\<lambda>t.
     let hindex = unat (hash_key t key) in
     bind_res (ht_bucket t hindex) (\<lambda>es.
     case chain_remove t key es of
       (None, _) \<Rightarrow> Inr (False, ht_unlock_if_synch t)
     | (Some e, es') \<Rightarrow>
         let t = free_payloads (t\<lparr>ht_table := (ht_table t)[hindex := es']\<rparr>) [e];
             t = t\<lparr>ht_entries := ht_entries t - 1\<rparr>
         in Inr (True, ht_unlock_if_synch t)))"

text \<open>The two nested loops of \<open>hashtable_remove_range\<close> unlink every entry in range.\<close>

definition hashtable_remove_range :: "hashtable \<Rightarrow> ptr \<Rightarrow> ptr \<Rightarrow> (bool \<times> hashtable) cres" where
  "hashtable_remove_range table start stop =
     bind_res (ht_lock_if_synch table) (\<lambda>t.
     let in_range = (\<lambda>e. kptr (he_key e) \<ge> start \<and> kptr (he_key e) < stop);
         removed = filter in_range (concat (ht_table t));
         t = free_payloads (t\<lparr>ht_table := map (filter (\<lambda>e. \<not> in_range e)) (ht_table t)\<rparr>) removed;
         t = t\<lparr>ht_entries := ht_entries t - of_nat (length removed)\<rparr>
     in Inr (removed \<noteq> [], ht_unlock_if_synch t))"

text \<open>The payloads \<open>apply_func\<close> is called with, in order.\<close>

definition hashtable_apply_to_all_payloads :: "hashtable \<Rightarrow> ptr list" where
  "hashtable_apply_to_all_payloads t = map he_payload (concat (ht_table t))"

definition hashtable_clear_internal :: "hashtable \<Rightarrow> hashtable" where
  "hashtable_clear_internal t =
     (free_payloads (t\<lparr>ht_table := map (\<lambda>_. []) (ht_table t)\<rparr>) (concat (ht_table t)))
       \<lparr>ht_entries := 0\<rparr>"

definition hashtable_clear :: "hashtable \<Rightarrow> hashtable cres" where
  "hashtable_clear table =
     bind_res (ht_lock_if_synch table) (\<lambda>t. Inr (ht_unlock_if_synch (hashtable_clear_internal t)))"

text \<open>A freed table pointer (\<open>table->table = NULL\<close>) is the empty bucket array.\<close>

definition hashtable_delete :: "hashtable \<Rightarrow> hashtable cres" where
  "hashtable_delete table =
     bind_res (ht_lock_if_synch table) (\<lambda>t.
       Inr (ht_unlock_if_synch ((hashtable_clear_internal t)\<lparr>ht_table := [], ht_entries := 0\<rparr>)))"

lemmas ht_lock_defs =
  ht_lock_if_synch_def ht_unlock_if_synch_def hashtable_lock_def hashtable_unlock_def


section \<open>Entries as multisets, and the abstract map\<close>

text \<open>No two entries of the table have equal keys; a property of the multiset of entries.\<close>

definition uniq_keys :: "(hkey \<Rightarrow> hkey \<Rightarrow> bool) \<Rightarrow> hash_entry multiset \<Rightarrow> bool" where
  "uniq_keys eq M \<longleftrightarrow>
     (\<forall>e N. M = add_mset e N \<longrightarrow> (\<forall>e' \<in># N. \<not> eq (he_key e) (he_key e')))"

definition assoc_of :: "(hkey \<Rightarrow> hkey \<Rightarrow> bool) \<Rightarrow> hash_entry list \<Rightarrow> hkey \<Rightarrow> ptr option" where
  "assoc_of eq es k = map_option he_payload (find (\<lambda>e. eq (he_key e) k) es)"

text \<open>Every entry sits in the bucket its key hashes to.\<close>

definition placed :: "(hkey \<Rightarrow> nat) \<Rightarrow> hash_entry list list \<Rightarrow> bool" where
  "placed hk tb \<longleftrightarrow> (\<forall>i < length tb. \<forall>e \<in> set (tb ! i). hk (he_key e) = i)"

lemma uniq_keys_empty [simp]: "uniq_keys eq {#}"
  by (simp add: uniq_keys_def)

lemma uniq_keys_add_mset:
  "uniq_keys eq (add_mset e M) \<longleftrightarrow>
     uniq_keys eq M \<and> (\<forall>e' \<in># M. \<not> eq (he_key e) (he_key e') \<and> \<not> eq (he_key e') (he_key e))"
  (is "?l \<longleftrightarrow> ?r")
proof
  assume l: ?l
  have "\<not> eq (he_key e) (he_key e') \<and> \<not> eq (he_key e') (he_key e)" if "e' \<in># M" for e'
  proof -
    from that obtain N where N: "M = add_mset e' N" by (metis multi_member_split)
    then have "add_mset e M = add_mset e' (add_mset e N)" "e \<in># add_mset e N" by simp_all
    with l have "\<not> eq (he_key e') (he_key e)" unfolding uniq_keys_def by blast
    moreover from l that have "\<not> eq (he_key e) (he_key e')" unfolding uniq_keys_def by blast
    ultimately show ?thesis by simp
  qed
  moreover have "uniq_keys eq M"
    unfolding uniq_keys_def
  proof (intro allI impI ballI)
    fix a N b assume "M = add_mset a N" "b \<in># N"
    then have "add_mset e M = add_mset a (add_mset e N)" "b \<in># add_mset e N" by simp_all
    with l show "\<not> eq (he_key a) (he_key b)" unfolding uniq_keys_def by blast
  qed
  ultimately show ?r by blast
next
  assume r: ?r
  show ?l
    unfolding uniq_keys_def
  proof (intro allI impI ballI)
    fix a N b assume eqM: "add_mset e M = add_mset a N" and b: "b \<in># N"
    show "\<not> eq (he_key a) (he_key b)"
    proof (cases "a = e \<and> M = N")
      case True
      with r b show ?thesis by blast
    next
      case False
      with eqM obtain K where "M = add_mset a K" "N = add_mset e K"
        by (metis add_eq_conv_ex)
      with r b show ?thesis unfolding uniq_keys_def by auto
    qed
  qed
qed

lemma uniq_keys_diff: "uniq_keys eq (M + N) \<Longrightarrow> uniq_keys eq M"
proof (induction N)
  case (add x N)
  then have "uniq_keys eq (add_mset x (M + N))" by simp
  then show ?case using add.IH by (simp only: uniq_keys_add_mset)
qed simp

lemma assoc_of_None: "assoc_of eq es k = None \<longleftrightarrow> (\<forall>e \<in> set es. \<not> eq (he_key e) k)"
  by (auto simp: assoc_of_def find_None_iff)

lemma mset_concat_update:
  "i < length tb \<Longrightarrow>
     mset (concat (tb[i := es])) + mset (tb ! i) = mset (concat tb) + mset es"
proof (induction tb arbitrary: i)
  case (Cons a tb)
  show ?case
  proof (cases i)
    case 0
    then show ?thesis by (simp add: union_commute union_lcomm)
  next
    case (Suc j)
    with Cons show ?thesis by (simp add: add.assoc)
  qed
qed simp

lemma mset_concat_update_Cons:
  "i < length tb \<Longrightarrow> mset (concat (tb[i := e # tb ! i])) = add_mset e (mset (concat tb))"
  using mset_concat_update [of i tb "e # tb ! i"] by simp

lemma placed_update:
  "placed hk tb \<Longrightarrow> \<forall>e \<in> set es. hk (he_key e) = i \<Longrightarrow> placed hk (tb[i := es])"
  unfolding placed_def
proof (intro allI impI ballI)
  fix j e
  assume p: "\<forall>i < length tb. \<forall>e \<in> set (tb ! i). hk (he_key e) = i" "\<forall>e \<in> set es. hk (he_key e) = i"
    and j: "j < length (tb[i := es])" and e: "e \<in> set (tb[i := es] ! j)"
  show "hk (he_key e) = j"
    by (cases "j = i") (use p j e in auto)
qed

section \<open>The contract of a key type\<close>

text \<open>
  What the table relies on: equality of keys is an equivalence on the keys in use, and equal
  keys hash to the same bucket whatever the number of bits.
\<close>

locale hash_keys =
  fixes hk :: "nat \<Rightarrow> hkey \<Rightarrow> nat"
    and eq :: "hkey \<Rightarrow> hkey \<Rightarrow> bool"
    and valid :: "hkey \<Rightarrow> bool"
  assumes eq_refl: "valid a \<Longrightarrow> eq a a"
    and eq_sym: "eq a b \<Longrightarrow> eq b a"
    and eq_trans: "eq a b \<Longrightarrow> eq b c \<Longrightarrow> eq a c"
    and hk_cong: "eq a b \<Longrightarrow> hk n a = hk n b"
begin

lemma uniq_keysD:
  assumes "uniq_keys eq (mset es)" "a \<in> set es" "b \<in> set es" "eq (he_key a) (he_key b)"
  shows "a = b"
proof (rule ccontr)
  assume "a \<noteq> b"
  from assms(2) have "a \<in># mset es" by simp
  then obtain N where N: "mset es = add_mset a N" using multi_member_split [of a "mset es"] by blast
  have "b \<in># add_mset a N" unfolding N [symmetric] using assms(3) by simp
  with \<open>a \<noteq> b\<close> have "b \<in># N" by simp
  with assms(1,4) N show False unfolding uniq_keys_def by blast
qed

lemma assoc_of_iff:
  assumes "uniq_keys eq (mset es)"
  shows "assoc_of eq es k = Some p \<longleftrightarrow> (\<exists>e \<in> set es. eq (he_key e) k \<and> he_payload e = p)"
proof
  assume "assoc_of eq es k = Some p"
  then show "\<exists>e \<in> set es. eq (he_key e) k \<and> he_payload e = p"
    by (auto simp: assoc_of_def find_Some_iff)
next
  assume "\<exists>e \<in> set es. eq (he_key e) k \<and> he_payload e = p"
  then obtain e where e: "e \<in> set es" "eq (he_key e) k" "he_payload e = p" by blast
  then obtain e' where f: "find (\<lambda>e. eq (he_key e) k) es = Some e'"
    by (cases "find (\<lambda>e. eq (he_key e) k) es") (auto simp: find_None_iff)
  then have "e' \<in> set es" "eq (he_key e') k" by (auto simp: find_Some_iff)
  with e have "eq (he_key e) (he_key e')" by (blast intro: eq_sym eq_trans)
  with uniq_keysD [OF assms e(1)] \<open>e' \<in> set es\<close> have "e = e'" by blast
  with f e show "assoc_of eq es k = Some p" by (simp add: assoc_of_def)
qed

lemma assoc_of_eqI:
  assumes "uniq_keys eq (mset es)" "uniq_keys eq (mset fs)"
    and "\<And>e. eq (he_key e) k \<Longrightarrow> e \<in> set es \<longleftrightarrow> e \<in> set fs"
  shows "assoc_of eq es k = assoc_of eq fs k"
proof (rule option.expand)
  show "(assoc_of eq es k = None) = (assoc_of eq fs k = None)"
    unfolding assoc_of_None using assms(3) by blast
next
  assume "assoc_of eq es k \<noteq> None"
  then obtain p where p: "assoc_of eq es k = Some p" by blast
  then have "\<exists>e \<in> set es. eq (he_key e) k \<and> he_payload e = p" by (simp only: assoc_of_iff [OF assms(1)])
  with assms(3) have "\<exists>e \<in> set fs. eq (he_key e) k \<and> he_payload e = p" by blast
  then have "assoc_of eq fs k = Some p" by (simp only: assoc_of_iff [OF assms(2)])
  with p show "the (assoc_of eq es k) = the (assoc_of eq fs k)" by simp
qed

lemma assoc_of_mset:
  "uniq_keys eq (mset es) \<Longrightarrow> mset es = mset fs \<Longrightarrow> assoc_of eq es k = assoc_of eq fs k"
  by (intro assoc_of_eqI) (auto dest: mset_eq_setD)

lemma assoc_of_add:
  assumes "uniq_keys eq (mset fs)" "mset fs = add_mset e (mset es)"
  shows "assoc_of eq fs k = (if eq (he_key e) k then Some (he_payload e) else assoc_of eq es k)"
proof -
  have "mset fs = mset (e # es)" using assms(2) by simp
  from assoc_of_mset [OF assms(1) this] show ?thesis by (simp add: assoc_of_def)
qed

lemma assoc_of_remove:
  assumes "uniq_keys eq (mset es)" "mset es = add_mset e (mset fs)"
  shows "assoc_of eq fs k = (if eq (he_key e) k then None else assoc_of eq es k)"
proof -
  have u: "uniq_keys eq (mset fs)" and no: "\<forall>e' \<in> set fs. \<not> eq (he_key e) (he_key e')"
    using assms by (auto simp: uniq_keys_add_mset)
  show ?thesis
  proof (cases "eq (he_key e) k")
    case True
    have "\<not> eq (he_key e') k" if "e' \<in> set fs" for e'
      using no that True eq_trans [OF True eq_sym] by blast
    then show ?thesis using True by (auto simp: assoc_of_None)
  next
    case False
    with assoc_of_add [OF assms] show ?thesis by simp
  qed
qed

text \<open>Searching the bucket of a key is searching the whole table.\<close>

lemma bucket_assoc:
  assumes "placed (hk n) tb" "hk n k < length tb" "uniq_keys eq (mset (concat tb))"
  shows "assoc_of eq (tb ! hk n k) k = assoc_of eq (concat tb) k"
proof (rule assoc_of_eqI)
  have "mset (concat tb) = mset (concat (tb[hk n k := []])) + mset (tb ! hk n k)"
    using mset_concat_update [OF assms(2), of "[]"] by simp
  also have "\<dots> = mset (tb ! hk n k) + mset (concat (tb[hk n k := []]))" by (rule union_commute)
  finally show "uniq_keys eq (mset (tb ! hk n k))"
    using assms(3) by (simp only: uniq_keys_diff)
next
  fix e :: hash_entry assume "eq (he_key e) k"
  then have h: "hk n (he_key e) = hk n k" by (rule hk_cong)
  show "e \<in> set (tb ! hk n k) \<longleftrightarrow> e \<in> set (concat tb)"
  proof
    assume "e \<in> set (tb ! hk n k)"
    with assms(2) show "e \<in> set (concat tb)" by auto
  next
    assume "e \<in> set (concat tb)"
    then obtain xs where "xs \<in> set tb" and e: "e \<in> set xs" by auto
    then obtain i where "i < length tb" "tb ! i = xs" by (auto simp: in_set_conv_nth)
    with e assms(1) h show "e \<in> set (tb ! hk n k)" by (auto simp: placed_def)
  qed
qed (use assms in auto)

end


section \<open>The three built-in key types meet the contract\<close>

definition intptr_index :: "nat \<Rightarrow> hkey \<Rightarrow> nat" where
  "intptr_index n k = unat ((ucast (kptr k) :: u32) AND HASH_MASK n)"

definition string_index :: "bool \<Rightarrow> nat \<Rightarrow> hkey \<Rightarrow> nat" where
  "string_index nocase n k =
     unat (hash_chars nocase (align_forward_8 n) 0 (kstr k) 0 AND HASH_MASK n)"

lemma stri_eq_chars_iff: "stri_eq_chars s1 s2 \<longleftrightarrow> map tolower s1 = map tolower s2"
  by (induction s1 s2 rule: stri_eq_chars.induct) (auto simp: tolower_def Let_def)

lemma hash_chars_nocase: "hash_chars True m i s h = hash_chars False m i (map tolower s) h"
  by (induction s arbitrary: i h) (simp_all add: Let_def)

interpretation intptr_keys: hash_keys intptr_index "\<lambda>a b. kptr a = kptr b" "\<lambda>_. True"
  by unfold_locales (auto simp: intptr_index_def)

interpretation string_keys: hash_keys "string_index False" "\<lambda>a b. kstr a = kstr b" "\<lambda>_. True"
  by unfold_locales (auto simp: string_index_def)

interpretation nocase_keys: hash_keys "string_index True" stri_eq "\<lambda>k. kptr k \<noteq> 0"
  by unfold_locales
    (auto simp: stri_eq_def stri_eq_chars_iff string_index_def hash_chars_nocase split: if_splits)

definition ht_std :: "hashtable \<Rightarrow> bool" where
  "ht_std t \<longleftrightarrow> ht_hash_key_func t = None \<and> ht_cmp_key_func t = None \<and> ht_hashtype t \<noteq> HASH_CUSTOM"

definition key_valid :: "hashtable \<Rightarrow> hkey \<Rightarrow> bool" where
  "key_valid t k \<longleftrightarrow> (ht_hashtype t = HASH_STRING_NOCASE \<longrightarrow> kptr k \<noteq> 0)"

abbreviation table_index :: "hashtable \<Rightarrow> nat \<Rightarrow> hkey \<Rightarrow> nat" where
  "table_index t n k \<equiv> unat (hash_key (t\<lparr>ht_table_bits := n\<rparr>) k)"

lemma hash_key_std:
  "ht_std t \<Longrightarrow> ht_hashtype t = HASH_INTPTR \<Longrightarrow> table_index t = intptr_index"
  "ht_std t \<Longrightarrow> ht_hashtype t = HASH_STRING \<Longrightarrow> table_index t = string_index False"
  "ht_std t \<Longrightarrow> ht_hashtype t = HASH_STRING_NOCASE \<Longrightarrow> table_index t = string_index True"
  by (auto simp: fun_eq_iff ht_std_def hash_key_def intptr_index_def string_index_def)

lemma keys_equal_std:
  "ht_std t \<Longrightarrow> ht_hashtype t = HASH_INTPTR \<Longrightarrow> keys_equal t = (\<lambda>a b. kptr a = kptr b)"
  "ht_std t \<Longrightarrow> ht_hashtype t = HASH_STRING \<Longrightarrow> keys_equal t = (\<lambda>a b. kstr a = kstr b)"
  "ht_std t \<Longrightarrow> ht_hashtype t = HASH_STRING_NOCASE \<Longrightarrow> keys_equal t = stri_eq"
  by (auto simp: fun_eq_iff ht_std_def keys_equal_def)

lemma std_hash_keys:
  assumes "ht_std t"
  shows "hash_keys (table_index t) (keys_equal t) (key_valid t)"
proof (cases "ht_hashtype t")
  case HASH_INTPTR
  then have "key_valid t = (\<lambda>_. True)" by (simp add: fun_eq_iff key_valid_def)
  with hash_key_std(1) keys_equal_std(1) assms HASH_INTPTR intptr_keys.hash_keys_axioms
  show ?thesis by simp
next
  case HASH_STRING
  then have "key_valid t = (\<lambda>_. True)" by (simp add: fun_eq_iff key_valid_def)
  with hash_key_std(2) keys_equal_std(2) assms HASH_STRING string_keys.hash_keys_axioms
  show ?thesis by simp
next
  case HASH_STRING_NOCASE
  then have "key_valid t = (\<lambda>k. kptr k \<noteq> 0)" by (simp add: fun_eq_iff key_valid_def)
  with hash_key_std(3) keys_equal_std(3) assms HASH_STRING_NOCASE nocase_keys.hash_keys_axioms
  show ?thesis by simp
next
  case HASH_CUSTOM
  with assms show ?thesis by (simp add: ht_std_def)
qed

section \<open>Well-formed tables\<close>

definition ht_map :: "hashtable \<Rightarrow> hkey \<Rightarrow> ptr option" where
  "ht_map t = assoc_of (keys_equal t) (concat (ht_table t))"

definition ht_shape :: "hashtable \<Rightarrow> bool" where
  "ht_shape t \<longleftrightarrow>
     1 \<le> ht_table_bits t \<and> ht_table_bits t \<le> 31 \<and> length (ht_table t) = 2 ^ ht_table_bits t \<and>
     placed (\<lambda>k. unat (hash_key t k)) (ht_table t) \<and>
     uniq_keys (keys_equal t) (mset (concat (ht_table t))) \<and>
     unat (ht_entries t) = length (concat (ht_table t)) \<and>
     (\<forall>e \<in> set (concat (ht_table t)). he_payload e \<noteq> 0 \<and> key_valid t (he_key e))"

definition ht_ok :: "hashtable \<Rightarrow> bool" where
  "ht_ok t \<longleftrightarrow> \<not> ht_lock t \<and> ht_std t \<and> 2 \<le> unat (cfg_resize_threshold (ht_config t)) \<and> ht_shape t"

lemma HASH_MASK_mask: "n \<le> 32 \<Longrightarrow> HASH_MASK n = mask n"
  by (rule bit_word_eqI) (auto simp: HASH_MASK_def bit_simps)

lemma hash_key_bound: "ht_table_bits t \<le> 31 \<Longrightarrow> unat (hash_key t k) < 2 ^ ht_table_bits t"
  by (simp add: hash_key_def HASH_MASK_mask Let_def unsigned_take_bit_eq flip: take_bit_eq_mask)

lemma table_index_self: "table_index t (ht_table_bits t) k = unat (hash_key t k)"
  by simp

lemma key_fields_cong:
  assumes "ht_hashtype t = ht_hashtype u" "ht_hash_key_func t = ht_hash_key_func u"
    "ht_cmp_key_func t = ht_cmp_key_func u"
  shows "ht_table_bits t = ht_table_bits u \<Longrightarrow> hash_key t = hash_key u"
    "keys_equal t = keys_equal u" "key_valid t = key_valid u" "ht_std t = ht_std u"
  using assms by (auto simp: fun_eq_iff hash_key_def keys_equal_def key_valid_def ht_std_def
      split: option.splits)

lemma key_fields_update [simp]:
  "hash_key (t\<lparr>ht_lock := b\<rparr>) = hash_key t" "keys_equal (t\<lparr>ht_lock := b\<rparr>) = keys_equal t"
  "key_valid (t\<lparr>ht_lock := b\<rparr>) = key_valid t" "ht_std (t\<lparr>ht_lock := b\<rparr>) = ht_std t"
  "hash_key (t\<lparr>ht_table := tb\<rparr>) = hash_key t" "keys_equal (t\<lparr>ht_table := tb\<rparr>) = keys_equal t"
  "key_valid (t\<lparr>ht_table := tb\<rparr>) = key_valid t" "ht_std (t\<lparr>ht_table := tb\<rparr>) = ht_std t"
  "hash_key (t\<lparr>ht_entries := n\<rparr>) = hash_key t" "keys_equal (t\<lparr>ht_entries := n\<rparr>) = keys_equal t"
  "key_valid (t\<lparr>ht_entries := n\<rparr>) = key_valid t" "ht_std (t\<lparr>ht_entries := n\<rparr>) = ht_std t"
  "hash_key (t\<lparr>ht_freed := f\<rparr>) = hash_key t" "keys_equal (t\<lparr>ht_freed := f\<rparr>) = keys_equal t"
  "key_valid (t\<lparr>ht_freed := f\<rparr>) = key_valid t" "ht_std (t\<lparr>ht_freed := f\<rparr>) = ht_std t"
  "keys_equal (t\<lparr>ht_table_bits := m\<rparr>) = keys_equal t" "key_valid (t\<lparr>ht_table_bits := m\<rparr>) = key_valid t"
  "ht_std (t\<lparr>ht_table_bits := m\<rparr>) = ht_std t"
  by (rule key_fields_cong; simp)+

lemma ht_shape_update [simp]:
  "ht_shape (t\<lparr>ht_lock := b\<rparr>) = ht_shape t" "ht_shape (t\<lparr>ht_freed := f\<rparr>) = ht_shape t"
  by (simp_all add: ht_shape_def)

lemma ht_map_update [simp]:
  "ht_map (t\<lparr>ht_lock := b\<rparr>) = ht_map t" "ht_map (t\<lparr>ht_freed := f\<rparr>) = ht_map t"
  "ht_map (t\<lparr>ht_entries := n\<rparr>) = ht_map t"
  by (simp_all add: ht_map_def)

lemma ht_lock_if_synch_ok:
  "\<not> ht_lock t \<Longrightarrow> ht_lock_if_synch t = Inr (t\<lparr>ht_lock := ht_synch t\<rparr>)"
  by (auto simp: ht_lock_defs)

lemma ht_unlock_if_synch_ok:
  "ht_lock w = ht_synch w \<Longrightarrow> ht_unlock_if_synch w = w\<lparr>ht_lock := False\<rparr>"
  by (auto simp: ht_lock_defs)

lemma ht_bucket_ok:
  "ht_shape t \<Longrightarrow> unat (hash_key t k) < length (ht_table t) \<and>
     ht_bucket t (unat (hash_key t k)) = Inr (ht_table t ! unat (hash_key t k))"
  by (simp add: ht_shape_def ht_bucket_def hash_key_bound)

text \<open>Searching the chain of a key finds what the abstract map holds.\<close>

lemma chain_assoc:
  assumes "ht_std t" "ht_shape t"
  shows "assoc_of (keys_equal t) (ht_table t ! unat (hash_key t k)) k = ht_map t k"
proof -
  note hash_keys.bucket_assoc [OF std_hash_keys [OF assms(1)],
      of "ht_table_bits t" "ht_table t" k]
  with assms(2) ht_bucket_ok [OF assms(2)] show ?thesis
    by (simp add: ht_map_def ht_shape_def)
qed

lemma chain_lookup_assoc:
  "chain_lookup t k es = (case assoc_of (keys_equal t) es k of None \<Rightarrow> 0 | Some p \<Rightarrow> p)"
  by (induction es) (auto simp: assoc_of_def)


section \<open>Steps on well-formed tables\<close>

lemma length_concat_mset: "mset xs = mset ys \<Longrightarrow> length xs = length ys"
  by (metis size_mset)

text \<open>A table is well-formed when its entries are, up to their order and their buckets.\<close>

lemma ht_shapeI:
  assumes t: "ht_shape t"
    and bits: "1 \<le> ht_table_bits u" "ht_table_bits u \<le> 31" "length (ht_table u) = 2 ^ ht_table_bits u"
    and fields: "ht_hashtype u = ht_hashtype t" "ht_hash_key_func u = ht_hash_key_func t"
      "ht_cmp_key_func u = ht_cmp_key_func t"
    and placed: "placed (\<lambda>k. unat (hash_key u k)) (ht_table u)"
    and uniq: "uniq_keys (keys_equal t) (mset (concat (ht_table u)))"
    and entries: "unat (ht_entries u) = length (concat (ht_table u))"
    and elems: "\<forall>e \<in> set (concat (ht_table u)). he_payload e \<noteq> 0 \<and> key_valid t (he_key e)"
  shows "ht_shape u"
  using assms key_fields_cong(2,3) [OF fields] by (simp add: ht_shape_def)

lemma ht_map_None_uniq:
  assumes "ht_std t" "ht_shape t" "ht_map t (he_key e) = None"
  shows "uniq_keys (keys_equal t) (add_mset e (mset (concat (ht_table t))))"
proof -
  have "\<not> keys_equal t (he_key e') (he_key e)" if "e' \<in> set (concat (ht_table t))" for e'
    using assms(3) that unfolding ht_map_def assoc_of_None by blast
  with assms(2) hash_keys.eq_sym [OF std_hash_keys [OF assms(1)]] show ?thesis
    unfolding uniq_keys_add_mset ht_shape_def set_mset_mset by blast
qed

lemma ht_insert_head_ok:
  assumes std: "ht_std t" and sh: "ht_shape t"
    and new: "ht_map t (he_key e) = None"
    and e: "he_payload e \<noteq> 0" "key_valid t (he_key e)"
    and cnt: "unat (ht_entries t) < 2 ^ 32 - 1"
  shows "ht_shape (ht_insert_head t (unat (hash_key t (he_key e))) e) \<and>
         mset (concat (ht_table (ht_insert_head t (unat (hash_key t (he_key e))) e))) =
           add_mset e (mset (concat (ht_table t)))"
proof -
  let ?h = "unat (hash_key t (he_key e))"
  let ?u = "ht_insert_head t ?h e"
  have h: "?h < length (ht_table t)" using ht_bucket_ok [OF sh] by blast
  have m: "mset (concat (ht_table ?u)) = add_mset e (mset (concat (ht_table t)))"
    by (simp add: ht_insert_head_def mset_concat_update_Cons [OF h])
  have "placed (\<lambda>k. unat (hash_key t k)) (ht_table t)" using sh by (simp add: ht_shape_def)
  moreover have "\<forall>e' \<in> set (e # ht_table t ! ?h). unat (hash_key t (he_key e')) = ?h"
    using sh h by (auto simp: ht_shape_def placed_def)
  ultimately have p: "placed (\<lambda>k. unat (hash_key t k)) (ht_table ?u)"
    unfolding ht_insert_head_def by (simp add: placed_update)
  have l: "length (concat (ht_table ?u)) = Suc (length (concat (ht_table t)))"
    using length_concat_mset [of "concat (ht_table ?u)" "e # concat (ht_table t)"] m by simp
  have s: "set (concat (ht_table ?u)) = insert e (set (concat (ht_table t)))"
    using arg_cong [OF m, of set_mset] by simp
  have "ht_shape ?u"
  proof (rule ht_shapeI [OF sh])
    show "uniq_keys (keys_equal t) (mset (concat (ht_table ?u)))"
      unfolding m by (rule ht_map_None_uniq [OF std sh new])
    show "unat (ht_entries ?u) = length (concat (ht_table ?u))"
      using l unat_Suc_u32 [OF cnt] sh by (simp add: ht_insert_head_def ht_shape_def)
    show "placed (\<lambda>k. unat (hash_key ?u k)) (ht_table ?u)"
      using p by (simp add: ht_insert_head_def)
    show "\<forall>e \<in> set (concat (ht_table ?u)). he_payload e \<noteq> 0 \<and> key_valid t (he_key e)"
      unfolding s using sh e by (auto simp: ht_shape_def)
  qed (use sh in \<open>simp_all add: ht_insert_head_def ht_shape_def\<close>)
  with m show ?thesis by simp
qed

text \<open>The rehash loop keeps every entry and places it by the new number of bits.\<close>

lemma rehash_entry_ok:
  assumes "ht_table_bits t \<le> 31" "length tb = 2 ^ ht_table_bits t"
    and "placed (\<lambda>k. unat (hash_key t k)) tb"
  shows "length (rehash_entry t e tb) = length tb"
    "placed (\<lambda>k. unat (hash_key t k)) (rehash_entry t e tb)"
    "mset (concat (rehash_entry t e tb)) = add_mset e (mset (concat tb))"
proof -
  let ?h = "unat (hash_key t (he_key e))"
  have h: "?h < length tb" using hash_key_bound [OF assms(1)] assms(2) by simp
  show "length (rehash_entry t e tb) = length tb" by (simp add: rehash_entry_def Let_def)
  show "mset (concat (rehash_entry t e tb)) = add_mset e (mset (concat tb))"
    by (simp add: rehash_entry_def Let_def mset_concat_update_Cons [OF h])
  have "\<forall>e' \<in> set (e # tb ! ?h). unat (hash_key t (he_key e')) = ?h"
    using assms(3) h by (auto simp: placed_def)
  then show "placed (\<lambda>k. unat (hash_key t k)) (rehash_entry t e tb)"
    unfolding rehash_entry_def Let_def by (rule placed_update [OF assms(3)])
qed

lemma rehash_ok:
  assumes "ht_table_bits t \<le> 31" "length tb = 2 ^ ht_table_bits t"
    and "placed (\<lambda>k. unat (hash_key t k)) tb"
  shows "length (fold (rehash_entry t) es tb) = length tb \<and>
         placed (\<lambda>k. unat (hash_key t k)) (fold (rehash_entry t) es tb) \<and>
         mset (concat (fold (rehash_entry t) es tb)) = mset es + mset (concat tb)"
  using assms
proof (induction es arbitrary: tb)
  case (Cons e es)
  note r = rehash_entry_ok [OF Cons.prems, of e]
  from Cons.IH [OF Cons.prems(1) _ r(2)] r Cons.prems(2) show ?case by simp
qed simp

lemma hashtable_check_for_resize_ok:
  assumes sh: "ht_shape t" and thr: "2 \<le> unat (cfg_resize_threshold (ht_config t))"
  shows "\<exists>b tb n. hashtable_check_for_resize t = Inr (b, t\<lparr>ht_table_bits := n, ht_table := tb\<rparr>) \<and>
           ht_shape (t\<lparr>ht_table_bits := n, ht_table := tb\<rparr>) \<and>
           mset (concat tb) = mset (concat (ht_table t))"
proof (cases "cfg_resizable (ht_config t) \<and>
    unat (ht_entries t * 100) > unat (cfg_resize_threshold (ht_config t)) * HASHTABLE_SIZE (ht_table_bits t)")
  case True
  let ?n = "Suc (ht_table_bits t)" and ?es = "concat (ht_table t)"
  let ?t = "t\<lparr>ht_table_bits := ?n\<rparr>"
  let ?tb = "fold (rehash_entry ?t) ?es (replicate (HASHTABLE_SIZE ?n) [])"
  have "2 * HASHTABLE_SIZE (ht_table_bits t)
          \<le> unat (cfg_resize_threshold (ht_config t)) * HASHTABLE_SIZE (ht_table_bits t)"
    using thr by (rule mult_right_mono) simp
  also have "\<dots> < unat (ht_entries t * 100)" using True by blast
  also have "\<dots> < 2 ^ 32" by (rule unat_le_u32)
  finally have "(2::nat) ^ ?n < 2 ^ 32" by (simp add: HASHTABLE_SIZE_def)
  then have n: "?n < 32" by (rule power_less_imp_less_exp [rotated]) simp
  have bits: "ht_table_bits ?t \<le> 31" using n by simp
  have len: "length (replicate (HASHTABLE_SIZE ?n) []) = 2 ^ ht_table_bits ?t"
    by (simp add: HASHTABLE_SIZE_def)
  have "placed (\<lambda>k. unat (hash_key ?t k)) (replicate (HASHTABLE_SIZE ?n) [])"
    by (simp add: placed_def)
  note r = rehash_ok [OF bits len this, of ?es]
  have m: "mset (concat ?tb) = mset ?es" using r by simp
  have "ht_shape (?t\<lparr>ht_table := ?tb\<rparr>)"
  proof (rule ht_shapeI [OF sh])
    show "uniq_keys (keys_equal t) (mset (concat (ht_table (?t\<lparr>ht_table := ?tb\<rparr>))))"
      using sh m by (simp add: ht_shape_def)
    show "unat (ht_entries (?t\<lparr>ht_table := ?tb\<rparr>)) = length (concat (ht_table (?t\<lparr>ht_table := ?tb\<rparr>)))"
      using sh length_concat_mset [OF m] by (simp add: ht_shape_def)
    show "\<forall>e \<in> set (concat (ht_table (?t\<lparr>ht_table := ?tb\<rparr>))). he_payload e \<noteq> 0 \<and> key_valid t (he_key e)"
      using sh mset_eq_setD [OF m] unfolding ht_shape_def by simp
    show "placed (\<lambda>k. unat (hash_key (?t\<lparr>ht_table := ?tb\<rparr>) k)) (ht_table (?t\<lparr>ht_table := ?tb\<rparr>))"
      using r by simp
  qed (use r n in \<open>simp_all add: HASHTABLE_SIZE_def\<close>)
  moreover have "hashtable_check_for_resize t = Inr (True, ?t\<lparr>ht_table := ?tb\<rparr>)"
    unfolding hashtable_check_for_resize_def Let_def using True n by simp
  ultimately show ?thesis using m by blast
next
  case False
  then have "hashtable_check_for_resize t =
      Inr (False, t\<lparr>ht_table_bits := ht_table_bits t, ht_table := ht_table t\<rparr>)"
    unfolding hashtable_check_for_resize_def Let_def by simp
  moreover have "ht_shape (t\<lparr>ht_table_bits := ht_table_bits t, ht_table := ht_table t\<rparr>)"
    using sh by simp
  ultimately show ?thesis by blast
qed

text \<open>The lookup, add, replace and remove steps against the abstract map.\<close>

lemma keys_equal_new_entry:
  assumes "ht_std t" "key_valid t k" "ht_str_dup t \<longrightarrow> dup \<noteq> 0 \<and> ht_hashtype t \<noteq> HASH_INTPTR"
  shows "keys_equal t (he_key (new_entry t k p dup)) k' = keys_equal t k k'"
    "hash_key t (he_key (new_entry t k p dup)) = hash_key t k"
    "key_valid t (he_key (new_entry t k p dup))" "he_payload (new_entry t k p dup) = p"
    "keys_equal t k' (he_key (new_entry t k p dup)) = keys_equal t k' k"
  using assms
  by (cases "ht_hashtype t";
      auto simp: new_entry_def keys_equal_def hash_key_def key_valid_def ht_std_def stri_eq_def Let_def)+

lemma ht_map_eq_cong:
  assumes "ht_std t" "keys_equal t a b"
  shows "ht_map t a = ht_map t b"
proof -
  note hk = std_hash_keys [OF assms(1)]
  have "(\<lambda>e. keys_equal t (he_key e) a) = (\<lambda>e. keys_equal t (he_key e) b)"
    using assms(2) hash_keys.eq_sym [OF hk] hash_keys.eq_trans [OF hk] by blast
  then show ?thesis unfolding ht_map_def assoc_of_def by (rule arg_cong)
qed

lemma chain_none:
  assumes "ht_std t" "ht_shape t"
  shows "(\<exists>e \<in> set (ht_table t ! unat (hash_key t k)). keys_equal t (he_key e) k) \<longleftrightarrow> ht_map t k \<noteq> None"
  using assoc_of_None [of "keys_equal t" "ht_table t ! unat (hash_key t k)" k] chain_assoc [OF assms, of k]
  by auto

text \<open>Two tables with the same key type, callbacks and ownership of the string keys.\<close>

definition ht_same :: "hashtable \<Rightarrow> hashtable \<Rightarrow> bool" where
  "ht_same t u \<longleftrightarrow> ht_hashtype u = ht_hashtype t \<and> ht_hash_key_func u = ht_hash_key_func t \<and>
     ht_cmp_key_func u = ht_cmp_key_func t \<and> ht_str_dup u = ht_str_dup t \<and>
     ht_free_payload_func u = ht_free_payload_func t"

lemma ht_same_keys: "ht_same t u \<Longrightarrow> keys_equal u = keys_equal t"
  unfolding ht_same_def by (rule key_fields_cong(2)) simp_all

text \<open>The common tail of \<open>hashtable_add\<close> and \<open>hashtable_add_replace\<close>: a new key.\<close>

lemma ht_insert_resize_ok:
  assumes ok: "ht_ok t" and k: "key_valid t k" and p: "p \<noteq> 0"
    and dup: "ht_str_dup t \<longrightarrow> dup \<noteq> 0 \<and> ht_hashtype t \<noteq> HASH_INTPTR"
    and cnt: "unat (ht_entries t) < 2 ^ 32 - 1" and None: "ht_map t k = None"
  shows "\<exists>b v u. hashtable_check_for_resize
             (ht_insert_head (t\<lparr>ht_lock := ht_synch t\<rparr>) (unat (hash_key t k)) (new_entry t k p dup)) = Inr (b, v) \<and>
           ht_unlock_if_synch v = u \<and> ht_ok u \<and> ht_same t u \<and> ht_freed u = ht_freed t \<and>
           mset (concat (ht_table u)) = add_mset (new_entry t k p dup) (mset (concat (ht_table t))) \<and>
           unat (ht_entries u) = Suc (unat (ht_entries t)) \<and>
           ht_map u = (\<lambda>k'. if keys_equal t k k' then Some p else ht_map t k')"
proof -
  let ?t = "t\<lparr>ht_lock := ht_synch t\<rparr>" and ?e = "new_entry t k p dup"
  have std: "ht_std t" and sh: "ht_shape t" and thr: "2 \<le> unat (cfg_resize_threshold (ht_config t))"
    using ok by (auto simp: ht_ok_def)
  note ne = keys_equal_new_entry [OF std k dup]
  let ?i = "ht_insert_head ?t (unat (hash_key t k)) ?e"
  have new: "ht_map ?t (he_key ?e) = None"
    using None ne(5) by (simp add: ht_map_def assoc_of_None)
  have "ht_shape ?i \<and> mset (concat (ht_table ?i)) = add_mset ?e (mset (concat (ht_table t)))"
    using ht_insert_head_ok [of ?t ?e] std sh new ne p cnt by simp
  then have shi: "ht_shape ?i"
    and mi: "mset (concat (ht_table ?i)) = add_mset ?e (mset (concat (ht_table t)))" by simp_all
  have "2 \<le> unat (cfg_resize_threshold (ht_config ?i))" using thr by (simp add: ht_insert_head_def)
  from hashtable_check_for_resize_ok [OF shi this] obtain b tb n where
    r: "hashtable_check_for_resize ?i = Inr (b, ?i\<lparr>ht_table_bits := n, ht_table := tb\<rparr>)"
    "ht_shape (?i\<lparr>ht_table_bits := n, ht_table := tb\<rparr>)"
    "mset (concat tb) = mset (concat (ht_table ?i))" by blast
  let ?u = "?i\<lparr>ht_table_bits := n, ht_table := tb, ht_lock := False\<rparr>"
  have unl: "ht_unlock_if_synch (?i\<lparr>ht_table_bits := n, ht_table := tb\<rparr>) = ?u"
    by (subst ht_unlock_if_synch_ok) (simp_all add: ht_insert_head_def)
  have "ht_shape ?u" using r(2) by (simp only: ht_shape_update)
  then have oku: "ht_ok ?u" using std thr unfolding ht_ok_def by (simp add: ht_insert_head_def)
  have same: "ht_same t ?u" by (simp add: ht_insert_head_def ht_same_def)
  note ke = ht_same_keys [OF same]
  have mu: "mset (concat (ht_table ?u)) = add_mset ?e (mset (concat (ht_table t)))"
    using r(3) mi by simp
  have "uniq_keys (keys_equal t) (mset (concat (ht_table ?u)))"
    using oku ke by (simp add: ht_ok_def ht_shape_def)
  from hash_keys.assoc_of_add [OF std_hash_keys [OF std] this mu]
  have "ht_map ?u = (\<lambda>k'. if keys_equal t k k' then Some p else ht_map t k')"
    unfolding ht_map_def ke fun_eq_iff ne by simp
  moreover have "unat (ht_entries ?u) = Suc (unat (ht_entries t))"
    using unat_Suc_u32 [OF cnt] by (simp add: ht_insert_head_def)
  moreover have "ht_freed ?u = ht_freed t" by (simp add: ht_insert_head_def)
  ultimately show ?thesis using r(1) unl oku same mu by blast
qed

lemma ht_relock: "\<not> ht_lock t \<Longrightarrow> ht_unlock_if_synch (t\<lparr>ht_lock := ht_synch t\<rparr>) = t"
  by (cases t) (simp add: ht_lock_defs)

lemma hashtable_add_ok:
  assumes ok: "ht_ok t" and k: "key_valid t k" and p: "p \<noteq> 0"
    and dup: "ht_str_dup t \<longrightarrow> dup \<noteq> 0 \<and> ht_hashtype t \<noteq> HASH_INTPTR"
    and cnt: "unat (ht_entries t) < 2 ^ 32 - 1"
  shows "\<exists>u. hashtable_add t k p dup = Inr (ht_map t k = None, u) \<and> ht_ok u \<and>
           ht_same t u \<and> ht_freed u = ht_freed t \<and>
           ht_map u = (if ht_map t k = None then (\<lambda>k'. if keys_equal t k k' then Some p else ht_map t k')
                       else ht_map t) \<and>
           unat (ht_entries u) = unat (ht_entries t) + (if ht_map t k = None then 1 else 0)"
proof (cases "ht_map t k")
  have std: "ht_std t" and sh: "ht_shape t" and lk: "\<not> ht_lock t" using ok by (auto simp: ht_ok_def)
  let ?t = "t\<lparr>ht_lock := ht_synch t\<rparr>"
  {
    case (Some q)
    then have "\<exists>e \<in> set (ht_table t ! unat (hash_key t k)). keys_equal t (he_key e) k"
      using chain_none [OF std sh, of k] by simp
    then have "hashtable_add t k p dup = Inr (False, t)"
      using ht_bucket_ok [of ?t k] sh
      by (simp add: hashtable_add_def ht_lock_if_synch_ok [OF lk] Let_def ht_relock [OF lk])
    then show ?thesis using Some ok by (simp add: ht_same_def)
  next
    case None
    have e_eq: "new_entry ?t k p dup = new_entry t k p dup" by (simp add: new_entry_def)
    from ht_insert_resize_ok [OF ok k p dup cnt None] obtain b v u where
      r: "hashtable_check_for_resize
            (ht_insert_head ?t (unat (hash_key t k)) (new_entry t k p dup)) = Inr (b, v)"
        "ht_unlock_if_synch v = u"
      and u: "ht_ok u" "ht_same t u" "ht_freed u = ht_freed t"
        "unat (ht_entries u) = Suc (unat (ht_entries t))"
        "ht_map u = (\<lambda>k'. if keys_equal t k k' then Some p else ht_map t k')" by blast
    have "\<not> (\<exists>e \<in> set (ht_table t ! unat (hash_key t k)). keys_equal t (he_key e) k)"
      using None chain_none [OF std sh, of k] by simp
    then have "hashtable_add t k p dup = Inr (True, u)"
      using ht_bucket_ok [of ?t k] sh r
      by (simp add: hashtable_add_def ht_lock_if_synch_ok [OF lk] Let_def e_eq)
    with None u show ?thesis by simp
  }
qed

lemma free_payloads_entries [simp]: "ht_entries (free_payloads t es) = ht_entries t"
  by (simp add: free_payloads_def)

lemma ht_shape_sub:
  assumes sh: "ht_shape t" and len: "length tb = length (ht_table t)"
    and pl: "placed (\<lambda>k. unat (hash_key t k)) tb"
    and m: "mset (concat (ht_table t)) = mset (concat tb) + M"
    and n: "n = ht_entries t - of_nat (size M)"
  shows "ht_shape (t\<lparr>ht_table := tb, ht_entries := n\<rparr>)"
proof (rule ht_shapeI [OF sh])
  have "length (concat (ht_table t)) = length (concat tb) + size M"
    using arg_cong [OF m, of size] by simp
  moreover have "unat (ht_entries t) = length (concat (ht_table t))" using sh by (simp add: ht_shape_def)
  ultimately have "unat n = length (concat tb)"
    unfolding n using unat_minus_of_nat_u32 [of "size M" "ht_entries t"] by simp
  then show "unat (ht_entries (t\<lparr>ht_table := tb, ht_entries := n\<rparr>)) =
      length (concat (ht_table (t\<lparr>ht_table := tb, ht_entries := n\<rparr>)))" by simp
  show "uniq_keys (keys_equal t) (mset (concat (ht_table (t\<lparr>ht_table := tb, ht_entries := n\<rparr>))))"
    using sh uniq_keys_diff [of "keys_equal t" "mset (concat tb)" M] by (simp add: ht_shape_def m)
  have "set (concat tb) \<subseteq> set (concat (ht_table t))"
    using arg_cong [OF m, of set_mset] by simp
  moreover have "ht_table (t\<lparr>ht_table := tb, ht_entries := n\<rparr>) = tb" by simp
  ultimately show "\<forall>e \<in> set (concat (ht_table (t\<lparr>ht_table := tb, ht_entries := n\<rparr>))).
      he_payload e \<noteq> 0 \<and> key_valid t (he_key e)"
    using sh unfolding ht_shape_def by fastforce
qed (use sh len pl in \<open>simp_all add: ht_shape_def\<close>)

lemma chain_remove_spec:
  "case chain_remove t k es of
     (None, es') \<Rightarrow> \<forall>e \<in> set es. \<not> keys_equal t (he_key e) k
   | (Some e, es') \<Rightarrow> mset es = add_mset e (mset es') \<and> keys_equal t (he_key e) k \<and> set es' \<subseteq> set es"
  by (induction es) (auto split: option.splits prod.splits)

lemma chain_replace_none:
  "\<forall>e \<in> set es. \<not> keys_equal t (he_key e) k \<Longrightarrow> chain_replace t k n es = (0, es)"
  by (induction es) auto

lemma chain_replace_some:
  "\<exists>e \<in> set es. keys_equal t (he_key e) k \<Longrightarrow>
     \<exists>a e b. es = a @ e # b \<and> keys_equal t (he_key e) k \<and> chain_replace t k n es = (he_payload e, a @ n # b)"
proof (induction es)
  case (Cons x es)
  show ?case
  proof (cases "keys_equal t (he_key x) k")
    case True
    then show ?thesis by (intro exI [of _ "[]"]) simp
  next
    case False
    with Cons obtain a e b where "es = a @ e # b" "keys_equal t (he_key e) k"
      "chain_replace t k n es = (he_payload e, a @ n # b)" by auto
    with False show ?thesis by (intro exI [of _ "x # a"]) simp
  qed
qed simp

lemma hashtable_remove_ok:
  assumes ok: "ht_ok t"
  shows "\<exists>u. hashtable_remove t k = Inr (ht_map t k \<noteq> None, u) \<and> ht_ok u \<and> ht_same t u \<and>
           ht_map u = (\<lambda>k'. if keys_equal t k k' then None else ht_map t k') \<and>
           ht_freed u = ht_freed t @
             (if ht_free_payload_func t then (case ht_map t k of None \<Rightarrow> [] | Some p \<Rightarrow> [p]) else []) \<and>
           unat (ht_entries u) = unat (ht_entries t) - (if ht_map t k = None then 0 else 1)"
proof -
  let ?t = "t\<lparr>ht_lock := ht_synch t\<rparr>" and ?h = "unat (hash_key t k)"
  have std: "ht_std t" and sh: "ht_shape t" and lk: "\<not> ht_lock t" using ok by (auto simp: ht_ok_def)
  note hk = std_hash_keys [OF std]
  have h: "?h < length (ht_table t)" using ht_bucket_ok [OF sh] by blast
  obtain r es' where cr: "chain_remove t k (ht_table t ! ?h) = (r, es')" by fastforce
  have cr': "chain_remove ?t k es = chain_remove t k es" for es
    by (induction es) simp_all
  show ?thesis
  proof (cases r)
    case None
    then have "\<forall>e \<in> set (ht_table t ! ?h). \<not> keys_equal t (he_key e) k"
      using chain_remove_spec [where t = t and k = k and es = "ht_table t ! ?h"] cr by simp
    then have m: "ht_map t k = None" using chain_none [OF std sh, of k] by blast
    have "hashtable_remove t k = Inr (False, t)"
      using ht_bucket_ok [of ?t k] sh cr None
      by (simp add: hashtable_remove_def ht_lock_if_synch_ok [OF lk] Let_def ht_relock [OF lk] cr')
    moreover have "ht_map t = (\<lambda>k'. if keys_equal t k k' then None else ht_map t k')"
      using ht_map_eq_cong [OF std] m by (auto simp: fun_eq_iff)
    ultimately show ?thesis using ok m by (simp add: ht_same_def)
  next
    case (Some e)
    then have me: "mset (ht_table t ! ?h) = add_mset e (mset es')" and ke: "keys_equal t (he_key e) k"
      and se: "set es' \<subseteq> set (ht_table t ! ?h)"
      using chain_remove_spec [where t = t and k = k and es = "ht_table t ! ?h"] cr by simp_all
    let ?tb = "(ht_table t)[?h := es']"
    have mt: "mset (concat (ht_table t)) = mset (concat ?tb) + {#e#}"
      using mset_concat_update [OF h, of es'] by (simp add: me)
    have pl: "placed (\<lambda>k. unat (hash_key t k)) ?tb"
      using sh se h by (intro placed_update) (auto simp: ht_shape_def placed_def)
    have su: "ht_shape (t\<lparr>ht_table := ?tb, ht_entries := ht_entries t - 1\<rparr>)"
      by (rule ht_shape_sub [OF sh _ pl mt]) simp_all
    let ?u = "(t\<lparr>ht_table := ?tb, ht_entries := ht_entries t - 1\<rparr>)
      \<lparr>ht_freed := ht_freed t @ (if ht_free_payload_func t then [he_payload e] else [])\<rparr>"
    have "hashtable_remove t k = Inr (True, ht_unlock_if_synch
        ((free_payloads (?t\<lparr>ht_table := ?tb\<rparr>) [e])\<lparr>ht_entries := ht_entries t - 1\<rparr>))"
      using ht_bucket_ok [of ?t k] sh cr Some
      by (simp add: hashtable_remove_def ht_lock_if_synch_ok [OF lk] Let_def cr')
    moreover have "ht_unlock_if_synch
        ((free_payloads (?t\<lparr>ht_table := ?tb\<rparr>) [e])\<lparr>ht_entries := ht_entries t - 1\<rparr>) = ?u"
      using lk by (auto simp: free_payloads_def ht_lock_defs)
    ultimately have rm: "hashtable_remove t k = Inr (True, ?u)" by simp
    have oku: "ht_ok ?u" using su ok unfolding ht_ok_def by simp
    have u: "uniq_keys (keys_equal t) (mset (concat (ht_table t)))" using sh by (simp add: ht_shape_def)
    have "e \<in> set (concat (ht_table t))" using arg_cong [OF mt, of set_mset] by simp
    then have pm: "ht_map t k = Some (he_payload e)"
      unfolding ht_map_def hash_keys.assoc_of_iff [OF hk u] using ke by blast
    have eqk: "keys_equal t (he_key e) k' = keys_equal t k k'" for k'
      using ke hash_keys.eq_sym [OF hk] hash_keys.eq_trans [OF hk] by blast
    have mt': "mset (concat (ht_table t)) = add_mset e (mset (concat ?tb))" using mt by simp
    have "ht_map ?u = (\<lambda>k'. if keys_equal t k k' then None else ht_map t k')"
      using hash_keys.assoc_of_remove [OF hk u mt'] by (simp add: fun_eq_iff ht_map_def eqk)
    moreover have "unat (ht_entries t - 1) = unat (ht_entries t) - 1"
      using unat_minus_of_nat_u32 [of 1 "ht_entries t"] sh arg_cong [OF mt, of size]
      by (simp add: ht_shape_def)
    ultimately show ?thesis using rm oku pm by (intro exI [of _ ?u]) (simp add: ht_same_def)
  qed
qed


text \<open>Exchanging an entry for another one with an equal key.\<close>

lemma ht_shape_swap:
  assumes sh: "ht_shape t" and std: "ht_std t" and h: "h < length (ht_table t)"
    and es: "ht_table t ! h = a @ e # b" and eq: "keys_equal t (he_key e) (he_key n)"
    and n: "he_payload n \<noteq> 0" "key_valid t (he_key n)"
    and tb: "tb = (ht_table t)[h := a @ n # b]"
  shows "ht_shape (t\<lparr>ht_table := tb\<rparr>)"
    "ht_map (t\<lparr>ht_table := tb\<rparr>) = (\<lambda>k. if keys_equal t (he_key n) k then Some (he_payload n) else ht_map t k)"
proof -
  note hk = std_hash_keys [OF std]
  let ?R = "concat ((ht_table t)[h := a @ b])"
  have m1: "mset (concat (ht_table t)) = add_mset e (mset ?R)"
    using mset_concat_update [OF h, of "a @ b"] by (simp add: es)
  have "add_mset e (mset (concat tb)) = add_mset n (mset (concat (ht_table t)))"
    using mset_concat_update [OF h, of "a @ n # b"] by (simp add: es tb)
  then have m2: "mset (concat tb) = add_mset n (mset ?R)"
    unfolding m1 add_mset_commute [of n e] by simp
  note m = m1 m2
  have eqk: "keys_equal t (he_key e) k = keys_equal t (he_key n) k"
    "keys_equal t k (he_key e) = keys_equal t k (he_key n)" for k
    using eq hash_keys.eq_sym [OF hk] hash_keys.eq_trans [OF hk] by blast+
  have u: "uniq_keys (keys_equal t) (mset (concat (ht_table t)))" using sh by (simp add: ht_shape_def)
  then have u': "uniq_keys (keys_equal t) (mset (concat tb))"
    unfolding m uniq_keys_add_mset eqk .
  have hn: "unat (hash_key t (he_key n)) = unat (hash_key t (he_key e))"
    using hash_keys.hk_cong [OF hk eq, of "ht_table_bits t"] by simp
  show "ht_shape (t\<lparr>ht_table := tb\<rparr>)"
  proof (rule ht_shapeI [OF sh])
    have "placed (\<lambda>k. unat (hash_key t k)) tb"
      unfolding tb using sh h es hn by (intro placed_update) (auto simp: ht_shape_def placed_def)
    then show "placed (\<lambda>k. unat (hash_key (t\<lparr>ht_table := tb\<rparr>) k)) (ht_table (t\<lparr>ht_table := tb\<rparr>))" by simp
    have "length (concat tb) = length (concat (ht_table t))"
      using arg_cong [OF m(1), of size] arg_cong [OF m(2), of size] by simp
    then show "unat (ht_entries (t\<lparr>ht_table := tb\<rparr>)) = length (concat (ht_table (t\<lparr>ht_table := tb\<rparr>)))"
      using sh by (simp add: ht_shape_def)
    have "set (concat tb) \<subseteq> insert n (set (concat (ht_table t)))"
      using arg_cong [OF m(1), of set_mset] arg_cong [OF m(2), of set_mset] by auto
    then show "\<forall>e \<in> set (concat (ht_table (t\<lparr>ht_table := tb\<rparr>))). he_payload e \<noteq> 0 \<and> key_valid t (he_key e)"
      using sh n unfolding ht_shape_def by fastforce
  qed (use sh u' in \<open>simp_all add: ht_shape_def tb\<close>)
  have "assoc_of (keys_equal t) ?R k = (if keys_equal t (he_key n) k then None else ht_map t k)" for k
    using hash_keys.assoc_of_remove [OF hk u m(1), of k] by (simp add: ht_map_def eqk)
  then show "ht_map (t\<lparr>ht_table := tb\<rparr>) = (\<lambda>k. if keys_equal t (he_key n) k then Some (he_payload n) else ht_map t k)"
    using hash_keys.assoc_of_add [OF hk u' m(2)] by (simp add: ht_map_def fun_eq_iff)
qed


lemma hashtable_add_replace_ok:
  assumes ok: "ht_ok t" and k: "key_valid t k" and p: "p \<noteq> 0"
    and dup: "ht_str_dup t \<longrightarrow> dup \<noteq> 0 \<and> ht_hashtype t \<noteq> HASH_INTPTR"
    and cnt: "unat (ht_entries t) < 2 ^ 32 - 1"
  shows "\<exists>u. hashtable_add_replace t k p dup = Inr (case ht_map t k of None \<Rightarrow> 0 | Some q \<Rightarrow> q, u) \<and>
           ht_ok u \<and> ht_same t u \<and> ht_freed u = ht_freed t \<and>
           ht_map u = (\<lambda>k'. if keys_equal t k k' then Some p else ht_map t k') \<and>
           unat (ht_entries u) = unat (ht_entries t) + (if ht_map t k = None then 1 else 0)"
proof (cases "ht_map t k")
  have std: "ht_std t" and sh: "ht_shape t" and lk: "\<not> ht_lock t" using ok by (auto simp: ht_ok_def)
  let ?t = "t\<lparr>ht_lock := ht_synch t\<rparr>" and ?h = "unat (hash_key t k)" and ?e = "new_entry t k p dup"
  note ne = keys_equal_new_entry [OF std k dup]
  have h: "?h < length (ht_table t)" using ht_bucket_ok [OF sh] by blast
  have e_eq: "new_entry ?t k p dup = ?e" by (simp add: new_entry_def)
  have cr: "chain_replace ?t k n es = chain_replace t k n es" for n es by (induction es) simp_all
  {
    case (Some q)
    then have "\<exists>e \<in> set (ht_table t ! ?h). keys_equal t (he_key e) k"
      using chain_none [OF std sh, of k] by simp
    from chain_replace_some [OF this] obtain a e b where
      c: "ht_table t ! ?h = a @ e # b" "keys_equal t (he_key e) k"
        "chain_replace t k ?e (ht_table t ! ?h) = (he_payload e, a @ ?e # b)" by blast
    let ?tb = "(ht_table t)[?h := a @ ?e # b]"
    have "e \<in> set (ht_table t ! ?h)" using c(1) by simp
    then have "e \<in> set (concat (ht_table t))" using nth_mem [OF h] by auto
    moreover have "uniq_keys (keys_equal t) (mset (concat (ht_table t)))"
      using sh by (simp add: ht_shape_def)
    ultimately have "ht_map t k = Some (he_payload e)" and ne0: "he_payload e \<noteq> 0"
      using hash_keys.assoc_of_iff [OF std_hash_keys [OF std]] c(2) sh unfolding ht_map_def ht_shape_def
      by blast+
    with Some have q: "q = he_payload e" by simp
    have "keys_equal t (he_key e) (he_key ?e)" using c(2) ne by simp
    note sw = ht_shape_swap [OF sh std h c(1) this, unfolded ne, OF p ne(3) refl]
    have "hashtable_add_replace t k p dup = Inr (q, ht_unlock_if_synch (?t\<lparr>ht_table := ?tb\<rparr>))"
      using ht_bucket_ok [of ?t k] sh c(3) ne0
      by (simp add: hashtable_add_replace_def ht_lock_if_synch_ok [OF lk] Let_def e_eq cr q)
    moreover have "ht_unlock_if_synch (?t\<lparr>ht_table := ?tb\<rparr>) = t\<lparr>ht_table := ?tb\<rparr>"
      using lk by (auto simp: ht_lock_defs)
    moreover have "ht_ok (t\<lparr>ht_table := ?tb\<rparr>)" using ok sw(1) by (simp add: ht_ok_def)
    ultimately show ?thesis using Some sw(2) by (simp add: ht_same_def)
  next
    case None
    from ht_insert_resize_ok [OF ok k p dup cnt None] obtain b v u where
      r: "hashtable_check_for_resize (ht_insert_head ?t ?h ?e) = Inr (b, v)" "ht_unlock_if_synch v = u"
      and u: "ht_ok u" "ht_same t u" "ht_freed u = ht_freed t"
        "unat (ht_entries u) = Suc (unat (ht_entries t))"
        "ht_map u = (\<lambda>k'. if keys_equal t k k' then Some p else ht_map t k')" by blast
    have "\<not> (\<exists>e \<in> set (ht_table t ! ?h). keys_equal t (he_key e) k)"
      using None chain_none [OF std sh, of k] by simp
    then have "chain_replace t k ?e (ht_table t ! ?h) = (0, ht_table t ! ?h)"
      by (intro chain_replace_none) blast
    then have "hashtable_add_replace t k p dup = Inr (0, u)"
      using ht_bucket_ok [of ?t k] sh r
      by (simp add: hashtable_add_replace_def ht_lock_if_synch_ok [OF lk] Let_def e_eq cr)
    with None u show ?thesis by simp
  }
qed

lemma concat_nils [simp]: "concat (map (\<lambda>_. []) xs) = []"
  by (induction xs) auto

lemma find_filter_neg:
  "find P (filter (\<lambda>x. \<not> Q x) xs) = find (\<lambda>x. P x \<and> \<not> Q x) xs"
  by (induction xs) auto

text \<open>Removing a range of addresses is meant for tables keyed by pointers.\<close>

lemma hashtable_remove_range_ok:
  assumes ok: "ht_ok t" and ty: "ht_hashtype t = HASH_INTPTR"
  shows "\<exists>u removed. hashtable_remove_range t start stop = Inr (removed \<noteq> [], u) \<and>
           ht_ok u \<and> ht_same t u \<and>
           ht_map u = (\<lambda>k. if start \<le> kptr k \<and> kptr k < stop then None else ht_map t k) \<and>
           removed = map he_payload (filter (\<lambda>e. start \<le> kptr (he_key e) \<and> kptr (he_key e) < stop) (concat (ht_table t))) \<and>
           unat (ht_entries u) = unat (ht_entries t) - length removed \<and>
           ht_freed u = ht_freed t @ (if ht_free_payload_func t then removed else [])"
proof -
  let ?t = "t\<lparr>ht_lock := ht_synch t\<rparr>"
  let ?P = "\<lambda>e. start \<le> kptr (he_key e) \<and> kptr (he_key e) < stop"
  let ?tb = "map (filter (\<lambda>e. \<not> ?P e)) (ht_table t)" and ?r = "filter ?P (concat (ht_table t))"
  have std: "ht_std t" and sh: "ht_shape t" and lk: "\<not> ht_lock t" using ok by (auto simp: ht_ok_def)
  have ct: "concat ?tb = filter (\<lambda>e. \<not> ?P e) (concat (ht_table t))" by (simp only: filter_concat)
  have mt: "mset (concat (ht_table t)) = mset (concat ?tb) + mset ?r"
    unfolding ct using filter_mset_partition [of ?P "concat (ht_table t)"] by (simp only: union_commute)
  have pl: "placed (\<lambda>k. unat (hash_key t k)) ?tb"
    using sh by (auto simp: ht_shape_def placed_def)
  let ?n = "ht_entries t - of_nat (length ?r)"
  have su: "ht_shape (t\<lparr>ht_table := ?tb, ht_entries := ?n\<rparr>)"
    by (rule ht_shape_sub [OF sh _ pl mt]) (simp_all only: size_mset length_map)
  let ?u = "(t\<lparr>ht_table := ?tb, ht_entries := ?n\<rparr>)
      \<lparr>ht_freed := ht_freed t @ (if ht_free_payload_func t then map he_payload ?r else [])\<rparr>"
  have "hashtable_remove_range t start stop = Inr (?r \<noteq> [], ht_unlock_if_synch
      ((free_payloads (?t\<lparr>ht_table := ?tb\<rparr>) ?r)\<lparr>ht_entries := ?n\<rparr>))"
    unfolding hashtable_remove_range_def ht_lock_if_synch_ok [OF lk] Let_def by simp
  moreover have "ht_unlock_if_synch ((free_payloads (?t\<lparr>ht_table := ?tb\<rparr>) ?r)\<lparr>ht_entries := ?n\<rparr>) = ?u"
    using lk by (auto simp: free_payloads_def ht_lock_defs)
  ultimately have rr: "hashtable_remove_range t start stop = Inr (map he_payload ?r \<noteq> [], ?u)" by simp
  have oku: "ht_ok ?u" using su ok unfolding ht_ok_def by simp
  have pred: "(\<lambda>e. kptr (he_key e) = kptr k \<and> \<not> ?P e) =
      (if start \<le> kptr k \<and> kptr k < stop then (\<lambda>e. False) else (\<lambda>e. kptr (he_key e) = kptr k))" for k
    by (auto simp: fun_eq_iff)
  have fF: "find (\<lambda>e. False) xs = None" for xs :: "hash_entry list" by (induction xs) auto
  have "ht_map ?u = assoc_of (keys_equal t) (concat ?tb)" by (simp add: ht_map_def)
  also have "\<dots> = (\<lambda>k. map_option he_payload
      (find (\<lambda>e. kptr (he_key e) = kptr k \<and> \<not> ?P e) (concat (ht_table t))))"
    unfolding ct assoc_of_def keys_equal_std(1) [OF std ty] find_filter_neg ..
  also have "\<dots> = (\<lambda>k. if start \<le> kptr k \<and> kptr k < stop then None else ht_map t k)"
    unfolding pred ht_map_def assoc_of_def keys_equal_std(1) [OF std ty] by (simp add: fun_eq_iff fF)
  finally have mp: "ht_map ?u = (\<lambda>k. if start \<le> kptr k \<and> kptr k < stop then None else ht_map t k)" .
  have "length ?r \<le> unat (ht_entries t)"
    using sh length_filter_le [of ?P "concat (ht_table t)"] unfolding ht_shape_def by simp
  then have "unat ?n = unat (ht_entries t) - length (map he_payload ?r)"
    by (simp only: unat_minus_of_nat_u32 length_map)
  then show ?thesis
    using rr oku mp by (intro exI [of _ ?u] exI [of _ "map he_payload ?r"]) (simp add: ht_same_def)
qed

lemma hashtable_clear_ok:
  assumes ok: "ht_ok t"
  shows "\<exists>u. hashtable_clear t = Inr u \<and> ht_ok u \<and> ht_same t u \<and> ht_map u = (\<lambda>_. None) \<and>
           ht_entries u = 0 \<and> ht_table_bits u = ht_table_bits t \<and>
           ht_freed u = ht_freed t @ (if ht_free_payload_func t then hashtable_apply_to_all_payloads t else [])"
proof -
  let ?t = "t\<lparr>ht_lock := ht_synch t\<rparr>" and ?tb = "map (\<lambda>_. []) (ht_table t) :: hash_entry list list"
  have sh: "ht_shape t" and lk: "\<not> ht_lock t" using ok by (auto simp: ht_ok_def)
  have "placed (\<lambda>k. unat (hash_key t k)) ?tb" by (simp add: placed_def)
  then have su: "ht_shape (t\<lparr>ht_table := ?tb, ht_entries := 0\<rparr>)"
    using sh by (intro ht_shapeI [OF sh]) (simp_all add: ht_shape_def)
  let ?u = "(t\<lparr>ht_table := ?tb, ht_entries := 0\<rparr>)
      \<lparr>ht_freed := ht_freed t @ (if ht_free_payload_func t then hashtable_apply_to_all_payloads t else [])\<rparr>"
  have "hashtable_clear t = Inr (ht_unlock_if_synch (hashtable_clear_internal ?t))"
    by (simp add: hashtable_clear_def ht_lock_if_synch_ok [OF lk])
  moreover have "ht_unlock_if_synch (hashtable_clear_internal ?t) = ?u"
    using lk by (auto simp: hashtable_clear_internal_def free_payloads_def ht_lock_defs
        hashtable_apply_to_all_payloads_def)
  moreover have "ht_ok ?u" using su ok unfolding ht_ok_def by simp
  moreover have "ht_map ?u = (\<lambda>_. None)" by (simp add: fun_eq_iff ht_map_def assoc_of_def)
  ultimately show ?thesis by (intro exI [of _ ?u]) (simp add: ht_same_def)
qed


lemma hashtable_lookup_ok:
  assumes "ht_ok t"
  shows "hashtable_lookup t k = Inr (case ht_map t k of None \<Rightarrow> 0 | Some p \<Rightarrow> p)"
proof -
  have std: "ht_std t" and sh: "ht_shape t" and lk: "\<not> ht_lock t" using assms by (auto simp: ht_ok_def)
  have "chain_lookup (t\<lparr>ht_lock := b\<rparr>) k es = chain_lookup t k es" for b es by (induction es) simp_all
  then show ?thesis
    using ht_bucket_ok [of "t\<lparr>ht_lock := ht_synch t\<rparr>" k] sh chain_assoc [OF std sh, of k]
    by (simp add: hashtable_lookup_def ht_lock_if_synch_ok [OF lk] chain_lookup_assoc)
qed

lemma ht_init_ok:
  assumes "1 \<le> n" "n \<le> 31" "ty \<noteq> HASH_CUSTOM"
  shows "ht_ok (hashtable_init_ex n ty d s f None None)"
    "ht_map (hashtable_init_ex n ty d s f None None) = (\<lambda>_. None)"
  using assms
  by (simp_all add: hashtable_init_ex_def ht_ok_def ht_shape_def ht_std_def placed_def HASHTABLE_SIZE_def
      ht_map_def assoc_of_def fun_eq_iff)

section \<open>Refinement: a sequence of operations against a map\<close>

datatype ht_op =
    HtAdd hkey ptr ptr | HtReplace hkey ptr ptr | HtRemove hkey | HtRemoveRange ptr ptr
  | HtClear | HtLookup hkey

datatype ht_out = OutBool bool | OutPtr ptr | OutNone

fun ht_step :: "hashtable \<Rightarrow> ht_op \<Rightarrow> (ht_out \<times> hashtable) cres" where
  "ht_step t (HtAdd k p dup) = bind_res (hashtable_add t k p dup) (\<lambda>(b, t). Inr (OutBool b, t))"
| "ht_step t (HtReplace k p dup) = bind_res (hashtable_add_replace t k p dup) (\<lambda>(q, t). Inr (OutPtr q, t))"
| "ht_step t (HtRemove k) = bind_res (hashtable_remove t k) (\<lambda>(b, t). Inr (OutBool b, t))"
| "ht_step t (HtRemoveRange a b) = bind_res (hashtable_remove_range t a b) (\<lambda>(r, t). Inr (OutBool r, t))"
| "ht_step t HtClear = bind_res (hashtable_clear t) (\<lambda>t. Inr (OutNone, t))"
| "ht_step t (HtLookup k) = bind_res (hashtable_lookup t k) (\<lambda>q. Inr (OutPtr q, t))"

fun ht_run :: "hashtable \<Rightarrow> ht_op list \<Rightarrow> (ht_out list \<times> hashtable) cres" where
  "ht_run t [] = Inr ([], t)"
| "ht_run t (op # ops) =
     bind_res (ht_step t op) (\<lambda>(out, t). bind_res (ht_run t ops) (\<lambda>(outs, t). Inr (out # outs, t)))"

text \<open>The specification: a partial map on keys, read up to the equality of the key type.\<close>

definition opt_ptr :: "ptr option \<Rightarrow> ptr" where
  "opt_ptr r = (case r of None \<Rightarrow> 0 | Some p \<Rightarrow> p)"

fun map_step :: "(hkey \<Rightarrow> hkey \<Rightarrow> bool) \<Rightarrow> (hkey \<Rightarrow> ptr option) \<Rightarrow> ht_op \<Rightarrow> ht_out \<times> (hkey \<Rightarrow> ptr option)" where
  "map_step eq m (HtAdd k p dup) =
     (if m k = None then (OutBool True, \<lambda>k'. if eq k k' then Some p else m k') else (OutBool False, m))"
| "map_step eq m (HtReplace k p dup) = (OutPtr (opt_ptr (m k)), \<lambda>k'. if eq k k' then Some p else m k')"
| "map_step eq m (HtRemove k) = (OutBool (m k \<noteq> None), \<lambda>k'. if eq k k' then None else m k')"
| "map_step eq m (HtRemoveRange a b) =
     (OutBool (\<exists>k. a \<le> kptr k \<and> kptr k < b \<and> m k \<noteq> None),
      \<lambda>k'. if a \<le> kptr k' \<and> kptr k' < b then None else m k')"
| "map_step eq m HtClear = (OutNone, \<lambda>_. None)"
| "map_step eq m (HtLookup k) = (OutPtr (opt_ptr (m k)), m)"

fun map_run :: "(hkey \<Rightarrow> hkey \<Rightarrow> bool) \<Rightarrow> (hkey \<Rightarrow> ptr option) \<Rightarrow> ht_op list \<Rightarrow> ht_out list \<times> (hkey \<Rightarrow> ptr option)" where
  "map_run eq m [] = ([], m)"
| "map_run eq m (op # ops) =
     (let (out, m) = map_step eq m op; (outs, m) = map_run eq m ops in (out # outs, m))"

text \<open>
  What the callers promise: payloads are not NULL, keys of case-insensitive tables are not NULL,
  a duplicated string key is at a fresh non-NULL address, and ranges are removed from tables
  keyed by pointers.
\<close>

fun op_ok :: "hashtable \<Rightarrow> ht_op \<Rightarrow> bool" where
  "op_ok t (HtAdd k p dup) \<longleftrightarrow> key_valid t k \<and> p \<noteq> 0 \<and>
     (ht_str_dup t \<longrightarrow> dup \<noteq> 0 \<and> ht_hashtype t \<noteq> HASH_INTPTR)"
| "op_ok t (HtReplace k p dup) \<longleftrightarrow> key_valid t k \<and> p \<noteq> 0 \<and>
     (ht_str_dup t \<longrightarrow> dup \<noteq> 0 \<and> ht_hashtype t \<noteq> HASH_INTPTR)"
| "op_ok t (HtRemoveRange a b) \<longleftrightarrow> ht_hashtype t = HASH_INTPTR"
| "op_ok t _ \<longleftrightarrow> True"

lemma op_ok_same: "ht_same t u \<Longrightarrow> op_ok u op = op_ok t op"
  by (cases op) (auto simp: ht_same_def key_valid_def)

lemma ht_same_trans: "ht_same t u \<Longrightarrow> ht_same u v \<Longrightarrow> ht_same t v"
  by (simp add: ht_same_def)

lemma removed_iff_map:
  assumes "ht_ok t" "ht_hashtype t = HASH_INTPTR"
  shows "filter (\<lambda>e. a \<le> kptr (he_key e) \<and> kptr (he_key e) < b) (concat (ht_table t)) \<noteq> [] \<longleftrightarrow>
           (\<exists>k. a \<le> kptr k \<and> kptr k < b \<and> ht_map t k \<noteq> None)"
proof -
  have std: "ht_std t" using assms(1) by (simp add: ht_ok_def)
  have iff: "ht_map t k \<noteq> None \<longleftrightarrow> (\<exists>e \<in> set (concat (ht_table t)). kptr (he_key e) = kptr k)" for k
    unfolding ht_map_def keys_equal_std(1) [OF std assms(2)] assoc_of_None by blast
  have "ht_map t (he_key e) \<noteq> None" if "e \<in> set (concat (ht_table t))" for e
    using that unfolding iff by blast
  moreover have "\<exists>e \<in> set (concat (ht_table t)). kptr (he_key e) = kptr k" if "ht_map t k \<noteq> None" for k
    using that unfolding iff .
  ultimately show ?thesis unfolding filter_empty_conv by fastforce
qed

lemma ht_step_refines:
  assumes ok: "ht_ok t" and op: "op_ok t op" and cnt: "unat (ht_entries t) < 2 ^ 32 - 1"
  shows "\<exists>u. ht_step t op = Inr (fst (map_step (keys_equal t) (ht_map t) op), u) \<and> ht_ok u \<and> ht_same t u \<and>
           ht_map u = snd (map_step (keys_equal t) (ht_map t) op) \<and>
           unat (ht_entries u) \<le> Suc (unat (ht_entries t))"
proof (cases op)
  case (HtAdd k p dup)
  with op hashtable_add_ok [OF ok _ _ _ cnt, of k p dup] show ?thesis by auto
next
  case (HtReplace k p dup)
  with op hashtable_add_replace_ok [OF ok _ _ _ cnt, of k p dup] show ?thesis by (auto simp: opt_ptr_def)
next
  case (HtRemove k)
  with hashtable_remove_ok [OF ok, of k] show ?thesis by auto
next
  case (HtRemoveRange a b)
  with op have ty: "ht_hashtype t = HASH_INTPTR" by simp
  from hashtable_remove_range_ok [OF ok ty, of a b] removed_iff_map [OF ok ty, of a b] HtRemoveRange
  show ?thesis by auto
next
  case HtClear
  with hashtable_clear_ok [OF ok] show ?thesis by auto
next
  case (HtLookup k)
  with hashtable_lookup_ok [OF ok, of k] ok show ?thesis by (simp add: ht_same_def opt_ptr_def)
qed

text \<open>C10. Any sequence of operations on a well-formed table of one of the three built-in key
  types runs without fault (no out-of-range bucket, no shift by 32, no self-deadlock), returns
  what the same operations return on a plain map, and leaves a well-formed table that holds
  exactly that map, whatever the resizes on the way.\<close>

theorem hashtable_refines_map:
  assumes "ht_ok t" "\<forall>op \<in> set ops. op_ok t op" "unat (ht_entries t) + length ops < 2 ^ 32 - 1"
  shows "\<exists>u. ht_run t ops = Inr (fst (map_run (keys_equal t) (ht_map t) ops), u) \<and> ht_ok u \<and>
           ht_map u = snd (map_run (keys_equal t) (ht_map t) ops)"
  using assms
proof (induction ops arbitrary: t)
  case (Cons op ops)
  from ht_step_refines [of t op] Cons.prems obtain u where
    u: "ht_step t op = Inr (fst (map_step (keys_equal t) (ht_map t) op), u)" "ht_ok u" "ht_same t u"
      "ht_map u = snd (map_step (keys_equal t) (ht_map t) op)"
      "unat (ht_entries u) \<le> Suc (unat (ht_entries t))" by auto
  have "\<forall>op \<in> set ops. op_ok u op" using Cons.prems(2) op_ok_same [OF u(3)] by simp
  from Cons.IH [OF u(2) this] u(5) Cons.prems(3) obtain v where
    "ht_run u ops = Inr (fst (map_run (keys_equal u) (ht_map u) ops), v)" "ht_ok v"
    "ht_map v = snd (map_run (keys_equal u) (ht_map u) ops)" by auto
  with u(1,4) ht_same_keys [OF u(3)] show ?case by (simp add: case_prod_beta)
qed simp

theorem hashtable_refines_map_witness:
  "\<exists>u. ht_run (hashtable_init_ex 2 HASH_INTPTR False True True None None)
         [HtAdd \<lparr>kptr = 5, kstr = []\<rparr> 7 0, HtReplace \<lparr>kptr = 5, kstr = []\<rparr> 9 0,
          HtLookup \<lparr>kptr = 5, kstr = []\<rparr>, HtRemoveRange 4 6, HtLookup \<lparr>kptr = 5, kstr = []\<rparr>]
       = Inr ([OutBool True, OutPtr 7, OutPtr 9, OutBool True, OutPtr 0], u)"
proof -
  let ?t = "hashtable_init_ex 2 HASH_INTPTR False True True None None"
  let ?k = "\<lparr>kptr = 5, kstr = []\<rparr> :: hkey"
  let ?ops = "[HtAdd ?k 7 0, HtReplace ?k 9 0, HtLookup ?k, HtRemoveRange 4 6, HtLookup ?k]"
  have ok: "ht_ok ?t" and m: "ht_map ?t = (\<lambda>_. None)" by (rule ht_init_ok; simp)+
  have "\<forall>op \<in> set ?ops. op_ok ?t op" by (simp add: hashtable_init_ex_def key_valid_def)
  moreover have "unat (ht_entries ?t) + length ?ops < 2 ^ 32 - 1" by (simp add: hashtable_init_ex_def)
  ultimately obtain u where r: "ht_run ?t ?ops = Inr (fst (map_run (keys_equal ?t) (ht_map ?t) ?ops), u)"
    using hashtable_refines_map [OF ok, of ?ops] by blast
  have eq: "keys_equal ?t = (\<lambda>a b. kptr a = kptr b)"
    by (rule keys_equal_std) (simp_all add: hashtable_init_ex_def ht_std_def)
  have "\<exists>k :: hkey. kptr k = 5" by (rule exI [of _ ?k]) simp
  then have "fst (map_run (\<lambda>a b :: hkey. kptr a = kptr b) (\<lambda>_. None) ?ops) =
      [OutBool True, OutPtr 7, OutPtr 9, OutBool True, OutPtr 0]" by (simp add: opt_ptr_def)
  with r show ?thesis unfolding m eq by (intro exI [of _ u]) (simp only:)
qed

end
