(* ===== verification/Plc_Operations.thy ===== *)
theory Plc_Operations
  imports Plc_Prelude
begin

text \<open>
  The features of the floating-point instructions PADLOC instruments
  (\<open>api/samples/padloc/padloc_operations.hpp\<close> and \<open>.cpp\<close>): a bit per feature, the categories as
  unions of bits, the classifier \<open>plc_get_operation_category\<close> and the tests on a category. The
  build modelled is x86-64. An instruction is its opcode, its EVEX prefix flag and the sizes in
  bytes of its source operands, which is all the classifier looks at.
\<close>

section \<open>Feature bits\<close>

definition PLC_OP_OTHER :: u32 where "PLC_OP_OTHER = 0"
definition PLC_OP_DOUBLE :: u32 where "PLC_OP_DOUBLE = 1"
definition PLC_OP_FLOAT :: u32 where "PLC_OP_FLOAT = 2"
definition PLC_OP_PACKED :: u32 where "PLC_OP_PACKED = 4"
definition PLC_OP_SCALAR :: u32 where "PLC_OP_SCALAR = 8"
definition PLC_OP_ADD :: u32 where "PLC_OP_ADD = 16"
definition PLC_OP_SUB :: u32 where "PLC_OP_SUB = 32"
definition PLC_OP_MUL :: u32 where "PLC_OP_MUL = 64"
definition PLC_OP_DIV :: u32 where "PLC_OP_DIV = 128"
definition PLC_OP_FMA :: u32 where "PLC_OP_FMA = 256"
definition PLC_OP_FMS :: u32 where "PLC_OP_FMS = 512"
definition PLC_OP_132 :: u32 where "PLC_OP_132 = 1024"
definition PLC_OP_213 :: u32 where "PLC_OP_213 = 2048"
definition PLC_OP_231 :: u32 where "PLC_OP_231 = 4096"
definition PLC_OP_NEG :: u32 where "PLC_OP_NEG = 8192"
definition PLC_OP_128 :: u32 where "PLC_OP_128 = 16384"
definition PLC_OP_256 :: u32 where "PLC_OP_256 = 32768"
definition PLC_OP_512 :: u32 where "PLC_OP_512 = 65536"
definition PLC_OP_MASK :: u32 where "PLC_OP_MASK = 131056"
definition PLC_OP_TYPE_MASK :: u32 where "PLC_OP_TYPE_MASK = 16368"
definition PLC_SIMD_TYPE_MASK :: u32 where "PLC_SIMD_TYPE_MASK = 114688"
definition PLC_OP_FUSED :: u32 where "PLC_OP_FUSED = 768"
definition PLC_OP_SSE :: u32 where "PLC_OP_SSE = 131072"
definition PLC_OP_AVX :: u32 where "PLC_OP_AVX = 262144"
definition PLC_OP_UNSUPPORTED :: u32 where "PLC_OP_UNSUPPORTED = PLC_OP_OTHER"

lemmas plc_flag_defs =
  PLC_OP_OTHER_def PLC_OP_DOUBLE_def PLC_OP_FLOAT_def PLC_OP_PACKED_def
  PLC_OP_SCALAR_def PLC_OP_ADD_def PLC_OP_SUB_def PLC_OP_MUL_def
  PLC_OP_DIV_def PLC_OP_FMA_def PLC_OP_FMS_def PLC_OP_132_def
  PLC_OP_213_def PLC_OP_231_def PLC_OP_NEG_def PLC_OP_128_def
  PLC_OP_256_def PLC_OP_512_def PLC_OP_MASK_def PLC_OP_TYPE_MASK_def
  PLC_SIMD_TYPE_MASK_def PLC_OP_FUSED_def PLC_OP_SSE_def PLC_OP_AVX_def
  PLC_OP_UNSUPPORTED_def

section \<open>Categories\<close>

definition PLC_OTHER :: u32 where "PLC_OTHER = PLC_OP_OTHER"
definition PLC_UNSUPPORTED :: u32 where "PLC_UNSUPPORTED = PLC_OP_UNSUPPORTED"
definition PLC_ADDS_SSE :: u32 where "PLC_ADDS_SSE = PLC_OP_FLOAT OR PLC_OP_SCALAR OR PLC_OP_ADD OR PLC_OP_SSE"
definition PLC_SUBS_SSE :: u32 where "PLC_SUBS_SSE = PLC_OP_FLOAT OR PLC_OP_SCALAR OR PLC_OP_SUB OR PLC_OP_SSE"
definition PLC_MULS_SSE :: u32 where "PLC_MULS_SSE = PLC_OP_FLOAT OR PLC_OP_SCALAR OR PLC_OP_MUL OR PLC_OP_SSE"
definition PLC_DIVS_SSE :: u32 where "PLC_DIVS_SSE = PLC_OP_FLOAT OR PLC_OP_SCALAR OR PLC_OP_DIV OR PLC_OP_SSE"
definition PLC_ADDS_AVX :: u32 where "PLC_ADDS_AVX = PLC_OP_FLOAT OR PLC_OP_SCALAR OR PLC_OP_ADD OR PLC_OP_AVX"
definition PLC_SUBS_AVX :: u32 where "PLC_SUBS_AVX = PLC_OP_FLOAT OR PLC_OP_SCALAR OR PLC_OP_SUB OR PLC_OP_AVX"
definition PLC_MULS_AVX :: u32 where "PLC_MULS_AVX = PLC_OP_FLOAT OR PLC_OP_SCALAR OR PLC_OP_MUL OR PLC_OP_AVX"
definition PLC_DIVS_AVX :: u32 where "PLC_DIVS_AVX = PLC_OP_FLOAT OR PLC_OP_SCALAR OR PLC_OP_DIV OR PLC_OP_AVX"
definition PLC_ADDD_SSE :: u32 where "PLC_ADDD_SSE = PLC_OP_DOUBLE OR PLC_OP_SCALAR OR PLC_OP_ADD OR PLC_OP_SSE"
definition PLC_SUBD_SSE :: u32 where "PLC_SUBD_SSE = PLC_OP_DOUBLE OR PLC_OP_SCALAR OR PLC_OP_SUB OR PLC_OP_SSE"
definition PLC_MULD_SSE :: u32 where "PLC_MULD_SSE = PLC_OP_DOUBLE OR PLC_OP_SCALAR OR PLC_OP_MUL OR PLC_OP_SSE"
definition PLC_DIVD_SSE :: u32 where "PLC_DIVD_SSE = PLC_OP_DOUBLE OR PLC_OP_SCALAR OR PLC_OP_DIV OR PLC_OP_SSE"
definition PLC_ADDD_AVX :: u32 where "PLC_ADDD_AVX = PLC_OP_DOUBLE OR PLC_OP_SCALAR OR PLC_OP_ADD OR PLC_OP_AVX"
definition PLC_SUBD_AVX :: u32 where "PLC_SUBD_AVX = PLC_OP_DOUBLE OR PLC_OP_SCALAR OR PLC_OP_SUB OR PLC_OP_AVX"
definition PLC_MULD_AVX :: u32 where "PLC_MULD_AVX = PLC_OP_DOUBLE OR PLC_OP_SCALAR OR PLC_OP_MUL OR PLC_OP_AVX"
definition PLC_DIVD_AVX :: u32 where "PLC_DIVD_AVX = PLC_OP_DOUBLE OR PLC_OP_SCALAR OR PLC_OP_DIV OR PLC_OP_AVX"
definition PLC_PADDS_SSE :: u32 where "PLC_PADDS_SSE = PLC_OP_FLOAT OR PLC_OP_PACKED OR PLC_OP_ADD OR PLC_OP_SSE"
definition PLC_PSUBS_SSE :: u32 where "PLC_PSUBS_SSE = PLC_OP_FLOAT OR PLC_OP_PACKED OR PLC_OP_SUB OR PLC_OP_SSE"
definition PLC_PMULS_SSE :: u32 where "PLC_PMULS_SSE = PLC_OP_FLOAT OR PLC_OP_PACKED OR PLC_OP_MUL OR PLC_OP_SSE"
definition PLC_PDIVS_SSE :: u32 where "PLC_PDIVS_SSE = PLC_OP_FLOAT OR PLC_OP_PACKED OR PLC_OP_DIV OR PLC_OP_SSE"
definition PLC_PADDD_SSE :: u32 where "PLC_PADDD_SSE = PLC_OP_DOUBLE OR PLC_OP_PACKED OR PLC_OP_ADD OR PLC_OP_SSE"
definition PLC_PSUBD_SSE :: u32 where "PLC_PSUBD_SSE = PLC_OP_DOUBLE OR PLC_OP_PACKED OR PLC_OP_SUB OR PLC_OP_SSE"
definition PLC_PMULD_SSE :: u32 where "PLC_PMULD_SSE = PLC_OP_DOUBLE OR PLC_OP_PACKED OR PLC_OP_MUL OR PLC_OP_SSE"
definition PLC_PDIVD_SSE :: u32 where "PLC_PDIVD_SSE = PLC_OP_DOUBLE OR PLC_OP_PACKED OR PLC_OP_DIV OR PLC_OP_SSE"
definition PLC_PADDS_AVX :: u32 where "PLC_PADDS_AVX = PLC_OP_FLOAT OR PLC_OP_PACKED OR PLC_OP_ADD OR PLC_OP_AVX"
definition PLC_PSUBS_AVX :: u32 where "PLC_PSUBS_AVX = PLC_OP_FLOAT OR PLC_OP_PACKED OR PLC_OP_SUB OR PLC_OP_AVX"
definition PLC_PMULS_AVX :: u32 where "PLC_PMULS_AVX = PLC_OP_FLOAT OR PLC_OP_PACKED OR PLC_OP_MUL OR PLC_OP_AVX"
definition PLC_PDIVS_AVX :: u32 where "PLC_PDIVS_AVX = PLC_OP_FLOAT OR PLC_OP_PACKED OR PLC_OP_DIV OR PLC_OP_AVX"
definition PLC_PADDD_AVX :: u32 where "PLC_PADDD_AVX = PLC_OP_DOUBLE OR PLC_OP_PACKED OR PLC_OP_ADD OR PLC_OP_AVX"
definition PLC_PSUBD_AVX :: u32 where "PLC_PSUBD_AVX = PLC_OP_DOUBLE OR PLC_OP_PACKED OR PLC_OP_SUB OR PLC_OP_AVX"
definition PLC_PMULD_AVX :: u32 where "PLC_PMULD_AVX = PLC_OP_DOUBLE OR PLC_OP_PACKED OR PLC_OP_MUL OR PLC_OP_AVX"
definition PLC_PDIVD_AVX :: u32 where "PLC_PDIVD_AVX = PLC_OP_DOUBLE OR PLC_OP_PACKED OR PLC_OP_DIV OR PLC_OP_AVX"
definition PLC_PADDS_SSE_128 :: u32 where "PLC_PADDS_SSE_128 = PLC_PADDS_SSE OR PLC_OP_128"
definition PLC_PSUBS_SSE_128 :: u32 where "PLC_PSUBS_SSE_128 = PLC_PSUBS_SSE OR PLC_OP_128"
definition PLC_PMULS_SSE_128 :: u32 where "PLC_PMULS_SSE_128 = PLC_PMULS_SSE OR PLC_OP_128"
definition PLC_PDIVS_SSE_128 :: u32 where "PLC_PDIVS_SSE_128 = PLC_PDIVS_SSE OR PLC_OP_128"
definition PLC_PADDS_AVX_128 :: u32 where "PLC_PADDS_AVX_128 = PLC_PADDS_AVX OR PLC_OP_128"
definition PLC_PSUBS_AVX_128 :: u32 where "PLC_PSUBS_AVX_128 = PLC_PSUBS_AVX OR PLC_OP_128"
definition PLC_PMULS_AVX_128 :: u32 where "PLC_PMULS_AVX_128 = PLC_PMULS_AVX OR PLC_OP_128"
definition PLC_PDIVS_AVX_128 :: u32 where "PLC_PDIVS_AVX_128 = PLC_PDIVS_AVX OR PLC_OP_128"
definition PLC_PADDD_SSE_128 :: u32 where "PLC_PADDD_SSE_128 = PLC_PADDD_SSE OR PLC_OP_128"
definition PLC_PSUBD_SSE_128 :: u32 where "PLC_PSUBD_SSE_128 = PLC_PSUBD_SSE OR PLC_OP_128"
definition PLC_PMULD_SSE_128 :: u32 where "PLC_PMULD_SSE_128 = PLC_PMULD_SSE OR PLC_OP_128"
definition PLC_PDIVD_SSE_128 :: u32 where "PLC_PDIVD_SSE_128 = PLC_PDIVD_SSE OR PLC_OP_128"
definition PLC_PADDD_AVX_128 :: u32 where "PLC_PADDD_AVX_128 = PLC_PADDD_AVX OR PLC_OP_128"
definition PLC_PSUBD_AVX_128 :: u32 where "PLC_PSUBD_AVX_128 = PLC_PSUBD_AVX OR PLC_OP_128"
definition PLC_PMULD_AVX_128 :: u32 where "PLC_PMULD_AVX_128 = PLC_PMULD_AVX OR PLC_OP_128"
definition PLC_PDIVD_AVX_128 :: u32 where "PLC_PDIVD_AVX_128 = PLC_PDIVD_AVX OR PLC_OP_128"
definition PLC_PADDS_256 :: u32 where "PLC_PADDS_256 = PLC_PADDS_AVX OR PLC_OP_256"
definition PLC_PSUBS_256 :: u32 where "PLC_PSUBS_256 = PLC_PSUBS_AVX OR PLC_OP_256"
definition PLC_PMULS_256 :: u32 where "PLC_PMULS_256 = PLC_PMULS_AVX OR PLC_OP_256"
definition PLC_PDIVS_256 :: u32 where "PLC_PDIVS_256 = PLC_PDIVS_AVX OR PLC_OP_256"
definition PLC_PADDD_256 :: u32 where "PLC_PADDD_256 = PLC_PADDD_AVX OR PLC_OP_256"
definition PLC_PSUBD_256 :: u32 where "PLC_PSUBD_256 = PLC_PSUBD_AVX OR PLC_OP_256"
definition PLC_PMULD_256 :: u32 where "PLC_PMULD_256 = PLC_PMULD_AVX OR PLC_OP_256"
definition PLC_PDIVD_256 :: u32 where "PLC_PDIVD_256 = PLC_PDIVD_AVX OR PLC_OP_256"
definition PLC_PADDS_512 :: u32 where "PLC_PADDS_512 = PLC_PADDS_AVX OR PLC_OP_512"
definition PLC_PSUBS_512 :: u32 where "PLC_PSUBS_512 = PLC_PSUBS_AVX OR PLC_OP_512"
definition PLC_PMULS_512 :: u32 where "PLC_PMULS_512 = PLC_PMULS_AVX OR PLC_OP_512"
definition PLC_PDIVS_512 :: u32 where "PLC_PDIVS_512 = PLC_PDIVS_AVX OR PLC_OP_512"
definition PLC_PADDD_512 :: u32 where "PLC_PADDD_512 = PLC_PADDD_AVX OR PLC_OP_512"
definition PLC_PSUBD_512 :: u32 where "PLC_PSUBD_512 = PLC_PSUBD_AVX OR PLC_OP_512"
definition PLC_PMULD_512 :: u32 where "PLC_PMULD_512 = PLC_PMULD_AVX OR PLC_OP_512"
definition PLC_PDIVD_512 :: u32 where "PLC_PDIVD_512 = PLC_PDIVD_AVX OR PLC_OP_512"
definition PLC_A132SS :: u32 where "PLC_A132SS = PLC_OP_FLOAT OR PLC_OP_SCALAR OR PLC_OP_FMA OR PLC_OP_132 OR PLC_OP_AVX"
definition PLC_A213SS :: u32 where "PLC_A213SS = PLC_OP_FLOAT OR PLC_OP_SCALAR OR PLC_OP_FMA OR PLC_OP_213 OR PLC_OP_AVX"
definition PLC_A231SS :: u32 where "PLC_A231SS = PLC_OP_FLOAT OR PLC_OP_SCALAR OR PLC_OP_FMA OR PLC_OP_231 OR PLC_OP_AVX"
definition PLC_S132SS :: u32 where "PLC_S132SS = PLC_OP_FLOAT OR PLC_OP_SCALAR OR PLC_OP_FMS OR PLC_OP_132 OR PLC_OP_AVX"
definition PLC_S213SS :: u32 where "PLC_S213SS = PLC_OP_FLOAT OR PLC_OP_SCALAR OR PLC_OP_FMS OR PLC_OP_213 OR PLC_OP_AVX"
definition PLC_S231SS :: u32 where "PLC_S231SS = PLC_OP_FLOAT OR PLC_OP_SCALAR OR PLC_OP_FMS OR PLC_OP_231 OR PLC_OP_AVX"
definition PLC_A132SD :: u32 where "PLC_A132SD = PLC_OP_DOUBLE OR PLC_OP_SCALAR OR PLC_OP_FMA OR PLC_OP_132 OR PLC_OP_AVX"
definition PLC_A213SD :: u32 where "PLC_A213SD = PLC_OP_DOUBLE OR PLC_OP_SCALAR OR PLC_OP_FMA OR PLC_OP_213 OR PLC_OP_AVX"
definition PLC_A231SD :: u32 where "PLC_A231SD = PLC_OP_DOUBLE OR PLC_OP_SCALAR OR PLC_OP_FMA OR PLC_OP_231 OR PLC_OP_AVX"
definition PLC_S132SD :: u32 where "PLC_S132SD = PLC_OP_DOUBLE OR PLC_OP_SCALAR OR PLC_OP_FMS OR PLC_OP_132 OR PLC_OP_AVX"
definition PLC_S213SD :: u32 where "PLC_S213SD = PLC_OP_DOUBLE OR PLC_OP_SCALAR OR PLC_OP_FMS OR PLC_OP_213 OR PLC_OP_AVX"
definition PLC_S231SD :: u32 where "PLC_S231SD = PLC_OP_DOUBLE OR PLC_OP_SCALAR OR PLC_OP_FMS OR PLC_OP_231 OR PLC_OP_AVX"
definition PLC_A132PS :: u32 where "PLC_A132PS = PLC_OP_FLOAT OR PLC_OP_PACKED OR PLC_OP_FMA OR PLC_OP_132 OR PLC_OP_AVX"
definition PLC_A213PS :: u32 where "PLC_A213PS = PLC_OP_FLOAT OR PLC_OP_PACKED OR PLC_OP_FMA OR PLC_OP_213 OR PLC_OP_AVX"
definition PLC_A231PS :: u32 where "PLC_A231PS = PLC_OP_FLOAT OR PLC_OP_PACKED OR PLC_OP_FMA OR PLC_OP_231 OR PLC_OP_AVX"
definition PLC_S132PS :: u32 where "PLC_S132PS = PLC_OP_FLOAT OR PLC_OP_PACKED OR PLC_OP_FMS OR PLC_OP_132 OR PLC_OP_AVX"
definition PLC_S213PS :: u32 where "PLC_S213PS = PLC_OP_FLOAT OR PLC_OP_PACKED OR PLC_OP_FMS OR PLC_OP_213 OR PLC_OP_AVX"
definition PLC_S231PS :: u32 where "PLC_S231PS = PLC_OP_FLOAT OR PLC_OP_PACKED OR PLC_OP_FMS OR PLC_OP_231 OR PLC_OP_AVX"
definition PLC_A132PD :: u32 where "PLC_A132PD = PLC_OP_DOUBLE OR PLC_OP_PACKED OR PLC_OP_FMA OR PLC_OP_132 OR PLC_OP_AVX"
definition PLC_A213PD :: u32 where "PLC_A213PD = PLC_OP_DOUBLE OR PLC_OP_PACKED OR PLC_OP_FMA OR PLC_OP_213 OR PLC_OP_AVX"
definition PLC_A231PD :: u32 where "PLC_A231PD = PLC_OP_DOUBLE OR PLC_OP_PACKED OR PLC_OP_FMA OR PLC_OP_231 OR PLC_OP_AVX"
definition PLC_S132PD :: u32 where "PLC_S132PD = PLC_OP_DOUBLE OR PLC_OP_PACKED OR PLC_OP_FMS OR PLC_OP_132 OR PLC_OP_AVX"
definition PLC_S213PD :: u32 where "PLC_S213PD = PLC_OP_DOUBLE OR PLC_OP_PACKED OR PLC_OP_FMS OR PLC_OP_213 OR PLC_OP_AVX"
definition PLC_S231PD :: u32 where "PLC_S231PD = PLC_OP_DOUBLE OR PLC_OP_PACKED OR PLC_OP_FMS OR PLC_OP_231 OR PLC_OP_AVX"
definition PLC_NA132SS :: u32 where "PLC_NA132SS = PLC_A132SS OR PLC_OP_NEG"
definition PLC_NA213SS :: u32 where "PLC_NA213SS = PLC_A213SS OR PLC_OP_NEG"
definition PLC_NA231SS :: u32 where "PLC_NA231SS = PLC_A231SS OR PLC_OP_NEG"
definition PLC_NS132SS :: u32 where "PLC_NS132SS = PLC_S132SS OR PLC_OP_NEG"
definition PLC_NS213SS :: u32 where "PLC_NS213SS = PLC_S213SS OR PLC_OP_NEG"
definition PLC_NS231SS :: u32 where "PLC_NS231SS = PLC_S231SS OR PLC_OP_NEG"
definition PLC_NA132SD :: u32 where "PLC_NA132SD = PLC_A132SD OR PLC_OP_NEG"
definition PLC_NA213SD :: u32 where "PLC_NA213SD = PLC_A213SD OR PLC_OP_NEG"
definition PLC_NA231SD :: u32 where "PLC_NA231SD = PLC_A231SD OR PLC_OP_NEG"
definition PLC_NS132SD :: u32 where "PLC_NS132SD = PLC_S132SD OR PLC_OP_NEG"
definition PLC_NS213SD :: u32 where "PLC_NS213SD = PLC_S213SD OR PLC_OP_NEG"
definition PLC_NS231SD :: u32 where "PLC_NS231SD = PLC_S231SD OR PLC_OP_NEG"
definition PLC_NA132PS :: u32 where "PLC_NA132PS = PLC_A132PS OR PLC_OP_NEG"
definition PLC_NA213PS :: u32 where "PLC_NA213PS = PLC_A213PS OR PLC_OP_NEG"
definition PLC_NA231PS :: u32 where "PLC_NA231PS = PLC_A231PS OR PLC_OP_NEG"
definition PLC_NS132PS :: u32 where "PLC_NS132PS = PLC_S132PS OR PLC_OP_NEG"
definition PLC_NS213PS :: u32 where "PLC_NS213PS = PLC_S213PS OR PLC_OP_NEG"
definition PLC_NS231PS :: u32 where "PLC_NS231PS = PLC_S231PS OR PLC_OP_NEG"
definition PLC_NA132PD :: u32 where "PLC_NA132PD = PLC_A132PD OR PLC_OP_NEG"
definition PLC_NA213PD :: u32 where "PLC_NA213PD = PLC_A213PD OR PLC_OP_NEG"
definition PLC_NA231PD :: u32 where "PLC_NA231PD = PLC_A231PD OR PLC_OP_NEG"
definition PLC_NS132PD :: u32 where "PLC_NS132PD = PLC_S132PD OR PLC_OP_NEG"
definition PLC_NS213PD :: u32 where "PLC_NS213PD = PLC_S213PD OR PLC_OP_NEG"
definition PLC_NS231PD :: u32 where "PLC_NS231PD = PLC_S231PD OR PLC_OP_NEG"

lemmas plc_category_defs =
  PLC_OTHER_def PLC_UNSUPPORTED_def PLC_ADDS_SSE_def PLC_SUBS_SSE_def
  PLC_MULS_SSE_def PLC_DIVS_SSE_def PLC_ADDS_AVX_def PLC_SUBS_AVX_def
  PLC_MULS_AVX_def PLC_DIVS_AVX_def PLC_ADDD_SSE_def PLC_SUBD_SSE_def
  PLC_MULD_SSE_def PLC_DIVD_SSE_def PLC_ADDD_AVX_def PLC_SUBD_AVX_def
  PLC_MULD_AVX_def PLC_DIVD_AVX_def PLC_PADDS_SSE_def PLC_PSUBS_SSE_def
  PLC_PMULS_SSE_def PLC_PDIVS_SSE_def PLC_PADDD_SSE_def PLC_PSUBD_SSE_def
  PLC_PMULD_SSE_def PLC_PDIVD_SSE_def PLC_PADDS_AVX_def PLC_PSUBS_AVX_def
  PLC_PMULS_AVX_def PLC_PDIVS_AVX_def PLC_PADDD_AVX_def PLC_PSUBD_AVX_def
  PLC_PMULD_AVX_def PLC_PDIVD_AVX_def PLC_PADDS_SSE_128_def PLC_PSUBS_SSE_128_def
  PLC_PMULS_SSE_128_def PLC_PDIVS_SSE_128_def PLC_PADDS_AVX_128_def PLC_PSUBS_AVX_128_def
  PLC_PMULS_AVX_128_def PLC_PDIVS_AVX_128_def PLC_PADDD_SSE_128_def PLC_PSUBD_SSE_128_def
  PLC_PMULD_SSE_128_def PLC_PDIVD_SSE_128_def PLC_PADDD_AVX_128_def PLC_PSUBD_AVX_128_def
  PLC_PMULD_AVX_128_def PLC_PDIVD_AVX_128_def PLC_PADDS_256_def PLC_PSUBS_256_def
  PLC_PMULS_256_def PLC_PDIVS_256_def PLC_PADDD_256_def PLC_PSUBD_256_def
  PLC_PMULD_256_def PLC_PDIVD_256_def PLC_PADDS_512_def PLC_PSUBS_512_def
  PLC_PMULS_512_def PLC_PDIVS_512_def PLC_PADDD_512_def PLC_PSUBD_512_def
  PLC_PMULD_512_def PLC_PDIVD_512_def PLC_A132SS_def PLC_A213SS_def
  PLC_A231SS_def PLC_S132SS_def PLC_S213SS_def PLC_S231SS_def
  PLC_A132SD_def PLC_A213SD_def PLC_A231SD_def PLC_S132SD_def
  PLC_S213SD_def PLC_S231SD_def PLC_A132PS_def PLC_A213PS_def
  PLC_A231PS_def PLC_S132PS_def PLC_S213PS_def PLC_S231PS_def
  PLC_A132PD_def PLC_A213PD_def PLC_A231PD_def PLC_S132PD_def
  PLC_S213PD_def PLC_S231PD_def PLC_NA132SS_def PLC_NA213SS_def
  PLC_NA231SS_def PLC_NS132SS_def PLC_NS213SS_def PLC_NS231SS_def
  PLC_NA132SD_def PLC_NA213SD_def PLC_NA231SD_def PLC_NS132SD_def
  PLC_NS213SD_def PLC_NS231SD_def PLC_NA132PS_def PLC_NA213PS_def
  PLC_NA231PS_def PLC_NS132PS_def PLC_NS213PS_def PLC_NS231PS_def
  PLC_NA132PD_def PLC_NA213PD_def PLC_NA231PD_def PLC_NS132PD_def
  PLC_NS213PD_def PLC_NS231PD_def

section \<open>Instructions\<close>

text \<open>An opcode is its mnemonic: \<open>OP_vaddpd\<close> is \<open>''vaddpd''\<close>.\<close>

type_synonym opcode = string

record fp_instr =
  fi_opcode :: opcode
  fi_evex :: bool
  fi_src_sizes :: "u32 list"

text \<open>The loop that takes the largest source, then the switch on it.\<close>

definition get_size_flag :: "fp_instr \<Rightarrow> u32" where
  "get_size_flag instr =
     (let max_size = fold (\<lambda>curr_size max_size. if curr_size > max_size then curr_size else max_size)
                       (fi_src_sizes instr) 0
      in if max_size = 16 then PLC_OP_128
         else if max_size = 32 then PLC_OP_256
         else if max_size = 64 then PLC_OP_512
         else 0)"

text \<open>
  The cases of the switch on the opcode, in the order of the source: the category, and whether
  the size flag is added to it.
\<close>

definition opcode_cases :: "(opcode \<times> u32 \<times> bool) list" where
  "opcode_cases =
     [(''addss'', PLC_ADDS_SSE, False), (''addsd'', PLC_ADDD_SSE, False),
      (''subsd'', PLC_SUBD_SSE, False), (''subss'', PLC_SUBS_SSE, False),
      (''mulsd'', PLC_MULD_SSE, False), (''mulss'', PLC_MULS_SSE, False),
      (''divsd'', PLC_DIVD_SSE, False), (''divss'', PLC_DIVS_SSE, False),
      (''vaddss'', PLC_ADDS_AVX, False), (''vaddsd'', PLC_ADDD_AVX, False),
      (''vsubsd'', PLC_SUBD_AVX, False), (''vsubss'', PLC_SUBS_AVX, False),
      (''vmulsd'', PLC_MULD_AVX, False), (''vmulss'', PLC_MULS_AVX, False),
      (''vdivsd'', PLC_DIVD_AVX, False), (''vdivss'', PLC_DIVS_AVX, False),
      (''addps'', PLC_PADDS_SSE_128, False), (''addpd'', PLC_PADDD_SSE_128, False),
      (''subps'', PLC_PSUBS_SSE_128, False), (''subpd'', PLC_PSUBD_SSE_128, False),
      (''mulps'', PLC_PMULS_SSE_128, False), (''mulpd'', PLC_PMULD_SSE_128, False),
      (''divps'', PLC_PDIVS_SSE_128, False), (''divpd'', PLC_PDIVD_SSE_128, False),
      (''vaddpd'', PLC_PADDD_AVX, True), (''vaddps'', PLC_PADDS_AVX, True),
      (''vsubps'', PLC_PSUBS_AVX, True), (''vsubpd'', PLC_PSUBD_AVX, True),
      (''vmulps'', PLC_PMULS_AVX, True), (''vmulpd'', PLC_PMULD_AVX, True),
      (''vdivps'', PLC_PDIVS_AVX, True), (''vdivpd'', PLC_PDIVD_AVX, True),
      (''vfmadd132ss'', PLC_A132SS, True), (''vfmadd132sd'', PLC_A132SD, True),
      (''vfmadd213ss'', PLC_A213SS, True), (''vfmadd213sd'', PLC_A213SD, True),
      (''vfmadd231ss'', PLC_A231SS, True), (''vfmadd231sd'', PLC_A231SD, True),
      (''vfmsub132ss'', PLC_S132SS, True), (''vfmsub132sd'', PLC_S132SD, True),
      (''vfmsub213ss'', PLC_S213SS, True), (''vfmsub213sd'', PLC_S213SD, True),
      (''vfmsub231ss'', PLC_S231SS, True), (''vfmsub231sd'', PLC_S231SD, True),
      (''vfmadd132ps'', PLC_A132PS, True), (''vfmadd132pd'', PLC_A132PD, True),
      (''vfmadd213ps'', PLC_A213PS, True), (''vfmadd213pd'', PLC_A213PD, True),
      (''vfmadd231ps'', PLC_A231PS, True), (''vfmadd231pd'', PLC_A231PD, True),
      (''vfmsub132ps'', PLC_S132PS, True), (''vfmsub132pd'', PLC_S132PD, True),
      (''vfmsub213ps'', PLC_S213PS, True), (''vfmsub213pd'', PLC_S213PD, True),
      (''vfmsub231ps'', PLC_S231PS, True), (''vfmsub231pd'', PLC_S231PD, True),
      (''vfnmadd132ss'', PLC_NA132SS, True), (''vfnmadd132sd'', PLC_NA132SD, True),
      (''vfnmadd213ss'', PLC_NA213SS, True), (''vfnmadd213sd'', PLC_NA213SD, True),
      (''vfnmadd231ss'', PLC_NA231SS, True), (''vfnmadd231sd'', PLC_NA231SD, True),
      (''vfnmsub132ss'', PLC_NS132SS, True), (''vfnmsub132sd'', PLC_NS132SD, True),
      (''vfnmsub213ss'', PLC_NS213SS, True), (''vfnmsub213sd'', PLC_NS213SD, True),
      (''vfnmsub231ss'', PLC_NS231SS, True), (''vfnmsub231sd'', PLC_NS231SD, True),
      (''vfnmadd132ps'', PLC_NA132PS, True), (''vfnmadd132pd'', PLC_NA132PD, True),
      (''vfnmadd213ps'', PLC_NA213PS, True), (''vfnmadd213pd'', PLC_NA213PD, True),
      (''vfnmadd231ps'', PLC_NA231PS, True), (''vfnmadd231pd'', PLC_NA231PD, True),
      (''vfnmsub132ps'', PLC_NS132PS, True), (''vfnmsub132pd'', PLC_NS132PD, True),
      (''vfnmsub213ps'', PLC_NS213PS, True), (''vfnmsub213pd'', PLC_NS213PD, True),
      (''vfnmsub231ps'', PLC_NS231PS, True), (''vfnmsub231pd'', PLC_NS231PD, True)]"

definition plc_get_operation_category :: "fp_instr \<Rightarrow> u32" where
  "plc_get_operation_category instr =
     (if fi_evex instr then PLC_UNSUPPORTED
      else case map_of opcode_cases (fi_opcode instr) of
             Some (c, sized) \<Rightarrow> if sized then c OR get_size_flag instr else c
           | None \<Rightarrow> PLC_OTHER)"


section \<open>Tests on a category\<close>

definition plc_is_double :: "u32 \<Rightarrow> bool" where "plc_is_double oc = (oc AND PLC_OP_DOUBLE \<noteq> 0)"
definition plc_is_float :: "u32 \<Rightarrow> bool" where "plc_is_float oc = (oc AND PLC_OP_FLOAT \<noteq> 0)"
definition plc_is_packed :: "u32 \<Rightarrow> bool" where "plc_is_packed oc = (oc AND PLC_OP_PACKED \<noteq> 0)"
definition plc_is_scalar :: "u32 \<Rightarrow> bool" where "plc_is_scalar oc = (oc AND PLC_OP_SCALAR \<noteq> 0)"
definition plc_is_add :: "u32 \<Rightarrow> bool" where "plc_is_add oc = (oc AND PLC_OP_ADD \<noteq> 0)"
definition plc_is_sub :: "u32 \<Rightarrow> bool" where "plc_is_sub oc = (oc AND PLC_OP_SUB \<noteq> 0)"
definition plc_is_mul :: "u32 \<Rightarrow> bool" where "plc_is_mul oc = (oc AND PLC_OP_MUL \<noteq> 0)"
definition plc_is_div :: "u32 \<Rightarrow> bool" where "plc_is_div oc = (oc AND PLC_OP_DIV \<noteq> 0)"
definition plc_is_fma :: "u32 \<Rightarrow> bool" where "plc_is_fma oc = (oc AND PLC_OP_FMA \<noteq> 0)"
definition plc_is_fms :: "u32 \<Rightarrow> bool" where "plc_is_fms oc = (oc AND PLC_OP_FMS \<noteq> 0)"
definition plc_is_fma132 :: "u32 \<Rightarrow> bool" where "plc_is_fma132 oc = (oc AND PLC_OP_132 \<noteq> 0)"
definition plc_is_fma213 :: "u32 \<Rightarrow> bool" where "plc_is_fma213 oc = (oc AND PLC_OP_213 \<noteq> 0)"
definition plc_is_fma231 :: "u32 \<Rightarrow> bool" where "plc_is_fma231 oc = (oc AND PLC_OP_231 \<noteq> 0)"
definition plc_is_negated :: "u32 \<Rightarrow> bool" where "plc_is_negated oc = (oc AND PLC_OP_NEG \<noteq> 0)"
definition plc_is_128 :: "u32 \<Rightarrow> bool" where "plc_is_128 oc = (oc AND PLC_OP_128 \<noteq> 0)"
definition plc_is_256 :: "u32 \<Rightarrow> bool" where "plc_is_256 oc = (oc AND PLC_OP_256 \<noteq> 0)"
definition plc_is_512 :: "u32 \<Rightarrow> bool" where "plc_is_512 oc = (oc AND PLC_OP_512 \<noteq> 0)"
definition plc_is_fused :: "u32 \<Rightarrow> bool" where "plc_is_fused oc = (oc AND PLC_OP_FUSED \<noteq> 0)"
definition plc_is_instrumented :: "u32 \<Rightarrow> bool" where
  "plc_is_instrumented oc = (oc \<noteq> PLC_OP_OTHER \<and> oc \<noteq> PLC_OP_UNSUPPORTED)"

lemmas plc_test_defs =
  plc_is_double_def plc_is_float_def plc_is_packed_def plc_is_scalar_def
  plc_is_add_def plc_is_sub_def plc_is_mul_def plc_is_div_def
  plc_is_fma_def plc_is_fms_def plc_is_fma132_def plc_is_fma213_def
  plc_is_fma231_def plc_is_negated_def plc_is_128_def plc_is_256_def
  plc_is_512_def plc_is_fused_def plc_is_instrumented_def

section \<open>What a mnemonic says\<close>

text \<open>
  The reading of a mnemonic by the instruction set's own naming scheme, independent of the
  switch: the VEX prefix letter, the operation, the order of a fused operation's operands, and
  the two letters of the element type.
\<close>

datatype fkind = FAdd | FSub | FMul | FDiv | FMadd | FMsub | FNmadd | FNmsub

datatype forder = NoOrder | O132 | O213 | O231

record mnemonic =
  mn_avx :: bool
  mn_kind :: fkind
  mn_order :: forder
  mn_packed :: bool
  mn_double :: bool

primrec kind_name :: "fkind \<Rightarrow> string" where
  "kind_name FAdd = ''add''"
| "kind_name FSub = ''sub''"
| "kind_name FMul = ''mul''"
| "kind_name FDiv = ''div''"
| "kind_name FMadd = ''fmadd''"
| "kind_name FMsub = ''fmsub''"
| "kind_name FNmadd = ''fnmadd''"
| "kind_name FNmsub = ''fnmsub''"

primrec order_name :: "forder \<Rightarrow> string" where
  "order_name NoOrder = ''''"
| "order_name O132 = ''132''"
| "order_name O213 = ''213''"
| "order_name O231 = ''231''"

definition mnemonic_name :: "mnemonic \<Rightarrow> string" where
  "mnemonic_name m =
     (if mn_avx m then ''v'' else '''') @ kind_name (mn_kind m) @ order_name (mn_order m) @
     (if mn_packed m then ''p'' else ''s'') @ (if mn_double m then ''d'' else ''s'')"

primrec kind_flags :: "fkind \<Rightarrow> u32" where
  "kind_flags FAdd = PLC_OP_ADD"
| "kind_flags FSub = PLC_OP_SUB"
| "kind_flags FMul = PLC_OP_MUL"
| "kind_flags FDiv = PLC_OP_DIV"
| "kind_flags FMadd = PLC_OP_FMA"
| "kind_flags FMsub = PLC_OP_FMS"
| "kind_flags FNmadd = PLC_OP_FMA OR PLC_OP_NEG"
| "kind_flags FNmsub = PLC_OP_FMS OR PLC_OP_NEG"

primrec order_flags :: "forder \<Rightarrow> u32" where
  "order_flags NoOrder = 0"
| "order_flags O132 = PLC_OP_132"
| "order_flags O213 = PLC_OP_213"
| "order_flags O231 = PLC_OP_231"

definition kind_fused :: "fkind \<Rightarrow> bool" where
  "kind_fused k \<longleftrightarrow> k \<in> {FMadd, FMsub, FNmadd, FNmsub}"

definition mnemonic_flags :: "mnemonic \<Rightarrow> u32" where
  "mnemonic_flags m =
     (if mn_double m then PLC_OP_DOUBLE else PLC_OP_FLOAT) OR
     (if mn_packed m then PLC_OP_PACKED else PLC_OP_SCALAR) OR
     kind_flags (mn_kind m) OR order_flags (mn_order m) OR
     (if mn_avx m then PLC_OP_AVX else PLC_OP_SSE OR (if mn_packed m then PLC_OP_128 else 0))"

text \<open>Whether the vector length depends on the operands.\<close>

definition mnemonic_sized :: "mnemonic \<Rightarrow> bool" where
  "mnemonic_sized m \<longleftrightarrow> mn_avx m \<and> (mn_packed m \<or> kind_fused (mn_kind m))"

text \<open>Every mnemonic of the scheme, in the order of the switch.\<close>

definition all_mnemonics :: "mnemonic list" where
  "all_mnemonics = map (\<lambda>(v, k, r, p, d).
       \<lparr>mn_avx = v, mn_kind = k, mn_order = r, mn_packed = p, mn_double = d\<rparr>)
     [(False, FAdd, NoOrder, False, False), (False, FAdd, NoOrder, False, True), (False, FSub, NoOrder, False, True),
      (False, FSub, NoOrder, False, False), (False, FMul, NoOrder, False, True), (False, FMul, NoOrder, False, False),
      (False, FDiv, NoOrder, False, True), (False, FDiv, NoOrder, False, False), (True, FAdd, NoOrder, False, False),
      (True, FAdd, NoOrder, False, True), (True, FSub, NoOrder, False, True), (True, FSub, NoOrder, False, False),
      (True, FMul, NoOrder, False, True), (True, FMul, NoOrder, False, False), (True, FDiv, NoOrder, False, True),
      (True, FDiv, NoOrder, False, False), (False, FAdd, NoOrder, True, False), (False, FAdd, NoOrder, True, True),
      (False, FSub, NoOrder, True, False), (False, FSub, NoOrder, True, True), (False, FMul, NoOrder, True, False),
      (False, FMul, NoOrder, True, True), (False, FDiv, NoOrder, True, False), (False, FDiv, NoOrder, True, True),
      (True, FAdd, NoOrder, True, True), (True, FAdd, NoOrder, True, False), (True, FSub, NoOrder, True, False),
      (True, FSub, NoOrder, True, True), (True, FMul, NoOrder, True, False), (True, FMul, NoOrder, True, True),
      (True, FDiv, NoOrder, True, False), (True, FDiv, NoOrder, True, True), (True, FMadd, O132, False, False),
      (True, FMadd, O132, False, True), (True, FMadd, O213, False, False), (True, FMadd, O213, False, True),
      (True, FMadd, O231, False, False), (True, FMadd, O231, False, True), (True, FMsub, O132, False, False),
      (True, FMsub, O132, False, True), (True, FMsub, O213, False, False), (True, FMsub, O213, False, True),
      (True, FMsub, O231, False, False), (True, FMsub, O231, False, True), (True, FMadd, O132, True, False),
      (True, FMadd, O132, True, True), (True, FMadd, O213, True, False), (True, FMadd, O213, True, True),
      (True, FMadd, O231, True, False), (True, FMadd, O231, True, True), (True, FMsub, O132, True, False),
      (True, FMsub, O132, True, True), (True, FMsub, O213, True, False), (True, FMsub, O213, True, True),
      (True, FMsub, O231, True, False), (True, FMsub, O231, True, True), (True, FNmadd, O132, False, False),
      (True, FNmadd, O132, False, True), (True, FNmadd, O213, False, False), (True, FNmadd, O213, False, True),
      (True, FNmadd, O231, False, False), (True, FNmadd, O231, False, True), (True, FNmsub, O132, False, False),
      (True, FNmsub, O132, False, True), (True, FNmsub, O213, False, False), (True, FNmsub, O213, False, True),
      (True, FNmsub, O231, False, False), (True, FNmsub, O231, False, True), (True, FNmadd, O132, True, False),
      (True, FNmadd, O132, True, True), (True, FNmadd, O213, True, False), (True, FNmadd, O213, True, True),
      (True, FNmadd, O231, True, False), (True, FNmadd, O231, True, True), (True, FNmsub, O132, True, False),
      (True, FNmsub, O132, True, True), (True, FNmsub, O213, True, False), (True, FNmsub, O213, True, True),
      (True, FNmsub, O231, True, False), (True, FNmsub, O231, True, True)]"

definition mnemonic_wf :: "mnemonic \<Rightarrow> bool" where
  "mnemonic_wf m \<longleftrightarrow>
     (if kind_fused (mn_kind m) then mn_avx m \<and> mn_order m \<noteq> NoOrder else mn_order m = NoOrder)"

lemma all_mnemonics_wf: "list_all mnemonic_wf all_mnemonics"
  by code_simp

lemma wf_in_all_mnemonics: "mnemonic_wf m \<Longrightarrow> m \<in> set all_mnemonics"
  by (cases m; cases "mn_kind m"; cases "mn_order m"; cases "mn_avx m"; cases "mn_packed m"; cases "mn_double m")
    (simp_all add: mnemonic_wf_def kind_fused_def all_mnemonics_def)

lemma opcode_cases_mnemonics:
  "opcode_cases = map (\<lambda>m. (mnemonic_name m, mnemonic_flags m, mnemonic_sized m)) all_mnemonics"
  by code_simp

lemma map_of_map_find:
  "map_of (map (\<lambda>m. (f m, g m)) ms) k = map_option g (find (\<lambda>m. f m = k) ms)"
  by (induction ms) auto

lemma category_cases:
  obtains (other) "plc_get_operation_category i = PLC_OTHER"
  | (mnem) m where "mnemonic_wf m" "\<not> fi_evex i" "mnemonic_name m = fi_opcode i"
      "plc_get_operation_category i = mnemonic_flags m OR (if mnemonic_sized m then get_size_flag i else 0)"
proof (cases "fi_evex i")
  case True
  then show ?thesis
    using other by (simp add: plc_get_operation_category_def plc_category_defs PLC_OP_UNSUPPORTED_def)
next
  case False
  show ?thesis
  proof (cases "find (\<lambda>m. mnemonic_name m = fi_opcode i) all_mnemonics")
    case None
    with False show ?thesis
      by (intro other) (simp add: plc_get_operation_category_def opcode_cases_mnemonics map_of_map_find)
  next
    case (Some m)
    then have "m \<in> set all_mnemonics" "mnemonic_name m = fi_opcode i" by (auto simp: find_Some_iff)
    with all_mnemonics_wf have "mnemonic_wf m" by (simp add: list_all_iff)
    with Some False \<open>mnemonic_name m = fi_opcode i\<close> show ?thesis
      by (intro mnem [of m]; cases "mnemonic_sized m")
        (simp_all add: plc_get_operation_category_def opcode_cases_mnemonics map_of_map_find)
  qed
qed

text \<open>The length of a vector operation in bytes: that of its longest source.\<close>

definition vector_length :: "fp_instr \<Rightarrow> nat" where
  "vector_length fi = fold max (map unat (fi_src_sizes fi)) 0"

lemma fold_max_unat:
  "unat (fold (\<lambda>a b. if a > b then a else b) (xs :: u32 list) b) = fold max (map unat xs) (unat b)"
  by (induction xs arbitrary: b) (simp_all add: max_def word_less_nat_alt)

lemma get_size_flag_length:
  "get_size_flag fi = (if vector_length fi = 16 then PLC_OP_128 else if vector_length fi = 32 then PLC_OP_256
     else if vector_length fi = 64 then PLC_OP_512 else 0)"
proof -
  let ?x = "fold (\<lambda>a b. if a > b then a else b) (fi_src_sizes fi) 0"
  have u: "unat ?x = vector_length fi" using fold_max_unat [of "fi_src_sizes fi" 0] by (simp add: vector_length_def)
  have "(?x = 16) = (vector_length fi = 16)" "(?x = 32) = (vector_length fi = 32)" "(?x = 64) = (vector_length fi = 64)"
    unfolding u [symmetric] by (simp_all add: word_unat_eq_iff)
  then show ?thesis by (simp add: get_size_flag_def Let_def)
qed

section \<open>Properties\<close>

text \<open>C3. The classifier reads an opcode exactly as the naming scheme of the instruction set does:
  an instruction with an EVEX prefix is unsupported, an opcode outside the scheme is \<open>PLC_OTHER\<close>,
  and otherwise the category has precisely the bits for the precision, packing, operation, operand
  order, sign and instruction set that its mnemonic spells, plus the bit for the length of the
  longest source where the instruction set leaves it open.\<close>

theorem category_of_mnemonic:
  "plc_get_operation_category i =
     (if fi_evex i then PLC_UNSUPPORTED
      else case find (\<lambda>m. mnemonic_name m = fi_opcode i) all_mnemonics of
             None \<Rightarrow> PLC_OTHER
           | Some m \<Rightarrow> mnemonic_flags m OR
               (if mnemonic_sized m
                then if vector_length i = 16 then PLC_OP_128 else if vector_length i = 32 then PLC_OP_256
                     else if vector_length i = 64 then PLC_OP_512 else 0
                else 0))"
  unfolding get_size_flag_length [symmetric]
  by (auto simp: plc_get_operation_category_def opcode_cases_mnemonics map_of_map_find split: option.split)

definition one_of :: "bool list \<Rightarrow> bool" where
  "one_of bs \<longleftrightarrow> length (filter id bs) = 1"

definition category_ok :: "u32 \<Rightarrow> bool" where
  "category_ok oc \<longleftrightarrow>
     one_of [plc_is_double oc, plc_is_float oc] \<and> one_of [plc_is_packed oc, plc_is_scalar oc] \<and>
     one_of [plc_is_add oc, plc_is_sub oc, plc_is_mul oc, plc_is_div oc, plc_is_fma oc, plc_is_fms oc] \<and>
     (if plc_is_fused oc then one_of [plc_is_fma132 oc, plc_is_fma213 oc, plc_is_fma231 oc]
      else \<not> (plc_is_fma132 oc \<or> plc_is_fma213 oc \<or> plc_is_fma231 oc \<or> plc_is_negated oc)) \<and>
     one_of [oc AND PLC_OP_SSE \<noteq> 0, oc AND PLC_OP_AVX \<noteq> 0] \<and>
     one_of [plc_is_128 oc, plc_is_256 oc, plc_is_512 oc, oc AND PLC_SIMD_TYPE_MASK = 0] \<and>
     (plc_is_fused oc \<longrightarrow> oc AND PLC_OP_AVX \<noteq> 0)"

lemma get_size_flag_cases: "get_size_flag i \<in> {0, PLC_OP_128, PLC_OP_256, PLC_OP_512}"
  by (simp add: get_size_flag_def Let_def)

text \<open>A flag is a bit, and a test reads it.\<close>

lemma flag_pows:
  "PLC_OP_DOUBLE = 2 ^ 0" "PLC_OP_FLOAT = 2 ^ 1" "PLC_OP_PACKED = 2 ^ 2" "PLC_OP_SCALAR = 2 ^ 3"
  "PLC_OP_ADD = 2 ^ 4" "PLC_OP_SUB = 2 ^ 5" "PLC_OP_MUL = 2 ^ 6" "PLC_OP_DIV = 2 ^ 7"
  "PLC_OP_FMA = 2 ^ 8" "PLC_OP_FMS = 2 ^ 9" "PLC_OP_132 = 2 ^ 10" "PLC_OP_213 = 2 ^ 11"
  "PLC_OP_231 = 2 ^ 12" "PLC_OP_NEG = 2 ^ 13" "PLC_OP_128 = 2 ^ 14" "PLC_OP_256 = 2 ^ 15"
  "PLC_OP_512 = 2 ^ 16" "PLC_OP_SSE = 2 ^ 17" "PLC_OP_AVX = 2 ^ 18"
  by (simp_all add: plc_flag_defs)

lemma flag_bits:
  "bit PLC_OP_DOUBLE n = (n = 0)" "bit PLC_OP_FLOAT n = (n = 1)" "bit PLC_OP_PACKED n = (n = 2)"
  "bit PLC_OP_SCALAR n = (n = 3)" "bit PLC_OP_ADD n = (n = 4)" "bit PLC_OP_SUB n = (n = 5)"
  "bit PLC_OP_MUL n = (n = 6)" "bit PLC_OP_DIV n = (n = 7)" "bit PLC_OP_FMA n = (n = 8)"
  "bit PLC_OP_FMS n = (n = 9)" "bit PLC_OP_132 n = (n = 10)" "bit PLC_OP_213 n = (n = 11)"
  "bit PLC_OP_231 n = (n = 12)" "bit PLC_OP_NEG n = (n = 13)" "bit PLC_OP_128 n = (n = 14)"
  "bit PLC_OP_256 n = (n = 15)" "bit PLC_OP_512 n = (n = 16)" "bit PLC_OP_SSE n = (n = 17)"
  "bit PLC_OP_AVX n = (n = 18)"
  unfolding flag_pows bit_exp_iff by auto

lemma flag_tests:
  "plc_is_double oc = bit oc 0" "plc_is_float oc = bit oc 1" "plc_is_packed oc = bit oc 2"
  "plc_is_scalar oc = bit oc 3" "plc_is_add oc = bit oc 4" "plc_is_sub oc = bit oc 5"
  "plc_is_mul oc = bit oc 6" "plc_is_div oc = bit oc 7" "plc_is_fma oc = bit oc 8"
  "plc_is_fms oc = bit oc 9" "plc_is_fma132 oc = bit oc 10" "plc_is_fma213 oc = bit oc 11"
  "plc_is_fma231 oc = bit oc 12" "plc_is_negated oc = bit oc 13" "plc_is_128 oc = bit oc 14"
  "plc_is_256 oc = bit oc 15" "plc_is_512 oc = bit oc 16"
  "(oc AND PLC_OP_SSE \<noteq> 0) = bit oc 17" "(oc AND PLC_OP_AVX \<noteq> 0) = bit oc 18"
  unfolding plc_test_defs flag_pows and_exp_eq_0_iff_not_bit by simp_all

lemma mask_tests:
  "(oc AND PLC_SIMD_TYPE_MASK = 0) = (\<not> bit oc 14 \<and> \<not> bit oc 15 \<and> \<not> bit oc 16)"
  "plc_is_fused oc = (bit oc 8 \<or> bit oc 9)"
proof -
  have m: "PLC_SIMD_TYPE_MASK = 2 ^ 14 OR 2 ^ 15 OR 2 ^ 16" "PLC_OP_FUSED = 2 ^ 8 OR 2 ^ 9"
    by (simp_all add: plc_flag_defs)
  show "(oc AND PLC_SIMD_TYPE_MASK = 0) = (\<not> bit oc 14 \<and> \<not> bit oc 15 \<and> \<not> bit oc 16)"
    unfolding m bit.conj_disj_distrib or_eq_0_iff and_exp_eq_0_iff_not_bit ..
  show "plc_is_fused oc = (bit oc 8 \<or> bit oc 9)"
    unfolding plc_is_fused_def m bit.conj_disj_distrib or_eq_0_iff and_exp_eq_0_iff_not_bit by simp
qed

text \<open>A well-formed mnemonic and a length, as one category.\<close>

definition mnemonic_category :: "mnemonic \<Rightarrow> u32 \<Rightarrow> u32" where
  "mnemonic_category m f = mnemonic_flags m OR f"

definition size_flag_of :: "mnemonic \<Rightarrow> u32 \<Rightarrow> bool" where
  "size_flag_of m f \<longleftrightarrow> (if mnemonic_sized m then f \<in> {0, PLC_OP_128, PLC_OP_256, PLC_OP_512} else f = 0)"

lemma kind_flags_bits:
  "bit (kind_flags k) n \<longleftrightarrow>
     n = 4 \<and> k = FAdd \<or> n = 5 \<and> k = FSub \<or> n = 6 \<and> k = FMul \<or> n = 7 \<and> k = FDiv \<or>
     n = 8 \<and> k \<in> {FMadd, FNmadd} \<or> n = 9 \<and> k \<in> {FMsub, FNmsub} \<or> n = 13 \<and> k \<in> {FNmadd, FNmsub}"
  by (cases k) (auto simp: flag_bits bit_or_iff)

lemma order_flags_bits:
  "bit (order_flags r) n \<longleftrightarrow>
     n = 10 \<and> r = O132 \<or> n = 11 \<and> r = O213 \<or> n = 12 \<and> r = O231"
  by (cases r) (auto simp: flag_bits)

lemma mnemonic_flags_bits:
  "bit (mnemonic_flags m) n \<longleftrightarrow>
     n = 0 \<and> mn_double m \<or> n = 1 \<and> \<not> mn_double m \<or> n = 2 \<and> mn_packed m \<or> n = 3 \<and> \<not> mn_packed m \<or>
     bit (kind_flags (mn_kind m)) n \<or> bit (order_flags (mn_order m)) n \<or>
     n = 18 \<and> mn_avx m \<or> n = 17 \<and> \<not> mn_avx m \<or> n = 14 \<and> \<not> mn_avx m \<and> mn_packed m"
  by (auto simp: mnemonic_flags_def flag_bits bit_or_iff)

lemma size_flags_distinct:
  "PLC_OP_128 \<noteq> PLC_OP_256" "PLC_OP_128 \<noteq> PLC_OP_512" "PLC_OP_256 \<noteq> PLC_OP_512"
  "PLC_OP_128 \<noteq> 0" "PLC_OP_256 \<noteq> 0" "PLC_OP_512 \<noteq> 0"
  by (simp_all add: plc_flag_defs)

lemma size_flag_bits:
  assumes "size_flag_of m f"
  shows "bit f n \<longleftrightarrow> f = PLC_OP_128 \<and> n = 14 \<or> f = PLC_OP_256 \<and> n = 15 \<or> f = PLC_OP_512 \<and> n = 16"
proof -
  have "f = 0 \<or> f = PLC_OP_128 \<or> f = PLC_OP_256 \<or> f = PLC_OP_512"
    using assms unfolding size_flag_of_def by (auto split: if_splits)
  then show ?thesis by (auto simp: flag_bits size_flags_distinct size_flags_distinct [symmetric])
qed

lemmas category_bits = mnemonic_category_def bit_or_iff mnemonic_flags_bits kind_flags_bits order_flags_bits

text \<open>What each test says of a category, in terms of the mnemonic.\<close>

lemma category_tests:
  assumes "size_flag_of m f"
  shows "plc_is_double (mnemonic_category m f) = mn_double m"
    "plc_is_float (mnemonic_category m f) = (\<not> mn_double m)"
    "plc_is_packed (mnemonic_category m f) = mn_packed m"
    "plc_is_scalar (mnemonic_category m f) = (\<not> mn_packed m)"
    "plc_is_add (mnemonic_category m f) = (mn_kind m = FAdd)"
    "plc_is_sub (mnemonic_category m f) = (mn_kind m = FSub)"
    "plc_is_mul (mnemonic_category m f) = (mn_kind m = FMul)"
    "plc_is_div (mnemonic_category m f) = (mn_kind m = FDiv)"
    "plc_is_fma (mnemonic_category m f) = (mn_kind m \<in> {FMadd, FNmadd})"
    "plc_is_fms (mnemonic_category m f) = (mn_kind m \<in> {FMsub, FNmsub})"
    "plc_is_fma132 (mnemonic_category m f) = (mn_order m = O132)"
    "plc_is_fma213 (mnemonic_category m f) = (mn_order m = O213)"
    "plc_is_fma231 (mnemonic_category m f) = (mn_order m = O231)"
    "plc_is_negated (mnemonic_category m f) = (mn_kind m \<in> {FNmadd, FNmsub})"
    "plc_is_fused (mnemonic_category m f) = kind_fused (mn_kind m)"
    "(mnemonic_category m f AND PLC_OP_SSE \<noteq> 0) = (\<not> mn_avx m)"
    "(mnemonic_category m f AND PLC_OP_AVX \<noteq> 0) = mn_avx m"
    "plc_is_128 (mnemonic_category m f) = (if mn_avx m then f = PLC_OP_128 else mn_packed m)"
    "plc_is_256 (mnemonic_category m f) = (mn_avx m \<and> f = PLC_OP_256)"
    "plc_is_512 (mnemonic_category m f) = (mn_avx m \<and> f = PLC_OP_512)"
  unfolding flag_tests mask_tests
  using assms
  by (auto simp: category_bits size_flag_bits [OF assms] kind_fused_def size_flag_of_def mnemonic_sized_def
      size_flags_distinct split: if_splits)

lemma category_tests_simd:
  "size_flag_of m f \<Longrightarrow> (mnemonic_category m f AND PLC_SIMD_TYPE_MASK = 0) =
     (if mn_avx m then f = 0 else \<not> mn_packed m)"
  unfolding mask_tests
  by (auto simp: category_bits size_flag_bits size_flag_of_def mnemonic_sized_def size_flags_distinct
      size_flags_distinct [symmetric] split: if_splits)

lemma category_ok_mnemonic:
  assumes "mnemonic_wf m" "size_flag_of m f"
  shows "category_ok (mnemonic_category m f)"
  unfolding category_ok_def category_tests [OF assms(2)] category_tests_simd [OF assms(2)]
  using assms
  by (cases "mn_kind m"; cases "mn_order m")
    (auto simp: one_of_def mnemonic_wf_def kind_fused_def size_flag_of_def mnemonic_sized_def size_flags_distinct
      size_flags_distinct [symmetric] split: if_splits)

lemma category_ok_instrumented:
  assumes "plc_is_instrumented (plc_get_operation_category i)"
  shows "category_ok (plc_get_operation_category i)"
proof (cases i rule: category_cases)
  case other
  with assms show ?thesis by (simp add: plc_is_instrumented_def PLC_OTHER_def)
next
  case (mnem m)
  have "size_flag_of m (if mnemonic_sized m then get_size_flag i else 0)"
    using get_size_flag_cases [of i] by (simp add: size_flag_of_def)
  from category_ok_mnemonic [OF mnem(1) this] show ?thesis
    unfolding mnem(4) mnemonic_category_def .
qed

text \<open>C11. Every category the client instruments is well-formed: it has exactly one precision, one
  packing, one operation, one instruction set and at most one vector length; it has an operand order
  exactly when it is a fused operation, and only fused operations are negated.\<close>

theorem instrumented_category_well_formed:
  assumes "plc_is_instrumented (plc_get_operation_category i)"
  shows "category_ok (plc_get_operation_category i)"
  by (rule category_ok_instrumented [OF assms])

theorem instrumented_category_well_formed_witness:
  "category_ok (plc_get_operation_category
     \<lparr>fi_opcode = ''vfmadd213ps'', fi_evex = False, fi_src_sizes = [32, 32, 32]\<rparr>)"
  by (rule instrumented_category_well_formed) code_simp


end
