(* ===== verification/Registers.thy ===== *)
theory Registers
  imports Plc_Prelude
begin

text \<open>
  The x86-64 register identifiers of DynamoRIO: the enumeration of \<open>core/arch/opnd.h\<close>, the table
  \<open>dr_reg_fixer\<close> of \<open>core/arch/x86/encode.c\<close> that maps a register to the one that contains it, the
  classifiers of \<open>core/arch/x86/instr.c\<close> and the conversions, overlap test and size of
  \<open>core/arch/opnd_shared.c\<close>. A \<open>reg_id_t\<close> is its number; an assertion that fails is a fault.
\<close>

type_synonym reg_id = nat

section \<open>The enumeration\<close>

definition DR_REG_NULL :: reg_id where "DR_REG_NULL = 0"
definition DR_REG_RAX :: reg_id where "DR_REG_RAX = 1"
definition DR_REG_RCX :: reg_id where "DR_REG_RCX = 2"
definition DR_REG_RDX :: reg_id where "DR_REG_RDX = 3"
definition DR_REG_RBX :: reg_id where "DR_REG_RBX = 4"
definition DR_REG_RSP :: reg_id where "DR_REG_RSP = 5"
definition DR_REG_RBP :: reg_id where "DR_REG_RBP = 6"
definition DR_REG_RSI :: reg_id where "DR_REG_RSI = 7"
definition DR_REG_RDI :: reg_id where "DR_REG_RDI = 8"
definition DR_REG_R8 :: reg_id where "DR_REG_R8 = 9"
definition DR_REG_R15 :: reg_id where "DR_REG_R15 = 16"
definition DR_REG_EAX :: reg_id where "DR_REG_EAX = 17"
definition DR_REG_R15D :: reg_id where "DR_REG_R15D = 32"
definition DR_REG_AX :: reg_id where "DR_REG_AX = 33"
definition DR_REG_R15W :: reg_id where "DR_REG_R15W = 48"
definition DR_REG_AL :: reg_id where "DR_REG_AL = 49"
definition DR_REG_AH :: reg_id where "DR_REG_AH = 53"
definition DR_REG_BH :: reg_id where "DR_REG_BH = 56"
definition DR_REG_SPL :: reg_id where "DR_REG_SPL = 65"
definition DR_REG_DIL :: reg_id where "DR_REG_DIL = 68"
definition DR_REG_MM0 :: reg_id where "DR_REG_MM0 = 69"
definition DR_REG_MM7 :: reg_id where "DR_REG_MM7 = 76"
definition DR_REG_XMM0 :: reg_id where "DR_REG_XMM0 = 77"
definition DR_REG_XMM15 :: reg_id where "DR_REG_XMM15 = 92"
definition DR_REG_XMM31 :: reg_id where "DR_REG_XMM31 = 108"
definition RESERVED_XMM :: reg_id where "RESERVED_XMM = DR_REG_XMM31 + 32"
definition DR_REG_ST0 :: reg_id where "DR_REG_ST0 = 141"
definition DR_REG_ST7 :: reg_id where "DR_REG_ST7 = 148"
definition DR_SEG_ES :: reg_id where "DR_SEG_ES = 149"
definition DR_SEG_GS :: reg_id where "DR_SEG_GS = 154"
definition DR_REG_DR0 :: reg_id where "DR_REG_DR0 = 155"
definition DR_REG_DR15 :: reg_id where "DR_REG_DR15 = 170"
definition DR_REG_CR0 :: reg_id where "DR_REG_CR0 = 171"
definition DR_REG_CR15 :: reg_id where "DR_REG_CR15 = 186"
definition DR_REG_INVALID :: reg_id where "DR_REG_INVALID = 187"
definition DR_REG_YMM0 :: reg_id where "DR_REG_YMM0 = 188"
definition DR_REG_YMM15 :: reg_id where "DR_REG_YMM15 = 203"
definition DR_REG_YMM31 :: reg_id where "DR_REG_YMM31 = 219"
definition RESERVED_YMM :: reg_id where "RESERVED_YMM = DR_REG_YMM31 + 32"
definition DR_REG_ZMM0 :: reg_id where "DR_REG_ZMM0 = 252"
definition DR_REG_ZMM31 :: reg_id where "DR_REG_ZMM31 = 283"
definition RESERVED_ZMM :: reg_id where "RESERVED_ZMM = DR_REG_ZMM31 + 32"
definition DR_REG_K0 :: reg_id where "DR_REG_K0 = 316"
definition DR_REG_K7 :: reg_id where "DR_REG_K7 = 323"

lemmas reg_defs =
  DR_REG_NULL_def DR_REG_RAX_def DR_REG_RCX_def DR_REG_RDX_def DR_REG_RBX_def DR_REG_RSP_def
  DR_REG_RBP_def DR_REG_RSI_def DR_REG_RDI_def DR_REG_R8_def DR_REG_R15_def DR_REG_EAX_def
  DR_REG_R15D_def DR_REG_AX_def DR_REG_R15W_def DR_REG_AL_def DR_REG_AH_def DR_REG_BH_def
  DR_REG_SPL_def DR_REG_DIL_def DR_REG_MM0_def DR_REG_MM7_def DR_REG_XMM0_def DR_REG_XMM15_def
  DR_REG_XMM31_def RESERVED_XMM_def DR_REG_ST0_def DR_REG_ST7_def DR_SEG_ES_def DR_SEG_GS_def
  DR_REG_DR0_def DR_REG_DR15_def DR_REG_CR0_def DR_REG_CR15_def DR_REG_INVALID_def DR_REG_YMM0_def
  DR_REG_YMM15_def DR_REG_YMM31_def RESERVED_YMM_def DR_REG_ZMM0_def DR_REG_ZMM31_def
  RESERVED_ZMM_def DR_REG_K0_def DR_REG_K7_def

section \<open>The containing register\<close>

definition dr_reg_fixer :: "reg_id list" where
  "dr_reg_fixer =
     [DR_REG_NULL] @ [DR_REG_RAX..<Suc DR_REG_R15] @
     [DR_REG_RAX..<Suc DR_REG_R15] @ [DR_REG_RAX..<Suc DR_REG_R15] @
     [DR_REG_RAX, DR_REG_RCX, DR_REG_RDX, DR_REG_RBX] @ [DR_REG_RAX, DR_REG_RCX, DR_REG_RDX, DR_REG_RBX] @
     [DR_REG_R8..<Suc DR_REG_R15] @ [DR_REG_RSP, DR_REG_RBP, DR_REG_RSI, DR_REG_RDI] @
     [DR_REG_MM0..<Suc DR_REG_MM7] @ [DR_REG_ZMM0..<Suc DR_REG_ZMM31] @ replicate 32 DR_REG_INVALID @
     [DR_REG_ST0..<Suc DR_REG_ST7] @ [DR_SEG_ES..<Suc DR_SEG_GS] @ [DR_REG_DR0..<Suc DR_REG_DR15] @
     [DR_REG_CR0..<Suc DR_REG_CR15] @ [DR_REG_INVALID] @
     [DR_REG_ZMM0..<Suc DR_REG_ZMM31] @ replicate 32 DR_REG_INVALID @
     [DR_REG_ZMM0..<Suc DR_REG_ZMM31] @ replicate 32 DR_REG_INVALID @ [DR_REG_K0..<Suc DR_REG_K7]"

definition reg_fix :: "reg_id \<Rightarrow> reg_id cres" where
  "reg_fix reg = (if reg < length dr_reg_fixer then Inr (dr_reg_fixer ! reg) else Inl OutOfBounds)"

definition reg_to_pointer_sized :: "reg_id \<Rightarrow> reg_id cres" where
  "reg_to_pointer_sized reg = reg_fix reg"

section \<open>Classifiers and conversions\<close>

definition reg_is_gpr :: "reg_id \<Rightarrow> bool" where
  "reg_is_gpr reg = (reg \<ge> DR_REG_RAX \<and> reg \<le> DR_REG_DIL)"

definition reg_is_segment :: "reg_id \<Rightarrow> bool" where
  "reg_is_segment reg = (reg \<ge> DR_SEG_ES \<and> reg \<le> DR_SEG_GS)"

definition reg_is_opmask :: "reg_id \<Rightarrow> bool" where
  "reg_is_opmask reg = (reg \<ge> DR_REG_K0 \<and> reg \<le> DR_REG_K7)"

definition reg_is_strictly_zmm :: "reg_id \<Rightarrow> bool" where
  "reg_is_strictly_zmm reg = (reg \<ge> DR_REG_ZMM0 \<and> reg \<le> DR_REG_ZMM31)"

definition reg_is_strictly_ymm :: "reg_id \<Rightarrow> bool" where
  "reg_is_strictly_ymm reg = (reg \<ge> DR_REG_YMM0 \<and> reg \<le> DR_REG_YMM31)"

definition reg_is_ymm :: "reg_id \<Rightarrow> bool" where
  "reg_is_ymm reg = reg_is_strictly_ymm reg"

definition reg_is_strictly_xmm :: "reg_id \<Rightarrow> bool" where
  "reg_is_strictly_xmm reg = (reg \<ge> DR_REG_XMM0 \<and> reg \<le> DR_REG_XMM31)"

definition reg_is_xmm :: "reg_id \<Rightarrow> bool" where
  "reg_is_xmm reg = (reg_is_strictly_xmm reg \<or> reg_is_strictly_ymm reg)"

definition reg_is_mmx :: "reg_id \<Rightarrow> bool" where
  "reg_is_mmx reg = (reg \<ge> DR_REG_MM0 \<and> reg \<le> DR_REG_MM7)"

definition reg_is_fp :: "reg_id \<Rightarrow> bool" where
  "reg_is_fp reg = (reg \<ge> DR_REG_ST0 \<and> reg \<le> DR_REG_ST7)"

definition reg_is_simd :: "reg_id \<Rightarrow> bool" where
  "reg_is_simd reg = (reg_is_xmm reg \<or> reg_is_mmx reg)"

definition reg_32_to_16 :: "reg_id \<Rightarrow> reg_id cres" where
  "reg_32_to_16 reg =
     (if reg \<ge> DR_REG_EAX \<and> reg \<le> DR_REG_R15D then Inr ((reg - DR_REG_EAX) + DR_REG_AX) else Inl Assert)"

definition reg_32_to_8 :: "reg_id \<Rightarrow> reg_id cres" where
  "reg_32_to_8 reg =
     (if reg \<ge> DR_REG_EAX \<and> reg \<le> DR_REG_R15D
      then let r8 = (reg - DR_REG_EAX) + DR_REG_AL
           in Inr (if r8 \<ge> DR_REG_AH \<and> r8 \<le> DR_REG_BH then r8 + (DR_REG_SPL - DR_REG_AH) else r8)
      else Inl Assert)"

definition reg_32_to_64 :: "reg_id \<Rightarrow> reg_id cres" where
  "reg_32_to_64 reg =
     (if reg \<ge> DR_REG_EAX \<and> reg \<le> DR_REG_R15D then Inr ((reg - DR_REG_EAX) + DR_REG_RAX) else Inl Assert)"

definition reg_64_to_32 :: "reg_id \<Rightarrow> reg_id cres" where
  "reg_64_to_32 reg =
     (if reg \<ge> DR_REG_RAX \<and> reg \<le> DR_REG_R15 then Inr ((reg - DR_REG_RAX) + DR_REG_EAX) else Inl Assert)"

text \<open>Operand sizes in bytes (\<open>OPSZ_1\<close>, \<open>OPSZ_2\<close> and so on).\<close>

definition reg_32_to_opsz :: "reg_id \<Rightarrow> nat \<Rightarrow> reg_id cres" where
  "reg_32_to_opsz reg sz =
     (if \<not> (reg \<ge> DR_REG_EAX \<and> reg \<le> DR_REG_R15D) then Inl Assert
      else if sz = 4 then Inr reg
      else if sz = 2 then reg_32_to_16 reg
      else if sz = 1 then reg_32_to_8 reg
      else if sz = 8 then reg_32_to_64 reg
      else Inl Assert)"

definition reg_resize_to_opsz :: "reg_id \<Rightarrow> nat \<Rightarrow> reg_id cres" where
  "reg_resize_to_opsz reg sz =
     (if \<not> reg_is_gpr reg then Inl Assert
      else bind_res (reg_to_pointer_sized reg) (\<lambda>reg.
           bind_res (reg_64_to_32 reg) (\<lambda>reg. reg_32_to_opsz reg sz)))"

definition reg_overlap :: "reg_id \<Rightarrow> reg_id \<Rightarrow> bool cres" where
  "reg_overlap r1 r2 =
     (if r1 = DR_REG_NULL \<or> r2 = DR_REG_NULL then Inr False
      else if (r1 \<ge> DR_REG_AL \<and> r1 \<le> DR_REG_BH) \<and> (r2 \<ge> DR_REG_AL \<and> r2 \<le> DR_REG_BH) \<and> r1 \<noteq> r2
      then Inr False
      else bind_res (reg_fix r1) (\<lambda>a. bind_res (reg_fix r2) (\<lambda>b. Inr (a = b))))"

definition reg_get_bits :: "reg_id \<Rightarrow> nat cres" where
  "reg_get_bits reg =
     (if reg \<ge> DR_REG_RAX \<and> reg \<le> DR_REG_R15 then Inr ((reg - DR_REG_RAX) mod 8)
      else if reg \<ge> DR_REG_EAX \<and> reg \<le> DR_REG_R15D then Inr ((reg - DR_REG_EAX) mod 8)
      else if reg \<ge> DR_REG_AL \<and> reg < DR_REG_SPL then Inr ((reg - DR_REG_AL) mod 8)
      else if reg \<ge> DR_REG_SPL \<and> reg \<le> DR_REG_DIL then Inr ((reg - DR_REG_SPL + 4) mod 8)
      else if reg \<ge> DR_REG_AX \<and> reg \<le> DR_REG_R15W then Inr ((reg - DR_REG_AX) mod 8)
      else if reg \<ge> DR_REG_MM0 \<and> reg \<le> DR_REG_MM7 then Inr ((reg - DR_REG_MM0) mod 8)
      else if reg \<ge> DR_REG_XMM0 \<and> reg \<le> DR_REG_XMM31 then Inr ((reg - DR_REG_XMM0) mod 8)
      else if reg \<ge> DR_REG_YMM0 \<and> reg \<le> DR_REG_YMM31 then Inr ((reg - DR_REG_YMM0) mod 8)
      else if reg \<ge> DR_REG_ZMM0 \<and> reg \<le> DR_REG_ZMM31 then Inr ((reg - DR_REG_ZMM0) mod 8)
      else if reg \<ge> DR_REG_K0 \<and> reg \<le> DR_REG_K7 then Inr ((reg - DR_REG_K0) mod 8)
      else if reg \<ge> DR_SEG_ES \<and> reg \<le> DR_SEG_GS then Inr ((reg - DR_SEG_ES) mod 8)
      else if reg \<ge> DR_REG_DR0 \<and> reg \<le> DR_REG_DR15 then Inr ((reg - DR_REG_DR0) mod 8)
      else if reg \<ge> DR_REG_CR0 \<and> reg \<le> DR_REG_CR15 then Inr ((reg - DR_REG_CR0) mod 8)
      else Inl Assert)"

definition reg_get_size :: "reg_id \<Rightarrow> nat cres" where
  "reg_get_size reg =
     (if reg \<ge> DR_REG_RAX \<and> reg \<le> DR_REG_R15 then Inr 8
      else if reg \<ge> DR_REG_EAX \<and> reg \<le> DR_REG_R15D then Inr 4
      else if reg \<ge> DR_REG_AL \<and> reg \<le> DR_REG_DIL then Inr 1
      else if reg \<ge> DR_REG_SPL \<and> reg \<le> DR_REG_DIL then Inr 1
      else if reg \<ge> DR_REG_AX \<and> reg \<le> DR_REG_R15W then Inr 2
      else if reg \<ge> DR_REG_MM0 \<and> reg \<le> DR_REG_MM7 then Inr 8
      else if reg \<ge> DR_REG_XMM0 \<and> reg \<le> DR_REG_XMM31 then Inr 16
      else if reg \<ge> DR_REG_YMM0 \<and> reg \<le> DR_REG_YMM31 then Inr 32
      else if reg \<ge> DR_REG_ZMM0 \<and> reg \<le> DR_REG_ZMM31 then Inr 64
      else if reg \<ge> DR_REG_K0 \<and> reg \<le> DR_REG_K7 then Inr 8
      else if reg \<ge> DR_SEG_ES \<and> reg \<le> DR_SEG_GS then Inr 2
      else if reg \<ge> DR_REG_DR0 \<and> reg \<le> DR_REG_DR15 then Inr 8
      else if reg \<ge> DR_REG_CR0 \<and> reg \<le> DR_REG_CR15 then Inr 8
      else if reg \<ge> DR_REG_ST0 \<and> reg \<le> DR_REG_ST7 then Inr 10
      else Inl Assert)"

section \<open>Architectural registers\<close>

text \<open>The number of the general-purpose register a name stands for.\<close>

definition gpr_index :: "reg_id \<Rightarrow> nat" where
  "gpr_index r =
     (if r \<le> 16 then r - 1 else if r \<le> 32 then r - 17 else if r \<le> 48 then r - 33
      else if r \<le> 52 then r - 49 else if r \<le> 56 then r - 53 else if r \<le> 64 then r - 49 else r - 61)"

lemma length_dr_reg_fixer [simp]: "length dr_reg_fixer = 324"
  by (simp add: dr_reg_fixer_def reg_defs)

lemma fixer_prefix: "take 69 dr_reg_fixer = map (\<lambda>r. if r = 0 then 0 else Suc (gpr_index r)) [0..<69]"
  by (simp add: dr_reg_fixer_def reg_defs gpr_index_def upt_conv_Cons)

lemma fixer_gpr:
  assumes "reg_is_gpr r"
  shows "dr_reg_fixer ! r = Suc (gpr_index r)"
proof -
  have r: "r < 69" "r \<noteq> 0" using assms by (auto simp: reg_is_gpr_def reg_defs)
  then have "dr_reg_fixer ! r = take 69 dr_reg_fixer ! r" by simp
  also have "\<dots> = Suc (gpr_index r)" unfolding fixer_prefix using r by simp
  finally show ?thesis .
qed

text \<open>The number of the vector register a name stands for.\<close>

definition simd_index :: "reg_id \<Rightarrow> nat" where
  "simd_index r =
     (if reg_is_strictly_zmm r then r - DR_REG_ZMM0
      else if reg_is_strictly_ymm r then r - DR_REG_YMM0 else r - DR_REG_XMM0)"

definition is_vector :: "reg_id \<Rightarrow> bool" where
  "is_vector r \<longleftrightarrow> reg_is_strictly_xmm r \<or> reg_is_strictly_ymm r \<or> reg_is_strictly_zmm r"

lemma fixer_blocks:
  "take 32 (drop 77 dr_reg_fixer) = [252..<284]" "take 32 (drop 188 dr_reg_fixer) = [252..<284]"
  "take 32 (drop 252 dr_reg_fixer) = [252..<284]"
  by (simp_all add: dr_reg_fixer_def reg_defs)

lemma fixer_block:
  assumes "take 32 (drop s dr_reg_fixer) = [252..<284]" "s \<le> r" "r < s + 32" "s + 32 \<le> 324"
  shows "dr_reg_fixer ! r = 252 + (r - s)"
proof -
  have "dr_reg_fixer ! r = take 32 (drop s dr_reg_fixer) ! (r - s)" using assms(2-4) by simp
  also have "\<dots> = 252 + (r - s)" unfolding assms(1) using assms(2,3) by (subst nth_upt) simp_all
  finally show ?thesis .
qed

lemma vector_cases:
  assumes "is_vector r"
  obtains "77 \<le> r" "r < 109" "simd_index r = r - 77" | "188 \<le> r" "r < 220" "simd_index r = r - 188"
  | "252 \<le> r" "r < 284" "simd_index r = r - 252"
  using assms unfolding is_vector_def reg_is_strictly_xmm_def reg_is_strictly_ymm_def
    reg_is_strictly_zmm_def simd_index_def reg_defs by fastforce

lemma fixer_simd:
  assumes "is_vector r"
  shows "dr_reg_fixer ! r = DR_REG_ZMM0 + simd_index r"
  using assms
proof (cases r rule: vector_cases)
  case 1
  with fixer_block [OF fixer_blocks(1), of r] show ?thesis by (simp add: DR_REG_ZMM0_def)
next
  case 2
  with fixer_block [OF fixer_blocks(2), of r] show ?thesis by (simp add: DR_REG_ZMM0_def)
next
  case 3
  with fixer_block [OF fixer_blocks(3), of r] show ?thesis by (simp add: DR_REG_ZMM0_def)
qed

lemma gpr_index_bound: "reg_is_gpr r \<Longrightarrow> gpr_index r < 16"
  by (auto simp: reg_is_gpr_def gpr_index_def reg_defs)

lemma reg_fix_total: "reg_is_gpr r \<or> is_vector r \<Longrightarrow> reg_fix r = Inr (dr_reg_fixer ! r)"
  by (auto simp: reg_fix_def is_vector_def reg_is_gpr_def reg_is_strictly_xmm_def
      reg_is_strictly_ymm_def reg_is_strictly_zmm_def reg_defs)

lemma vector_not_gpr:
  "is_vector r \<Longrightarrow> \<not> reg_is_gpr r" "is_vector r \<Longrightarrow> 69 \<le> r" "reg_is_gpr r \<or> is_vector r \<Longrightarrow> r \<noteq> DR_REG_NULL"
  by (auto simp: is_vector_def reg_is_gpr_def reg_is_strictly_xmm_def
      reg_is_strictly_ymm_def reg_is_strictly_zmm_def reg_defs)



text \<open>C34. Resizing a general-purpose register gives a register of the requested size that is part of
  the same architectural register, for the four sizes of general-purpose registers.\<close>

theorem reg_resize_to_opsz_correct:
  assumes "reg_is_gpr r" "sz \<in> {1, 2, 4, 8}"
  shows "\<exists>r'. reg_resize_to_opsz r sz = Inr r' \<and> reg_is_gpr r' \<and> reg_get_size r' = Inr sz \<and>
           gpr_index r' = gpr_index r"
proof -
  let ?i = "gpr_index r"
  have i: "?i < 16" by (rule gpr_index_bound [OF assms(1)])
  have p: "reg_to_pointer_sized r = Inr (Suc ?i)"
    using assms(1) by (simp add: reg_to_pointer_sized_def reg_fix_total fixer_gpr)
  have e: "reg_64_to_32 (Suc ?i) = Inr (?i + 17)" using i by (simp add: reg_64_to_32_def reg_defs)
  have "reg_resize_to_opsz r sz = reg_32_to_opsz (?i + 17) sz"
    using assms(1) p e by (simp add: reg_resize_to_opsz_def)
  moreover have "\<exists>r'. reg_32_to_opsz (j + 17) sz = Inr r' \<and> reg_is_gpr r' \<and> reg_get_size r' = Inr sz \<and>
      gpr_index r' = j" if "j < 16" for j
    using that assms(2)
    by (auto simp: reg_32_to_opsz_def reg_32_to_16_def reg_32_to_8_def reg_32_to_64_def reg_defs
        reg_is_gpr_def reg_get_size_def gpr_index_def Let_def)
  ultimately show ?thesis using i by metis
qed

theorem reg_resize_to_opsz_correct_witness:
  "\<exists>r'. reg_resize_to_opsz DR_REG_RSP 1 = Inr r' \<and> reg_is_gpr r' \<and> reg_get_size r' = Inr 1 \<and>
     gpr_index r' = gpr_index DR_REG_RSP"
  by (rule reg_resize_to_opsz_correct) (simp_all add: reg_is_gpr_def reg_defs)

end
