(* ===== verification/Machine.thy ===== *)
theory Machine
  imports Registers
begin

text \<open>
  The x86-64 machine the instrumented code runs on, as far as the instructions PADLOC inserts see
  it: sixteen general-purpose registers, the status flags that \<open>lahf\<close> and \<open>sahf\<close> move and the
  overflow flag that they do not, the vector registers as little-endian bytes, a flat byte memory,
  the thread-local fields that \<open>drmgr\<close> hands out and the spill slot of \<open>dr_save_reg\<close>.
\<close>

section \<open>Words as bytes\<close>

definition le_bytes :: "nat \<Rightarrow> 'a::len word \<Rightarrow> u8 list" where
  "le_bytes n w = map (\<lambda>i. ucast (drop_bit (8 * i) w)) [0..<n]"

fun le_word :: "u8 list \<Rightarrow> 'a::len word" where
  "le_word [] = 0"
| "le_word (b # bs) = ucast b OR push_bit 8 (le_word bs)"

lemma length_le_bytes [simp]: "length (le_bytes n w) = n"
  by (simp add: le_bytes_def)

lemma bit_le_word:
  "bit (le_word bs :: 'a::len word) n \<longleftrightarrow>
     n < LENGTH('a) \<and> n div 8 < length bs \<and> bit (bs ! (n div 8)) (n mod 8)"
proof (induction bs arbitrary: n)
  case (Cons b bs)
  show ?case
  proof (cases "n < 8")
    case True
    then show ?thesis by (auto simp: bit_simps)
  next
    case False
    then have "n div 8 = Suc ((n - 8) div 8)" "n mod 8 = (n - 8) mod 8"
      by (simp_all add: le_div_geq le_mod_geq)
    moreover have "\<not> bit b n" using False by (simp add: bit_word.rep_eq)
    ultimately show ?thesis using False by (auto simp: bit_simps Cons.IH)
  qed
qed simp

lemma le_word_le_bytes:
  assumes "LENGTH('a::len) = 8 * n"
  shows "le_word (le_bytes n (w :: 'a word)) = w"
proof (rule bit_word_eqI)
  fix m assume "m < LENGTH('a)"
  then have "m div 8 < n" using assms by simp
  moreover have "8 * (m div 8) + m mod 8 = m" by simp
  ultimately show "bit (le_word (le_bytes n w) :: 'a word) m \<longleftrightarrow> bit w m"
    using \<open>m < LENGTH('a)\<close> by (simp add: bit_le_word le_bytes_def bit_simps)
qed

lemma le_bytes_le_word:
  assumes "8 * n \<le> LENGTH('a::len)" "length bs = n"
  shows "le_bytes n (le_word bs :: 'a word) = bs"
proof (rule nth_equalityI)
  fix i assume "i < length (le_bytes n (le_word bs :: 'a word))"
  then have i: "i < n" by simp
  show "le_bytes n (le_word bs :: 'a word) ! i = bs ! i"
  proof (rule bit_word_eqI)
    fix m assume "m < LENGTH(8)"
    then have "m < 8" by simp
    then have "(8 * i + m) div 8 = i" "(8 * i + m) mod 8 = m" "8 * i + m < LENGTH('a)"
      using i assms(1) by simp_all
    then show "bit (le_bytes n (le_word bs :: 'a word) ! i) m = bit (bs ! i) m"
      using i assms(2) \<open>m < 8\<close> by (simp add: le_bytes_def bit_simps bit_le_word)
  qed
qed (use assms in simp)

section \<open>Memory\<close>

type_synonym memory = "u64 \<Rightarrow> u8"

definition store_bytes :: "u64 \<Rightarrow> u8 list \<Rightarrow> memory \<Rightarrow> memory" where
  "store_bytes a bs m = (\<lambda>x. if unat (x - a) < length bs then bs ! unat (x - a) else m x)"

definition load_bytes :: "u64 \<Rightarrow> nat \<Rightarrow> memory \<Rightarrow> u8 list" where
  "load_bytes a n m = map (\<lambda>i. m (a + of_nat i)) [0..<n]"

text \<open>An address lies in the \<open>n\<close> bytes from \<open>a\<close>; two ranges are apart.\<close>

definition in_range :: "u64 \<Rightarrow> nat \<Rightarrow> u64 \<Rightarrow> bool" where
  "in_range a n x \<longleftrightarrow> unat (x - a) < n"

definition apart :: "u64 \<Rightarrow> nat \<Rightarrow> u64 \<Rightarrow> nat \<Rightarrow> bool" where
  "apart a n b k \<longleftrightarrow> (\<forall>x. \<not> (in_range a n x \<and> in_range b k x))"

lemma unat_of_nat_u64: "n < 2 ^ 64 \<Longrightarrow> unat (of_nat n :: u64) = n"
  by (simp add: unat_of_nat take_bit_nat_eq_self)

lemma length_load_bytes [simp]: "length (load_bytes a n m) = n"
  by (simp add: load_bytes_def)

lemma store_bytes_out: "\<not> in_range a (length bs) x \<Longrightarrow> store_bytes a bs m x = m x"
  by (simp add: store_bytes_def in_range_def)

lemma load_store_same:
  "length bs \<le> 2 ^ 64 \<Longrightarrow> load_bytes a (length bs) (store_bytes a bs m) = bs"
  by (rule nth_equalityI) (simp_all add: load_bytes_def store_bytes_def unat_of_nat_u64)

lemma load_store_apart:
  assumes "apart a (length bs) b k" "k \<le> 2 ^ 64"
  shows "load_bytes b k (store_bytes a bs m) = load_bytes b k m"
proof (rule nth_equalityI)
  fix i assume "i < length (load_bytes b k (store_bytes a bs m))"
  then have i: "i < k" by simp
  then have "in_range b k (b + of_nat i)" using assms(2) by (simp add: in_range_def unat_of_nat_u64)
  then have "\<not> in_range a (length bs) (b + of_nat i)" using assms(1) by (auto simp: apart_def)
  with i show "load_bytes b k (store_bytes a bs m) ! i = load_bytes b k m ! i"
    by (simp add: load_bytes_def store_bytes_out)
qed simp

lemma load_bytes_cong:
  "(\<And>x. in_range a n x \<Longrightarrow> m x = m' x) \<Longrightarrow> n \<le> 2 ^ 64 \<Longrightarrow> load_bytes a n m = load_bytes a n m'"
  by (rule nth_equalityI) (simp_all add: load_bytes_def in_range_def unat_of_nat_u64)

lemma load_bytes_split:
  "load_bytes a (n + k) m = load_bytes a n m @ load_bytes (a + of_nat n) k m"
proof -
  have "[0..<n + k] = [0..<n] @ map (\<lambda>i. i + n) [0..<k]"
    using upt_add_eq_append [of 0 n k] map_add_upt [of n k] by (simp add: add.commute)
  then show ?thesis by (simp add: load_bytes_def algebra_simps)
qed

lemma take_load_bytes: "k \<le> n \<Longrightarrow> take k (load_bytes a n m) = load_bytes a k m"
  by (simp add: load_bytes_def take_map)

lemma drop_load_bytes: "drop k (load_bytes a n m) = load_bytes (a + of_nat k) (n - k) m"
proof (cases "k \<le> n")
  case True
  then show ?thesis using load_bytes_split [of a k "n - k" m] by simp
qed (simp add: load_bytes_def)

text \<open>Two ranges inside one buffer.\<close>

lemma apart_offsets:
  assumes "i + n \<le> j \<or> j + k \<le> i" "i + n \<le> 2 ^ 64" "j + k \<le> 2 ^ 64"
  shows "apart (a + of_nat i) n (a + of_nat j) k"
  unfolding apart_def in_range_def
proof (intro allI notI; elim conjE)
  fix x assume x: "unat (x - (a + of_nat i)) < n" "unat (x - (a + of_nat j)) < k"
  let ?p = "unat (x - (a + of_nat i))" and ?q = "unat (x - (a + of_nat j))"
  have "x = a + of_nat (i + ?p)" "x = a + of_nat (j + ?q)" by simp_all
  then have "(of_nat (i + ?p) :: u64) = of_nat (j + ?q)" by (metis add_left_cancel)
  then have "unat (of_nat (i + ?p) :: u64) = unat (of_nat (j + ?q) :: u64)" by simp
  moreover have "i + ?p < 2 ^ 64" "j + ?q < 2 ^ 64" using x assms(2,3) by linarith+
  ultimately have "i + ?p = j + ?q" by (simp only: unat_of_nat_u64)
  with x assms(1) show False by linarith
qed

lemma in_range_sub:
  assumes "in_range (a + of_nat i) n x" "i + n \<le> k" "k \<le> 2 ^ 64"
  shows "in_range a k x"
proof -
  let ?p = "unat (x - (a + of_nat i))"
  have "x - a = of_nat (i + ?p)" by simp
  moreover have "i + ?p < k" using assms unfolding in_range_def by linarith
  ultimately show ?thesis using assms(3) unfolding in_range_def by (simp only: unat_of_nat_u64)
qed

lemma apart_sub:
  assumes "apart a k b l" "i + n \<le> k" "j + h \<le> l" "k \<le> 2 ^ 64" "l \<le> 2 ^ 64"
  shows "apart (a + of_nat i) n (b + of_nat j) h"
  using assms in_range_sub unfolding apart_def by blast

lemma apart_sym: "apart a n b k \<Longrightarrow> apart b k a n"
  by (auto simp: apart_def)

section \<open>Buffers of equal slots\<close>

definition slot_addr :: "u64 \<Rightarrow> nat \<Rightarrow> nat \<Rightarrow> u64" where
  "slot_addr B k i = B + of_nat (k * i)"

text \<open>Storing \<open>f i\<close> in slot \<open>i\<close> of a buffer of slots of \<open>k\<close> bytes, for the slots of a list.\<close>

definition slots :: "u64 \<Rightarrow> nat \<Rightarrow> (nat \<Rightarrow> u8 list) \<Rightarrow> nat list \<Rightarrow> memory \<Rightarrow> memory" where
  "slots B k f is m = fold (\<lambda>i. store_bytes (slot_addr B k i) (f i)) is m"

lemma slots_Nil [simp]: "slots B k f [] m = m"
  by (simp add: slots_def)

lemma slots_Cons [simp]:
  "slots B k f (i # is) m = slots B k f is (store_bytes (slot_addr B k i) (f i) m)"
  by (simp add: slots_def)

lemma slot_bound: "i < n \<Longrightarrow> k * i + k \<le> k * (n::nat)"
  by (metis Suc_leI mult_Suc_right mult_le_mono2 add.commute)

lemma load_slot:
  assumes "i < n" "j < n" "k * n \<le> 2 ^ 64" "length bs = k"
  shows "load_bytes (slot_addr B k j) k (store_bytes (slot_addr B k i) bs m) =
    (if i = j then bs else load_bytes (slot_addr B k j) k m)"
proof (cases "i = j")
  case True
  have "k \<le> 2 ^ 64" using assms(1,3) slot_bound [OF assms(1), of k] by linarith
  with True assms(4) show ?thesis using load_store_same [of bs "slot_addr B k j" m] by simp
next
  case False
  have b: "k * i + k \<le> 2 ^ 64" "k * j + k \<le> 2 ^ 64"
    using assms(3) slot_bound [OF assms(1), of k] slot_bound [OF assms(2), of k] by linarith+
  have "k * i + k \<le> k * j \<or> k * j + k \<le> k * i"
    using False slot_bound [of i j k] slot_bound [of j i k] by (metis linorder_neqE_nat)
  then have "apart (slot_addr B k i) (length bs) (slot_addr B k j) k"
    unfolding assms(4) slot_addr_def by (rule apart_offsets [OF _ b])
  with False b(2) show ?thesis by (simp add: load_store_apart)
qed

lemma load_slots:
  assumes "\<forall>i \<in> set is. i < n \<and> length (f i) = k" "j < n" "k * n \<le> 2 ^ 64"
  shows "load_bytes (slot_addr B k j) k (slots B k f is m) =
    (if j \<in> set is then f j else load_bytes (slot_addr B k j) k m)"
  using assms
proof (induction "is" arbitrary: m)
  case (Cons i "is")
  then show ?case using load_slot [of i n j k "f i" B m] by auto
qed simp

lemma slots_out:
  assumes "\<forall>i \<in> set is. i < n \<and> length (f i) = k" "\<not> in_range B (k * n) x" "k * n \<le> 2 ^ 64"
  shows "slots B k f is m x = m x"
  using assms
proof (induction "is" arbitrary: m)
  case (Cons i "is")
  then have i: "i < n" "length (f i) = k" by simp_all
  have "\<not> in_range (slot_addr B k i) (length (f i)) x"
    unfolding i(2) slot_addr_def using Cons.prems(2,3) in_range_sub [of B "k * i" k x "k * n"] slot_bound [OF i(1), of k]
    by blast
  then show ?case using Cons by (simp add: store_bytes_out)
qed simp

lemma load_slots_apart:
  assumes "\<forall>i \<in> set is. i < n \<and> length (f i) = k" "apart B (k * n) b l" "k * n \<le> 2 ^ 64" "l \<le> 2 ^ 64"
  shows "load_bytes b l (slots B k f is m) = load_bytes b l m"
proof (rule load_bytes_cong)
  fix x assume "in_range b l x"
  then have "\<not> in_range B (k * n) x" using assms(2) by (auto simp: apart_def)
  then show "slots B k f is m x = m x" using slots_out [OF assms(1) _ assms(3)] by simp
qed (use assms in simp)

text \<open>Stores that follow one another.\<close>

lemma store_append:
  assumes "length xs + length ys \<le> 2 ^ 64"
  shows "store_bytes (a + of_nat (length xs)) ys (store_bytes a xs m) = store_bytes a (xs @ ys) m"
proof
  fix x
  let ?p = "unat (x - a)"
  show "store_bytes (a + of_nat (length xs)) ys (store_bytes a xs m) x = store_bytes a (xs @ ys) m x"
  proof (cases "?p < length xs")
    case True
    have "\<not> in_range (a + of_nat (length xs)) (length ys) x"
    proof
      assume "in_range (a + of_nat (length xs)) (length ys) x"
      moreover have "in_range (a + of_nat 0) (length xs) x" using True by (simp add: in_range_def)
      moreover have "apart (a + of_nat 0) (length xs) (a + of_nat (length xs)) (length ys)"
        by (rule apart_offsets) (use assms in auto)
      ultimately show False by (auto simp: apart_def)
    qed
    then have "store_bytes (a + of_nat (length xs)) ys (store_bytes a xs m) x = store_bytes a xs m x"
      by (rule store_bytes_out)
    with True show ?thesis by (simp add: store_bytes_def nth_append)
  next
    case False
    let ?q = "unat (x - (a + of_nat (length xs)))"
    have px: "?p < 2 ^ 64" using unsigned_less [of "x - a", where ?'a = nat] by simp
    have "x - (a + of_nat (length xs)) = of_nat ?p - of_nat (length xs)" by simp
    also have "\<dots> = of_nat (?p - length xs)" using False by (simp add: of_nat_diff)
    finally have q: "?q = ?p - length xs" using px by (simp add: unat_of_nat_u64)
    show ?thesis using False by (auto simp: store_bytes_def q nth_append)
  qed
qed

end
