(* ===== verification/Plc_Client.thy ===== *)
theory Plc_Client
  imports Plc_Operations Machine
begin

text \<open>
  The code PADLOC inserts (\<open>api/samples/padloc/padloc_client.cpp\<close>) and the pass over a basic block
  that inserts it (\<open>app2app_bb_event\<close> of \<open>api/samples/padloc.cpp\<close>). An \<open>insert_\<close> function is the
  list of instructions it inserts before the given instruction, in order; \<open>exec\<close> runs them on the
  machine. The functions of the numerical backend are a parameter with a state of its own (its
  random generator), and so is what a called function leaves in the registers the calling
  convention lets it change and in the stack below its frame.
\<close>

section \<open>Operands and instructions\<close>

record cpu =
  AVX_SUPPORTED :: bool
  AVX_512_SUPPORTED :: bool

text \<open>The statics of the client: the three thread-local indices and the operand-order flag.\<close>

record client =
  tls_gpr :: nat
  tls_float :: nat
  tls_result :: nat
  need_sse_inverse :: bool

datatype opnd =
    OpReg reg_id
  | OpBaseDisp reg_id reg_id reg_id nat int
  | OpRelAddr u64
  | OpAbsAddr u64
  | OpPc u64
  | OpOther

text \<open>\<open>OpBaseDisp\<close> has the segment (\<open>DR_REG_NULL\<close> for a near address), base, index, scale and
  displacement.\<close>

fun opnd_is_base_disp :: "opnd \<Rightarrow> bool" where
  "opnd_is_base_disp (OpBaseDisp seg b i sc d) = True"
| "opnd_is_base_disp _ = False"

fun OP_IS_ADDR :: "opnd \<Rightarrow> bool" where
  "OP_IS_ADDR (OpRelAddr a) = True"
| "OP_IS_ADDR (OpAbsAddr a) = True"
| "OP_IS_ADDR _ = False"

fun opnd_get_addr :: "opnd \<Rightarrow> u64 cres" where
  "opnd_get_addr (OpRelAddr a) = Inr a"
| "opnd_get_addr (OpAbsAddr a) = Inr a"
| "opnd_get_addr _ = Inl Assert"

fun GET_REG :: "opnd \<Rightarrow> reg_id cres" where
  "GET_REG (OpReg r) = Inr r"
| "GET_REG _ = Inl Assert"

record app_instr =
  ai_fp :: fp_instr
  ai_srcs :: "opnd list"
  ai_dsts :: "opnd list"
  ai_any_sse :: bool

definition SRC :: "app_instr \<Rightarrow> nat \<Rightarrow> opnd cres" where
  "SRC instr n = (if n < length (ai_srcs instr) then Inr (ai_srcs instr ! n) else Inl OutOfBounds)"

definition DST :: "app_instr \<Rightarrow> nat \<Rightarrow> opnd cres" where
  "DST instr n = (if n < length (ai_dsts instr) then Inr (ai_dsts instr ! n) else Inl OutOfBounds)"

text \<open>An instance of \<open>padloc_backend\<close> or \<open>padloc_backend_fused\<close>: the backend function, the
  precision, the instruction set and the vector length it is instantiated with.\<close>

record callee =
  ce_fn :: fkind
  ce_double :: bool
  ce_category :: u32
  ce_simd :: u32

datatype minstr =
    SaveReg reg_id
  | RestoreReg reg_id
  | ReadTls nat reg_id
  | Store reg_id int reg_id
  | Load reg_id reg_id int
  | Lahf
  | Sahf
  | Lea reg_id reg_id reg_id nat int
  | LoadInt reg_id u64
  | StoreSimd bool reg_id int nat reg_id
  | LoadSimd bool reg_id reg_id int nat
  | SubSp int
  | CallBackend callee
  | AppInstr app_instr

section \<open>The machine\<close>

record 'r mstate =
  ms_gpr :: "reg_id \<Rightarrow> u64"
  ms_flags :: u8
  ms_of :: bool
  ms_simd :: "nat \<Rightarrow> u8 list"
  ms_mem :: memory
  ms_tls :: "nat \<Rightarrow> u64"
  ms_spill :: u64
  ms_backend :: 'r

text \<open>
  The parameters: the backend (function, precision, arguments as bit patterns, state), what a call
  leaves in the caller-saved registers and on the stack, how far below the stack pointer it
  writes, and the application's other instructions.
\<close>

record 'r env =
  ev_backend :: "fkind \<Rightarrow> bool \<Rightarrow> u64 list \<Rightarrow> 'r \<Rightarrow> u64 \<times> 'r"
  ev_gpr :: "'r mstate \<Rightarrow> reg_id \<Rightarrow> u64"
  ev_flags :: "'r mstate \<Rightarrow> u8"
  ev_of :: "'r mstate \<Rightarrow> bool"
  ev_simd :: "'r mstate \<Rightarrow> nat \<Rightarrow> u8 list"
  ev_stack :: "'r mstate \<Rightarrow> u64 \<Rightarrow> u8"
  ev_depth :: nat
  ev_app :: "app_instr \<Rightarrow> 'r mstate \<Rightarrow> 'r mstate"

text \<open>Bytes of the widest vector register.\<close>

definition vec_bytes :: "cpu \<Rightarrow> nat" where
  "vec_bytes cpu = (if AVX_512_SUPPORTED cpu then 64 else if AVX_SUPPORTED cpu then 32 else 16)"

definition num_vecs :: "cpu \<Rightarrow> nat" where
  "num_vecs cpu = (if AVX_512_SUPPORTED cpu then 32 else 16)"

definition gpr_val :: "'r mstate \<Rightarrow> reg_id \<Rightarrow> u64" where
  "gpr_val s r = (if r = DR_REG_NULL then 0 else ms_gpr s r)"

definition set_gpr :: "reg_id \<Rightarrow> u64 \<Rightarrow> 'r mstate \<Rightarrow> 'r mstate" where
  "set_gpr r v s = s\<lparr>ms_gpr := (ms_gpr s)(r := v)\<rparr>"

definition base_disp_addr :: "'r mstate \<Rightarrow> reg_id \<Rightarrow> reg_id \<Rightarrow> nat \<Rightarrow> int \<Rightarrow> u64" where
  "base_disp_addr s base index scale disp =
     gpr_val s base + gpr_val s index * of_nat scale + of_int disp"

text \<open>Registers a called function keeps under the System V convention.\<close>

definition callee_saved :: "reg_id \<Rightarrow> bool" where
  "callee_saved r \<longleftrightarrow> r \<in> {DR_REG_RBX, DR_REG_RSP, DR_REG_RBP, 13, 14, 15, 16}"

section \<open>The inserted calls\<close>

definition ftype_size :: "bool \<Rightarrow> nat" where
  "ftype_size is_double = (if is_double then 8 else 4)"

definition load_elem :: "bool \<Rightarrow> u64 \<Rightarrow> memory \<Rightarrow> u64" where
  "load_elem is_double a m = le_word (load_bytes a (ftype_size is_double) m)"

definition store_elem :: "bool \<Rightarrow> u64 \<Rightarrow> u64 \<Rightarrow> memory \<Rightarrow> memory" where
  "store_elem is_double a v m = store_bytes a (le_bytes (ftype_size is_double) v) m"

definition operation_size :: "callee \<Rightarrow> nat" where
  "operation_size ce =
     (if ce_simd ce = PLC_OP_128 then 16 else if ce_simd ce = PLC_OP_256 then 32
      else if ce_simd ce = PLC_OP_512 then 64 else ftype_size (ce_double ce))"

definition nb_elem :: "callee \<Rightarrow> nat" where
  "nb_elem ce = operation_size ce div ftype_size (ce_double ce)"

definition max_operation_size :: "callee \<Rightarrow> nat" where
  "max_operation_size ce =
     (if ce_category ce = PLC_OP_SSE then 16 else if ce_category ce = PLC_OP_AVX then 32
      else ftype_size (ce_double ce))"

definition max_nb_elem :: "callee \<Rightarrow> nat" where
  "max_nb_elem ce = max_operation_size ce div ftype_size (ce_double ce)"

text \<open>
  The body of \<open>apply\<close>: one iteration of the loop over the elements, reading the operands from the
  memory the earlier iterations have written, then the loop that clears the high part.
\<close>

definition apply_lane ::
    "'r env \<Rightarrow> callee \<Rightarrow> u64 \<Rightarrow> u64 list \<Rightarrow> nat \<Rightarrow> memory \<times> 'r \<Rightarrow> memory \<times> 'r" where
  "apply_lane ev ce tls vects i = (\<lambda>(m, r).
     let off = of_nat (i * ftype_size (ce_double ce));
         (res, r) = ev_backend ev (ce_fn ce) (ce_double ce)
                      (map (\<lambda>v. load_elem (ce_double ce) (v + off) m) vects) r
     in (store_elem (ce_double ce) (tls + off) res m, r))"

definition clear_high :: "callee \<Rightarrow> u64 \<Rightarrow> memory \<Rightarrow> memory" where
  "clear_high ce tls m =
     (if ce_category ce = PLC_OP_AVX
      then fold (\<lambda>i. store_elem (ce_double ce) (tls + of_nat (i * ftype_size (ce_double ce))) 0)
             [max (nb_elem ce) (16 div ftype_size (ce_double ce))..<max_nb_elem ce] m
      else m)"

definition padloc_apply ::
    "'r env \<Rightarrow> callee \<Rightarrow> u64 \<Rightarrow> u64 list \<Rightarrow> memory \<times> 'r \<Rightarrow> memory \<times> 'r" where
  "padloc_apply ev ce tls vects mr =
     (let (m, r) = fold (apply_lane ev ce tls vects) [0..<nb_elem ce] mr in (clear_high ce tls m, r))"

text \<open>The registers of the calling convention (System V build).\<close>

definition DR_REG_OP_A_ADDR :: reg_id where "DR_REG_OP_A_ADDR = DR_REG_RDI"
definition DR_REG_OP_B_ADDR :: reg_id where "DR_REG_OP_B_ADDR = DR_REG_RSI"
definition DR_REG_OP_C_ADDR :: reg_id where "DR_REG_OP_C_ADDR = DR_REG_RDX"
definition DR_SCRATCH_REG :: reg_id where "DR_SCRATCH_REG = DR_REG_RCX"

definition callee_args :: "callee \<Rightarrow> reg_id list" where
  "callee_args ce =
     (if kind_fused (ce_fn ce) then [DR_REG_OP_A_ADDR, DR_REG_OP_B_ADDR, DR_REG_OP_C_ADDR]
      else [DR_REG_OP_A_ADDR, DR_REG_OP_B_ADDR])"

definition exec_call :: "'r env \<Rightarrow> client \<Rightarrow> callee \<Rightarrow> 'r mstate \<Rightarrow> 'r mstate" where
  "exec_call ev c ce s =
     (let tls = le_word (load_bytes (ms_tls s (tls_result c)) 8 (ms_mem s));
          (m, r) = padloc_apply ev ce tls (map (ms_gpr s) (callee_args ce)) (ms_mem s, ms_backend s);
          sp = ms_gpr s DR_REG_RSP
      in s\<lparr>ms_gpr := (\<lambda>g. if callee_saved g then ms_gpr s g else ev_gpr ev s g),
           ms_flags := ev_flags ev s, ms_of := ev_of ev s, ms_simd := ev_simd ev s,
           ms_mem := (\<lambda>x. if in_range (sp - of_nat (ev_depth ev)) (ev_depth ev) x then ev_stack ev s x else m x),
           ms_backend := r\<rparr>)"

section \<open>Execution\<close>

fun exec_instr :: "'r env \<Rightarrow> cpu \<Rightarrow> client \<Rightarrow> minstr \<Rightarrow> 'r mstate \<Rightarrow> 'r mstate" where
  "exec_instr ev cpu c (SaveReg r) s = s\<lparr>ms_spill := ms_gpr s r\<rparr>"
| "exec_instr ev cpu c (RestoreReg r) s = set_gpr r (ms_spill s) s"
| "exec_instr ev cpu c (ReadTls t r) s = set_gpr r (ms_tls s t) s"
| "exec_instr ev cpu c (Store b d r) s =
     s\<lparr>ms_mem := store_bytes (ms_gpr s b + of_int d) (le_bytes 8 (ms_gpr s r)) (ms_mem s)\<rparr>"
| "exec_instr ev cpu c (Load r b d) s =
     set_gpr r (le_word (load_bytes (ms_gpr s b + of_int d) 8 (ms_mem s))) s"
| "exec_instr ev cpu c Lahf s =
     set_gpr DR_REG_RAX ((ms_gpr s DR_REG_RAX AND NOT (push_bit 8 255)) OR push_bit 8 (ucast (ms_flags s))) s"
| "exec_instr ev cpu c Sahf s = s\<lparr>ms_flags := ucast (drop_bit 8 (ms_gpr s DR_REG_RAX))\<rparr>"
| "exec_instr ev cpu c (Lea r b i sc d) s = set_gpr r (base_disp_addr s b i sc d) s"
| "exec_instr ev cpu c (LoadInt r v) s = set_gpr r v s"
| "exec_instr ev cpu c (StoreSimd vex b d n r) s =
     s\<lparr>ms_mem := store_bytes (ms_gpr s b + of_int d) (take n (ms_simd s (simd_index r))) (ms_mem s)\<rparr>"
| "exec_instr ev cpu c (LoadSimd vex r b d n) s =
     s\<lparr>ms_simd := (ms_simd s)(simd_index r :=
          load_bytes (ms_gpr s b + of_int d) n (ms_mem s) @
          (if vex then replicate (vec_bytes cpu - n) 0 else drop n (ms_simd s (simd_index r))))\<rparr>"
| "exec_instr ev cpu c (SubSp k) s =
     (set_gpr DR_REG_RSP (ms_gpr s DR_REG_RSP - of_int k) s)\<lparr>ms_flags := ev_flags ev s, ms_of := ev_of ev s\<rparr>"
| "exec_instr ev cpu c (CallBackend ce) s = exec_call ev c ce s"
| "exec_instr ev cpu c (AppInstr i) s = ev_app ev i s"

definition exec :: "'r env \<Rightarrow> cpu \<Rightarrow> client \<Rightarrow> minstr list \<Rightarrow> 'r mstate \<Rightarrow> 'r mstate" where
  "exec ev cpu c is s = fold (exec_instr ev cpu c) is s"

lemma exec_Nil [simp]: "exec ev cpu c [] s = s"
  by (simp add: exec_def)

lemma exec_Cons [simp]: "exec ev cpu c (i # is) s = exec ev cpu c is (exec_instr ev cpu c i s)"
  by (simp add: exec_def)

lemma exec_append [simp]: "exec ev cpu c (xs @ ys) s = exec ev cpu c ys (exec ev cpu c xs s)"
  by (simp add: exec_def)

section \<open>Saving and restoring the registers\<close>

definition offset_of_gpr :: "reg_id \<Rightarrow> int" where
  "offset_of_gpr gpr = push_bit 3 (int gpr - int DR_REG_RAX + 1)"

definition offset_of_simd :: "cpu \<Rightarrow> reg_id \<Rightarrow> int" where
  "offset_of_simd cpu simd =
     (let OFFSET = (if AVX_512_SUPPORTED cpu then 6 else if AVX_SUPPORTED cpu then 5 else 4);
          START = (if reg_is_strictly_zmm simd then DR_REG_ZMM0
                   else if reg_is_strictly_ymm simd then DR_REG_YMM0 else DR_REG_XMM0)
      in push_bit OFFSET (int simd - int START))"

definition GPR_ORDER :: "reg_id list" where
  "GPR_ORDER = [DR_REG_NULL, DR_REG_RAX, DR_REG_RCX, DR_REG_RDX, DR_REG_RBX, DR_REG_RSP, DR_REG_RBP,
     DR_REG_RSI, DR_REG_RDI, DR_REG_R8, 10, 11, 12, 13, 14, 15, DR_REG_R15]"

definition NUM_GPR_SLOTS :: nat where "NUM_GPR_SLOTS = 17"

definition insert_save_gpr_and_flags :: "client \<Rightarrow> minstr list" where
  "insert_save_gpr_and_flags c =
     [SaveReg DR_REG_RCX,
      ReadTls (tls_gpr c) DR_REG_RCX,
      Store DR_REG_RCX 8 DR_REG_RAX,
      Lahf,
      Store DR_REG_RCX 0 DR_REG_RAX,
      RestoreReg DR_REG_RAX,
      Store DR_REG_RCX 16 DR_REG_RAX] @
     map (\<lambda>i. Store DR_REG_RCX (offset_of_gpr (GPR_ORDER ! i)) (GPR_ORDER ! i)) [3..<NUM_GPR_SLOTS]"

definition insert_restore_gpr_and_flags :: "client \<Rightarrow> minstr list" where
  "insert_restore_gpr_and_flags c =
     [ReadTls (tls_gpr c) DR_REG_RCX,
      Load DR_REG_RAX DR_REG_RCX 0,
      Sahf,
      Load DR_REG_RAX DR_REG_RCX 8] @
     map (\<lambda>i. Load (GPR_ORDER ! i) DR_REG_RCX (offset_of_gpr (GPR_ORDER ! i))) (rev [2..<NUM_GPR_SLOTS])"

definition insert_set_destination_tls :: "cpu \<Rightarrow> client \<Rightarrow> reg_id \<Rightarrow> minstr list" where
  "insert_set_destination_tls cpu c destination =
     [ReadTls (tls_result c) DR_REG_OP_A_ADDR,
      ReadTls (tls_float c) DR_REG_OP_B_ADDR,
      Lea DR_REG_OP_C_ADDR DR_REG_OP_B_ADDR DR_REG_NULL 0 (offset_of_simd cpu destination),
      Store DR_REG_OP_A_ADDR 0 DR_REG_OP_C_ADDR]"

text \<open>Start, stop, size and move of the widest vector registers.\<close>

definition simd_range :: "cpu \<Rightarrow> reg_id list \<times> nat \<times> bool" where
  "simd_range cpu =
     (if AVX_512_SUPPORTED cpu then ([DR_REG_ZMM0..<Suc DR_REG_ZMM31], 64, True)
      else if AVX_SUPPORTED cpu then ([DR_REG_YMM0..<Suc DR_REG_YMM15], 32, True)
      else ([DR_REG_XMM0..<Suc DR_REG_XMM15], 16, False))"

definition insert_save_simd_registers :: "cpu \<Rightarrow> client \<Rightarrow> minstr list" where
  "insert_save_simd_registers cpu c =
     (let (regs, size, is_avx) = simd_range cpu in
      ReadTls (tls_float c) DR_SCRATCH_REG #
      map (\<lambda>i. StoreSimd is_avx DR_SCRATCH_REG (offset_of_simd cpu i) size i) regs)"

definition insert_restore_simd_registers :: "cpu \<Rightarrow> client \<Rightarrow> minstr list" where
  "insert_restore_simd_registers cpu c =
     (let (regs, size, is_avx) = simd_range cpu in
      ReadTls (tls_float c) DR_SCRATCH_REG #
      map (\<lambda>i. LoadSimd is_avx i DR_SCRATCH_REG (offset_of_simd cpu i) size) regs)"

section \<open>Setting up the operands\<close>

definition insert_set_operands_all_registers ::
    "cpu \<Rightarrow> client \<Rightarrow> reg_id \<Rightarrow> reg_id \<Rightarrow> reg_id \<Rightarrow> reg_id list \<Rightarrow> minstr list" where
  "insert_set_operands_all_registers cpu c src0 src1 src2 out_reg =
     (if src2 = DR_REG_NULL
      then [ReadTls (tls_float c) (out_reg ! 1),
            Lea (out_reg ! 0) (out_reg ! 1) DR_REG_NULL 0 (offset_of_simd cpu src0),
            Lea (out_reg ! 1) (out_reg ! 1) DR_REG_NULL 0 (offset_of_simd cpu src1)]
      else [ReadTls (tls_float c) (out_reg ! 2),
            Lea (out_reg ! 0) (out_reg ! 2) DR_REG_NULL 0 (offset_of_simd cpu src0),
            Lea (out_reg ! 1) (out_reg ! 2) DR_REG_NULL 0 (offset_of_simd cpu src1),
            Lea (out_reg ! 2) (out_reg ! 2) DR_REG_NULL 0 (offset_of_simd cpu src2)])"

text \<open>The new operand keeps the scale and displacement of \<open>addr\<close>; its segment is dropped.\<close>

definition insert_set_operands_base_disp :: "client \<Rightarrow> opnd \<Rightarrow> reg_id \<Rightarrow> reg_id \<Rightarrow> minstr list cres" where
  "insert_set_operands_base_disp c addr destination tempindex =
     (case addr of
        OpBaseDisp seg base index scale disp \<Rightarrow>
          Inr ([ReadTls (tls_gpr c) destination] @
               (if index \<noteq> DR_REG_NULL then [Load tempindex destination (offset_of_gpr index)] else []) @
               (if base \<noteq> DR_REG_NULL then [Load destination destination (offset_of_gpr base)] else []) @
               [Lea destination (if base \<noteq> DR_REG_NULL then destination else base)
                  (if index \<noteq> DR_REG_NULL then tempindex else index) scale disp])
      | _ \<Rightarrow> Inl Assert)"

definition insert_set_operands_addr :: "u64 \<Rightarrow> reg_id \<Rightarrow> minstr list" where
  "insert_set_operands_addr addr destination = [LoadInt destination addr]"

fun insert_lea_sources ::
    "cpu \<Rightarrow> app_instr \<Rightarrow> nat \<Rightarrow> reg_id list \<Rightarrow> nat \<Rightarrow> nat list \<Rightarrow> minstr list cres" where
  "insert_lea_sources cpu instr mem_src_idx out_regs last_reg_idx [] = Inr []"
| "insert_lea_sources cpu instr mem_src_idx out_regs last_reg_idx (i # is) =
     (if i \<noteq> mem_src_idx
      then bind_res (SRC instr i) (\<lambda>src. bind_res (GET_REG src) (\<lambda>reg.
           bind_res (insert_lea_sources cpu instr mem_src_idx out_regs last_reg_idx is) (\<lambda>rest.
           Inr (Lea (out_regs ! i) (out_regs ! last_reg_idx) DR_REG_NULL 0 (offset_of_simd cpu reg) # rest))))
      else insert_lea_sources cpu instr mem_src_idx out_regs last_reg_idx is)"

definition insert_set_operands_mem_reference ::
    "cpu \<Rightarrow> client \<Rightarrow> app_instr \<Rightarrow> bool \<Rightarrow> nat \<Rightarrow> reg_id list \<Rightarrow> minstr list cres" where
  "insert_set_operands_mem_reference cpu c instr fused mem_src_idx out_regs =
     bind_res (if mem_src_idx < length (ai_srcs instr) then SRC instr mem_src_idx else Inl Assert) (\<lambda>mem_src.
     bind_res (if opnd_is_base_disp mem_src
               then insert_set_operands_base_disp c mem_src (out_regs ! mem_src_idx)
                      (out_regs ! (if mem_src_idx = 0 then 1 else 0))
               else if OP_IS_ADDR mem_src
               then bind_res (opnd_get_addr mem_src) (\<lambda>addr.
                      Inr (insert_set_operands_addr addr (out_regs ! mem_src_idx)))
               else Inl Assert) (\<lambda>mem_code.
     let last_reg_idx = (if fused then 2 else 1);
         last_reg_idx = (if mem_src_idx = last_reg_idx then last_reg_idx - 1 else last_reg_idx)
     in bind_res (insert_lea_sources cpu instr mem_src_idx out_regs last_reg_idx [0..<(if fused then 3 else 2)]) (\<lambda>leas.
        Inr (mem_code @ [ReadTls (tls_float c) (out_regs ! last_reg_idx)] @ leas))))"

definition reg_op_addr :: "client \<Rightarrow> app_instr \<Rightarrow> u32 \<Rightarrow> reg_id list cres" where
  "reg_op_addr c instr oc =
     (if plc_is_fused oc
      then if oc AND PLC_OP_213 \<noteq> 0 then Inr [DR_REG_OP_B_ADDR, DR_REG_OP_C_ADDR, DR_REG_OP_A_ADDR]
           else if oc AND PLC_OP_231 \<noteq> 0 then Inr [DR_REG_OP_B_ADDR, DR_REG_OP_A_ADDR, DR_REG_OP_C_ADDR]
           else if oc AND PLC_OP_132 \<noteq> 0 then Inr [DR_REG_OP_C_ADDR, DR_REG_OP_A_ADDR, DR_REG_OP_B_ADDR]
           else Inl Assert
      else if need_sse_inverse c \<and> ai_any_sse instr
      then Inr [DR_REG_OP_B_ADDR, DR_REG_OP_A_ADDR, DR_REG_NULL]
      else Inr [DR_REG_OP_A_ADDR, DR_REG_OP_B_ADDR, DR_REG_NULL])"

text \<open>The index of the first memory operand, if there is one.\<close>

fun find_mem_src :: "app_instr \<Rightarrow> nat list \<Rightarrow> nat option cres" where
  "find_mem_src instr [] = Inr None"
| "find_mem_src instr (i # is) =
     bind_res (SRC instr i) (\<lambda>src.
       if OP_IS_ADDR src \<or> opnd_is_base_disp src then Inr (Some i) else find_mem_src instr is)"

definition insert_set_operands :: "cpu \<Rightarrow> client \<Rightarrow> app_instr \<Rightarrow> u32 \<Rightarrow> minstr list cres" where
  "insert_set_operands cpu c instr oc =
     (let fused = plc_is_fused oc in
      bind_res (reg_op_addr c instr oc) (\<lambda>regs.
      bind_res (find_mem_src instr [0..<(if fused then 3 else 2)]) (\<lambda>mem_src.
      case mem_src of
        None \<Rightarrow>
          bind_res (bind_res (SRC instr 0) GET_REG) (\<lambda>r0.
          bind_res (bind_res (SRC instr 1) GET_REG) (\<lambda>r1.
          bind_res (if fused then bind_res (SRC instr 2) GET_REG else Inr DR_REG_NULL) (\<lambda>r2.
          Inr (insert_set_operands_all_registers cpu c r0 r1 r2 regs))))
      | Some i \<Rightarrow> insert_set_operands_mem_reference cpu c instr fused i regs)))"

definition insert_restore_rsp :: "client \<Rightarrow> minstr list" where
  "insert_restore_rsp c =
     [ReadTls (tls_gpr c) DR_REG_RSP, Load DR_REG_RSP DR_REG_RSP (offset_of_gpr DR_REG_RSP)]"

section \<open>Choosing the function to call\<close>

text \<open>Both \<open>insert_corresponding_vect_call\<close> functions: they differ in the struct they instantiate.\<close>

definition insert_corresponding_vect_call :: "bool \<Rightarrow> fkind \<Rightarrow> u32 \<Rightarrow> minstr" where
  "insert_corresponding_vect_call is_double fn oc =
     (let simd = oc AND PLC_SIMD_TYPE_MASK;
          isa = (if oc AND PLC_OP_SSE \<noteq> 0 then PLC_OP_SSE else PLC_OP_AVX);
          call = (\<lambda>cat sd. CallBackend \<lparr>ce_fn = fn, ce_double = is_double, ce_category = cat, ce_simd = sd\<rparr>)
      in if simd = PLC_OP_128 then call isa PLC_OP_128
         else if simd = PLC_OP_256 then call PLC_OP_AVX PLC_OP_256
         else if simd = PLC_OP_512 then call PLC_OP_AVX PLC_OP_512
         else call isa PLC_OP_SCALAR)"

definition insert_call :: "u32 \<Rightarrow> bool \<Rightarrow> minstr list" where
  "insert_call oc is_double =
     (if oc AND PLC_OP_FUSED \<noteq> 0
      then if oc AND PLC_OP_FMA \<noteq> 0
           then if \<not> (oc AND PLC_OP_NEG \<noteq> 0) then [insert_corresponding_vect_call is_double FMadd oc]
                else [insert_corresponding_vect_call is_double FNmadd oc]
           else if oc AND PLC_OP_FMS \<noteq> 0
           then if \<not> (oc AND PLC_OP_NEG \<noteq> 0) then [insert_corresponding_vect_call is_double FMsub oc]
                else [insert_corresponding_vect_call is_double FNmsub oc]
           else []
      else let ty = oc AND PLC_OP_TYPE_MASK in
           if ty = PLC_OP_ADD then [insert_corresponding_vect_call is_double FAdd oc]
           else if ty = PLC_OP_SUB then [insert_corresponding_vect_call is_double FSub oc]
           else if ty = PLC_OP_MUL then [insert_corresponding_vect_call is_double FMul oc]
           else if ty = PLC_OP_DIV then [insert_corresponding_vect_call is_double FDiv oc]
           else [])"

section \<open>The pass over a basic block\<close>

text \<open>What is inserted for one instruction of a run, up to and including the call.\<close>

definition instrument_one :: "cpu \<Rightarrow> client \<Rightarrow> bool \<Rightarrow> app_instr \<Rightarrow> u32 \<Rightarrow> minstr list cres" where
  "instrument_one cpu c registers_saved instr oc =
     bind_res (bind_res (DST instr 0) GET_REG) (\<lambda>dst.
     bind_res (insert_set_operands cpu c instr oc) (\<lambda>operands.
     Inr ((if \<not> registers_saved then insert_save_gpr_and_flags c @ insert_save_simd_registers cpu c else []) @
          insert_set_destination_tls cpu c dst @ operands @
          (if \<not> registers_saved then insert_restore_rsp c @ [SubSp 32] else []) @
          insert_call oc (plc_is_double oc))))"

text \<open>
  The two nested loops of \<open>app2app_bb_event\<close> as one recursion over the block: \<open>registers_saved\<close> says
  whether the current instruction continues a run. After an instrumented instruction the category of
  the next one is read before the test that there is a next one.
\<close>

fun app2app_loop :: "cpu \<Rightarrow> client \<Rightarrow> bool \<Rightarrow> app_instr list \<Rightarrow> minstr list cres" where
  "app2app_loop cpu c saved [] = Inr []"
| "app2app_loop cpu c saved (instr # rest) =
     (let oc = plc_get_operation_category (ai_fp instr) in
      if plc_is_instrumented oc
      then bind_res (instrument_one cpu c saved instr oc) (\<lambda>code.
           case rest of
             [] \<Rightarrow> Inl NullDeref
           | next # _ \<Rightarrow>
               let should_continue = plc_is_instrumented (plc_get_operation_category (ai_fp next)) in
               bind_res (app2app_loop cpu c should_continue rest) (\<lambda>more.
               Inr (code @
                    (if \<not> should_continue
                     then insert_restore_simd_registers cpu c @ insert_restore_gpr_and_flags c else []) @
                    more)))
      else bind_res (app2app_loop cpu c False rest) (\<lambda>more. Inr (AppInstr instr # more)))"

definition app2app_bb_event :: "cpu \<Rightarrow> client \<Rightarrow> bool \<Rightarrow> app_instr list \<Rightarrow> minstr list cres" where
  "app2app_bb_event cpu c needs_to_instrument bb =
     (if \<not> needs_to_instrument then Inr (map AppInstr bb) else app2app_loop cpu c False bb)"

end
