(* ===== verification/Plc_Dispatch.thy ===== *)
theory Plc_Dispatch
  imports Plc_Client
begin

text \<open>
  The code that \<open>insert_call\<close> and \<open>insert_set_operands\<close> choose for the category of a well-formed
  mnemonic: which instance of the backend is called, and which argument register gets the address
  of which source.
\<close>

section \<open>The called function\<close>

lemma kind_masks [simp]:
  "kind_flags k AND PLC_OP_TYPE_MASK = kind_flags k" "kind_flags k AND PLC_SIMD_TYPE_MASK = 0"
  by (cases k; simp add: plc_flag_defs)+

lemma order_masks [simp]:
  "order_flags r AND PLC_OP_TYPE_MASK = order_flags r" "order_flags r AND PLC_SIMD_TYPE_MASK = 0"
  by (cases r; simp add: plc_flag_defs)+

lemma size_flag_masks:
  "size_flag_of m f \<Longrightarrow> f AND PLC_OP_TYPE_MASK = 0" "size_flag_of m f \<Longrightarrow> f AND PLC_SIMD_TYPE_MASK = f"
  by (auto simp: size_flag_of_def plc_flag_defs split: if_splits)

lemma flag_masks [simp]:
  "PLC_OP_DOUBLE AND PLC_OP_TYPE_MASK = 0" "PLC_OP_FLOAT AND PLC_OP_TYPE_MASK = 0"
  "PLC_OP_PACKED AND PLC_OP_TYPE_MASK = 0" "PLC_OP_SCALAR AND PLC_OP_TYPE_MASK = 0"
  "PLC_OP_AVX AND PLC_OP_TYPE_MASK = 0" "PLC_OP_SSE AND PLC_OP_TYPE_MASK = 0"
  "PLC_OP_128 AND PLC_OP_TYPE_MASK = 0"
  "PLC_OP_DOUBLE AND PLC_SIMD_TYPE_MASK = 0" "PLC_OP_FLOAT AND PLC_SIMD_TYPE_MASK = 0"
  "PLC_OP_PACKED AND PLC_SIMD_TYPE_MASK = 0" "PLC_OP_SCALAR AND PLC_SIMD_TYPE_MASK = 0"
  "PLC_OP_AVX AND PLC_SIMD_TYPE_MASK = 0" "PLC_OP_SSE AND PLC_SIMD_TYPE_MASK = 0"
  "PLC_OP_128 AND PLC_SIMD_TYPE_MASK = PLC_OP_128"
  by (simp_all add: plc_flag_defs)

lemma category_type:
  "size_flag_of m f \<Longrightarrow>
     mnemonic_category m f AND PLC_OP_TYPE_MASK = kind_flags (mn_kind m) OR order_flags (mn_order m)"
  by (simp add: mnemonic_category_def mnemonic_flags_def bit.conj_disj_distrib2 size_flag_masks)

definition simd_flag :: "mnemonic \<Rightarrow> u32 \<Rightarrow> u32" where
  "simd_flag m f = (if mn_avx m then f else if mn_packed m then PLC_OP_128 else 0)"

lemma category_simd:
  assumes "size_flag_of m f"
  shows "mnemonic_category m f AND PLC_SIMD_TYPE_MASK = simd_flag m f"
proof -
  have "\<not> mn_avx m \<Longrightarrow> f = 0" using assms by (simp add: size_flag_of_def mnemonic_sized_def)
  then show ?thesis
    using assms
    by (simp add: mnemonic_category_def mnemonic_flags_def bit.conj_disj_distrib2 size_flag_masks simd_flag_def)
qed

text \<open>The instance a mnemonic stands for.\<close>

definition mnemonic_callee :: "mnemonic \<Rightarrow> u32 \<Rightarrow> callee" where
  "mnemonic_callee m f =
     \<lparr>ce_fn = mn_kind m, ce_double = mn_double m,
      ce_category = (if mn_avx m then PLC_OP_AVX else PLC_OP_SSE),
      ce_simd = (if simd_flag m f = 0 then PLC_OP_SCALAR else simd_flag m f)\<rparr>"

lemma vect_call_mnemonic:
  assumes "size_flag_of m f"
  shows "insert_corresponding_vect_call (mn_double m) (mn_kind m) (mnemonic_category m f) =
    CallBackend (mnemonic_callee m f)"
proof -
  have "simd_flag m f \<in> {0, PLC_OP_128, PLC_OP_256, PLC_OP_512}"
    using assms by (auto simp: simd_flag_def size_flag_of_def split: if_splits)
  moreover have "simd_flag m f \<in> {PLC_OP_256, PLC_OP_512} \<Longrightarrow> mn_avx m"
    using size_flags_distinct by (auto simp: simd_flag_def split: if_splits)
  ultimately show ?thesis
    unfolding insert_corresponding_vect_call_def category_simd [OF assms] category_tests(16) [OF assms]
    using size_flags_distinct by (auto simp: mnemonic_callee_def Let_def)
qed

lemma insert_call_mnemonic:
  assumes "mnemonic_wf m" "size_flag_of m f"
  shows "insert_call (mnemonic_category m f) (plc_is_double (mnemonic_category m f)) =
    [CallBackend (mnemonic_callee m f)]"
proof -
  note t = category_tests [OF assms(2)] vect_call_mnemonic [OF assms(2), symmetric]
  have ty: "\<not> kind_fused (mn_kind m) \<Longrightarrow>
      mnemonic_category m f AND PLC_OP_TYPE_MASK = kind_flags (mn_kind m)"
    using assms by (simp add: category_type mnemonic_wf_def)
  have d: "PLC_OP_ADD \<noteq> PLC_OP_SUB" "PLC_OP_ADD \<noteq> PLC_OP_MUL" "PLC_OP_ADD \<noteq> PLC_OP_DIV"
    "PLC_OP_SUB \<noteq> PLC_OP_MUL" "PLC_OP_SUB \<noteq> PLC_OP_DIV" "PLC_OP_MUL \<noteq> PLC_OP_DIV"
    by (simp_all add: plc_flag_defs)
  show ?thesis
    unfolding insert_call_def plc_is_fused_def [symmetric] plc_is_fma_def [symmetric]
      plc_is_fms_def [symmetric] plc_is_negated_def [symmetric] t
    by (cases "mn_kind m") (use ty d d [symmetric] in \<open>simp_all add: kind_fused_def Let_def\<close>)
qed


lemma category_mnemonic:
  assumes "plc_is_instrumented (plc_get_operation_category i)"
  obtains m where "mnemonic_wf m" "mnemonic_name m = fi_opcode i" "\<not> fi_evex i"
    "size_flag_of m (if mnemonic_sized m then get_size_flag i else 0)"
    "plc_get_operation_category i = mnemonic_category m (if mnemonic_sized m then get_size_flag i else 0)"
proof (cases i rule: category_cases)
  case other
  with assms show ?thesis by (simp add: plc_is_instrumented_def PLC_OTHER_def)
next
  case (mnem m)
  have "size_flag_of m (if mnemonic_sized m then get_size_flag i else 0)"
    using get_size_flag_cases [of i] by (simp add: size_flag_of_def)
  with mnem that show ?thesis by (simp add: mnemonic_category_def)
qed

text \<open>C4. For every instruction the client instruments, \<open>insert_call\<close> inserts exactly one call, to the
  backend function its mnemonic names, at its precision, instantiated for its instruction set and
  its vector length; the error branch is never taken.\<close>

theorem insert_call_dispatch:
  assumes "plc_is_instrumented (plc_get_operation_category i)"
  shows "\<exists>m. mnemonic_wf m \<and> mnemonic_name m = fi_opcode i \<and>
    insert_call (plc_get_operation_category i) (plc_is_double (plc_get_operation_category i)) =
      [CallBackend (mnemonic_callee m (if mnemonic_sized m then get_size_flag i else 0))]"
proof -
  from assms obtain m where m: "mnemonic_wf m" "mnemonic_name m = fi_opcode i"
    "size_flag_of m (if mnemonic_sized m then get_size_flag i else 0)"
    "plc_get_operation_category i = mnemonic_category m (if mnemonic_sized m then get_size_flag i else 0)"
    by (rule category_mnemonic)
  from m(1,2) insert_call_mnemonic [OF m(1,3)] show ?thesis unfolding m(4) by blast
qed

theorem insert_call_dispatch_witness:
  "\<exists>m. mnemonic_wf m \<and> mnemonic_name m = ''vdivpd'' \<and>
    insert_call (plc_get_operation_category \<lparr>fi_opcode = ''vdivpd'', fi_evex = False, fi_src_sizes = [32, 32]\<rparr>)
      (plc_is_double (plc_get_operation_category \<lparr>fi_opcode = ''vdivpd'', fi_evex = False, fi_src_sizes = [32, 32]\<rparr>)) =
      [CallBackend (mnemonic_callee m (if mnemonic_sized m
         then get_size_flag \<lparr>fi_opcode = ''vdivpd'', fi_evex = False, fi_src_sizes = [32, 32]\<rparr> else 0))]"
proof -
  let ?i = "\<lparr>fi_opcode = ''vdivpd'', fi_evex = False, fi_src_sizes = [32, 32]\<rparr> :: fp_instr"
  have "plc_is_instrumented (plc_get_operation_category ?i)" by code_simp
  from insert_call_dispatch [OF this] show ?thesis by simp
qed

section \<open>The order of the operands\<close>

text \<open>For each source of the instruction, in the order DynamoRIO lists them, the argument of the
  backend function it becomes.\<close>

definition operand_regs :: "client \<Rightarrow> mnemonic \<Rightarrow> reg_id list" where
  "operand_regs c m =
     (case mn_order m of
        O132 \<Rightarrow> [DR_REG_OP_C_ADDR, DR_REG_OP_A_ADDR, DR_REG_OP_B_ADDR]
      | O213 \<Rightarrow> [DR_REG_OP_B_ADDR, DR_REG_OP_C_ADDR, DR_REG_OP_A_ADDR]
      | O231 \<Rightarrow> [DR_REG_OP_B_ADDR, DR_REG_OP_A_ADDR, DR_REG_OP_C_ADDR]
      | NoOrder \<Rightarrow> if need_sse_inverse c \<and> \<not> mn_avx m
                   then [DR_REG_OP_B_ADDR, DR_REG_OP_A_ADDR, DR_REG_NULL]
                   else [DR_REG_OP_A_ADDR, DR_REG_OP_B_ADDR, DR_REG_NULL])"

lemma reg_op_addr_mnemonic:
  assumes "mnemonic_wf m" "size_flag_of m f" "ai_any_sse i = (\<not> mn_avx m)"
  shows "reg_op_addr c i (mnemonic_category m f) = Inr (operand_regs c m)"
proof -
  note t = category_tests [OF assms(2)]
  show ?thesis
    unfolding reg_op_addr_def plc_is_fma213_def [symmetric] plc_is_fma231_def [symmetric]
      plc_is_fma132_def [symmetric] t
    using assms(1,3) by (cases "mn_order m") (auto simp: operand_regs_def mnemonic_wf_def)
qed

end
