(* ===== verification/Plc_Frames.thy ===== *)
theory Plc_Frames
  imports Plc_Dispatch
begin

text \<open>
  Execution of the saving and restoring sequences of \<open>padloc_client.cpp\<close>: what the thread-local
  buffers hold after the registers are saved, and that restoring brings the registers back.
\<close>

section \<open>Offsets\<close>

lemma GPR_ORDER_nth: "i < 17 \<Longrightarrow> GPR_ORDER ! i = i"
proof -
  have "GPR_ORDER = [0..<17]" by (simp add: GPR_ORDER_def reg_defs upt_conv_Cons)
  moreover have "i < 17 \<Longrightarrow> [0..<17] ! i = 0 + i" by (rule nth_upt) simp
  ultimately show "i < 17 \<Longrightarrow> GPR_ORDER ! i = i" by (simp only: add_0)
qed

lemma offset_of_gpr_eq: "offset_of_gpr r = int (8 * r)"
  by (simp add: offset_of_gpr_def DR_REG_RAX_def push_bit_eq_mult)

lemma gpr_slot: "B + of_int (offset_of_gpr r) = slot_addr B 8 r"
  by (simp add: slot_addr_def offset_of_gpr_eq)

lemma offset_of_simd_eq:
  assumes "is_vector r"
  shows "offset_of_simd cpu r = int (vec_bytes cpu * simd_index r)"
proof -
  have "int r - int (if reg_is_strictly_zmm r then DR_REG_ZMM0
          else if reg_is_strictly_ymm r then DR_REG_YMM0 else DR_REG_XMM0) = int (simd_index r)"
    using assms by (auto simp: simd_index_def is_vector_def reg_is_strictly_zmm_def reg_is_strictly_ymm_def
        reg_is_strictly_xmm_def)
  then show ?thesis
    by (simp add: offset_of_simd_def vec_bytes_def push_bit_eq_mult Let_def)
qed

lemma simd_slot: "is_vector r \<Longrightarrow> B + of_int (offset_of_simd cpu r) = slot_addr B (vec_bytes cpu) (simd_index r)"
  by (simp add: slot_addr_def offset_of_simd_eq)

definition simd_start :: "cpu \<Rightarrow> reg_id" where
  "simd_start cpu =
     (if AVX_512_SUPPORTED cpu then DR_REG_ZMM0 else if AVX_SUPPORTED cpu then DR_REG_YMM0 else DR_REG_XMM0)"

lemma simd_range_eq:
  "simd_range cpu = (map (\<lambda>j. simd_start cpu + j) [0..<num_vecs cpu], vec_bytes cpu,
     AVX_512_SUPPORTED cpu \<or> AVX_SUPPORTED cpu)"
  by (simp add: simd_range_def simd_start_def num_vecs_def vec_bytes_def reg_defs upt_conv_Cons)

lemma simd_start_index:
  assumes "j < num_vecs cpu"
  shows "is_vector (simd_start cpu + j)" "simd_index (simd_start cpu + j) = j"
  using assms
  by (auto simp: simd_start_def num_vecs_def is_vector_def simd_index_def reg_is_strictly_zmm_def
      reg_is_strictly_ymm_def reg_is_strictly_xmm_def reg_defs split: if_splits)

section \<open>Sequences of moves\<close>

lemma exec_stores:
  "exec ev cpu c (map (\<lambda>i. Store b (off i) (reg i)) is) s =
     s\<lparr>ms_mem := fold (\<lambda>i. store_bytes (ms_gpr s b + of_int (off i)) (le_bytes 8 (ms_gpr s (reg i)))) is (ms_mem s)\<rparr>"
  by (induction "is" arbitrary: s) simp_all

lemma exec_simd_stores:
  "exec ev cpu c (map (\<lambda>i. StoreSimd v b (off i) n (reg i)) is) s =
     s\<lparr>ms_mem := fold (\<lambda>i. store_bytes (ms_gpr s b + of_int (off i)) (take n (ms_simd s (simd_index (reg i))))) is
          (ms_mem s)\<rparr>"
  by (induction "is" arbitrary: s) simp_all

lemma exec_loads:
  "b \<notin> set is \<Longrightarrow> exec ev cpu c (map (\<lambda>i. Load i b (off i)) is) s =
     s\<lparr>ms_gpr := (\<lambda>g. if g \<in> set is then le_word (load_bytes (ms_gpr s b + of_int (off g)) 8 (ms_mem s))
                     else ms_gpr s g)\<rparr>"
  by (induction "is" arbitrary: s) (auto simp: set_gpr_def fun_eq_iff)


lemma exec_simd_loads:
  assumes "\<forall>i \<in> set is. simd_index (reg i) = i" "v \<or> (\<forall>i. length (ms_simd s i) \<le> vec_bytes cpu)"
  shows "exec ev cpu c (map (\<lambda>i. LoadSimd v (reg i) b (off i) (vec_bytes cpu)) is) s =
     s\<lparr>ms_simd := (\<lambda>j. if j \<in> set is
          then load_bytes (ms_gpr s b + of_int (off j)) (vec_bytes cpu) (ms_mem s) else ms_simd s j)\<rparr>"
  using assms
proof (induction "is" arbitrary: s)
  case (Cons i "is")
  let ?s = "exec_instr ev cpu c (LoadSimd v (reg i) b (off i) (vec_bytes cpu)) s"
  have s1: "?s = s\<lparr>ms_simd := (ms_simd s)(i := load_bytes (ms_gpr s b + of_int (off i)) (vec_bytes cpu) (ms_mem s))\<rparr>"
    using Cons.prems by auto
  have "v \<or> (\<forall>i. length (ms_simd ?s i) \<le> vec_bytes cpu)" using Cons.prems by (auto simp: s1)
  note IH = Cons.IH [OF _ this]
  show ?case unfolding list.map exec_Cons using Cons.prems(1)
    by (subst IH) (simp, unfold s1, auto simp: fun_eq_iff)
qed simp

section \<open>Well-formed states and the saved application state\<close>

text \<open>
  The three thread-local buffers, with the sizes that \<open>thread_init\<close> allocates, and the bytes below
  the stack pointer that a call uses once the pointer has been lowered by 32.
\<close>

definition scratch_ranges :: "'r env \<Rightarrow> cpu \<Rightarrow> client \<Rightarrow> 'r mstate \<Rightarrow> (u64 \<times> nat) list" where
  "scratch_ranges ev cpu c s =
     [(ms_tls s (tls_gpr c), 8 * NUM_GPR_SLOTS),
      (ms_tls s (tls_float c), vec_bytes cpu * num_vecs cpu),
      (ms_tls s (tls_result c), 8),
      (ms_gpr s DR_REG_RSP - 32 - of_nat (ev_depth ev), ev_depth ev)]"

definition is_scratch :: "'r env \<Rightarrow> cpu \<Rightarrow> client \<Rightarrow> 'r mstate \<Rightarrow> u64 \<Rightarrow> bool" where
  "is_scratch ev cpu c s x \<longleftrightarrow> (\<exists>(a, n) \<in> set (scratch_ranges ev cpu c s). in_range a n x)"

fun pairwise_apart :: "(u64 \<times> nat) list \<Rightarrow> bool" where
  "pairwise_apart [] = True"
| "pairwise_apart ((a, n) # rs) = ((\<forall>(b, k) \<in> set rs. apart a n b k) \<and> pairwise_apart rs)"

definition state_ok :: "'r env \<Rightarrow> cpu \<Rightarrow> client \<Rightarrow> 'r mstate \<Rightarrow> bool" where
  "state_ok ev cpu c s \<longleftrightarrow>
     pairwise_apart (scratch_ranges ev cpu c s) \<and> ev_depth ev \<le> 2 ^ 64 \<and>
     (\<forall>i < num_vecs cpu. length (ms_simd s i) = vec_bytes cpu)"

definition same_outside :: "'r env \<Rightarrow> cpu \<Rightarrow> client \<Rightarrow> 'r mstate \<Rightarrow> 'r mstate \<Rightarrow> bool" where
  "same_outside ev cpu c s t \<longleftrightarrow>
     ms_tls t = ms_tls s \<and> ms_backend t = ms_backend s \<and>
     (\<forall>x. \<not> is_scratch ev cpu c s x \<longrightarrow> ms_mem t x = ms_mem s x)"

text \<open>The buffers of \<open>t\<close> hold the registers of \<open>s\<close>.\<close>

definition saved_gprs :: "cpu \<Rightarrow> client \<Rightarrow> 'r mstate \<Rightarrow> memory \<Rightarrow> bool" where
  "saved_gprs cpu c s m \<longleftrightarrow>
     (\<forall>r \<in> {1..<NUM_GPR_SLOTS}. load_bytes (slot_addr (ms_tls s (tls_gpr c)) 8 r) 8 m = le_bytes 8 (ms_gpr s r)) \<and>
     ucast (drop_bit 8 (le_word (load_bytes (slot_addr (ms_tls s (tls_gpr c)) 8 0) 8 m) :: u64)) = ms_flags s"

definition saved_simds :: "cpu \<Rightarrow> client \<Rightarrow> 'r mstate \<Rightarrow> memory \<Rightarrow> bool" where
  "saved_simds cpu c s m \<longleftrightarrow>
     (\<forall>i < num_vecs cpu. load_bytes (slot_addr (ms_tls s (tls_float c)) (vec_bytes cpu) i) (vec_bytes cpu) m =
        ms_simd s i)"

definition saved :: "'r env \<Rightarrow> cpu \<Rightarrow> client \<Rightarrow> 'r mstate \<Rightarrow> 'r mstate \<Rightarrow> bool" where
  "saved ev cpu c s t \<longleftrightarrow>
     same_outside ev cpu c s t \<and> saved_gprs cpu c s (ms_mem t) \<and> saved_simds cpu c s (ms_mem t)"

lemma buffer_bounds:
  "vec_bytes cpu * num_vecs cpu \<le> 2 ^ 64" "8 * NUM_GPR_SLOTS \<le> 2 ^ 64" "vec_bytes cpu \<le> 2 ^ 64"
  "vec_bytes cpu > 0" "num_vecs cpu \<ge> 16"
  by (simp_all add: vec_bytes_def num_vecs_def NUM_GPR_SLOTS_def)

lemma state_ok_apart:
  assumes "state_ok ev cpu c s"
  shows "apart (ms_tls s (tls_gpr c)) (8 * NUM_GPR_SLOTS) (ms_tls s (tls_float c)) (vec_bytes cpu * num_vecs cpu)"
    "apart (ms_tls s (tls_gpr c)) (8 * NUM_GPR_SLOTS) (ms_tls s (tls_result c)) 8"
    "apart (ms_tls s (tls_float c)) (vec_bytes cpu * num_vecs cpu) (ms_tls s (tls_result c)) 8"
    "apart (ms_tls s (tls_gpr c)) (8 * NUM_GPR_SLOTS) (ms_gpr s DR_REG_RSP - 32 - of_nat (ev_depth ev)) (ev_depth ev)"
    "apart (ms_tls s (tls_float c)) (vec_bytes cpu * num_vecs cpu) (ms_gpr s DR_REG_RSP - 32 - of_nat (ev_depth ev)) (ev_depth ev)"
    "apart (ms_tls s (tls_result c)) 8 (ms_gpr s DR_REG_RSP - 32 - of_nat (ev_depth ev)) (ev_depth ev)"
  using assms by (simp_all add: state_ok_def scratch_ranges_def)

lemma not_scratch:
  assumes "\<not> is_scratch ev cpu c s x"
  shows "\<not> in_range (ms_tls s (tls_gpr c)) (8 * NUM_GPR_SLOTS) x"
    "\<not> in_range (ms_tls s (tls_float c)) (vec_bytes cpu * num_vecs cpu) x"
    "\<not> in_range (ms_tls s (tls_result c)) 8 x"
    "\<not> in_range (ms_gpr s DR_REG_RSP - 32 - of_nat (ev_depth ev)) (ev_depth ev) x"
  using assms by (simp_all add: is_scratch_def scratch_ranges_def)

section \<open>Saving\<close>

definition lahf_rax :: "u64 \<Rightarrow> u8 \<Rightarrow> u64" where
  "lahf_rax rax flags = (rax AND NOT (push_bit 8 255)) OR push_bit 8 (ucast flags)"

lemma lahf_rax_flags: "ucast (drop_bit 8 (lahf_rax rax flags)) = flags"
proof (rule bit_word_eqI)
  fix n assume "n < LENGTH(8)"
  then have n: "n < 8" by simp
  have m: "(255 :: u64) = mask 8" by (simp add: mask_eq_exp_minus_1)
  have "bit (lahf_rax rax flags) (8 + n) = bit flags n"
    unfolding lahf_rax_def bit_or_iff bit_and_iff bit_not_iff bit_push_bit_iff m bit_mask_iff bit_unsigned_iff
    using n by simp
  then show "bit (ucast (drop_bit 8 (lahf_rax rax flags)) :: u8) n = bit flags n"
    using n by (simp add: bit_simps)
qed

definition gpr_slots :: "'r mstate \<Rightarrow> nat \<Rightarrow> u8 list" where
  "gpr_slots s i = (if i = 0 then le_bytes 8 (lahf_rax (ms_gpr s DR_REG_RAX) (ms_flags s)) else le_bytes 8 (ms_gpr s i))"

text \<open>The order in which the slots are written.\<close>

definition gpr_slot_list :: "nat list" where
  "gpr_slot_list = [1, 0, 2] @ [3..<NUM_GPR_SLOTS]"

lemma set_gpr_slot_list: "set gpr_slot_list = {..<NUM_GPR_SLOTS}"
  unfolding gpr_slot_list_def set_append set_upt by (auto simp: NUM_GPR_SLOTS_def)

lemma exec_save_gpr:
  obtains g sp where "exec ev cpu c (insert_save_gpr_and_flags c) s =
    s\<lparr>ms_gpr := g, ms_spill := sp,
      ms_mem := slots (ms_tls s (tls_gpr c)) 8 (gpr_slots s) gpr_slot_list (ms_mem s)\<rparr>"
    "\<And>r. r \<noteq> DR_REG_RAX \<Longrightarrow> r \<noteq> DR_REG_RCX \<Longrightarrow> g r = ms_gpr s r"
proof -
  let ?G = "ms_tls s (tls_gpr c)"
  let ?g = "(ms_gpr s)(DR_REG_RCX := ?G, DR_REG_RAX := ms_gpr s DR_REG_RCX)"
  have st: "map (\<lambda>i. Store DR_REG_RCX (offset_of_gpr (GPR_ORDER ! i)) (GPR_ORDER ! i)) [3..<NUM_GPR_SLOTS] =
      map (\<lambda>i. Store DR_REG_RCX (offset_of_gpr i) i) [3..<NUM_GPR_SLOTS]"
    by (rule map_cong) (auto simp: NUM_GPR_SLOTS_def GPR_ORDER_nth)
  have fo: "fold (\<lambda>i. store_bytes (?G + of_int (offset_of_gpr i)) (le_bytes 8 (?g i))) [3..<NUM_GPR_SLOTS] m =
      slots ?G 8 (gpr_slots s) [3..<NUM_GPR_SLOTS] m" for m
    unfolding slots_def gpr_slot
    by (rule fold_cong) (auto simp: gpr_slots_def reg_defs)
  let ?s = "s\<lparr>ms_gpr := ?g, ms_spill := ms_gpr s DR_REG_RCX,
      ms_mem := slots ?G 8 (gpr_slots s) [1, 0, 2] (ms_mem s)\<rparr>"
  have pre: "exec ev cpu c
     [SaveReg DR_REG_RCX, ReadTls (tls_gpr c) DR_REG_RCX, Store DR_REG_RCX 8 DR_REG_RAX, Lahf,
      Store DR_REG_RCX 0 DR_REG_RAX, RestoreReg DR_REG_RAX, Store DR_REG_RCX 16 DR_REG_RAX] s = ?s"
    by (simp add: set_gpr_def reg_defs gpr_slots_def slot_addr_def fun_upd_twist lahf_rax_def)
  have g: "ms_gpr ?s = ?g" "?g DR_REG_RCX = ?G" by (simp_all add: reg_defs)
  have "exec ev cpu c (insert_save_gpr_and_flags c) s =
    ?s\<lparr>ms_mem := slots ?G 8 (gpr_slots s) [3..<NUM_GPR_SLOTS] (ms_mem ?s)\<rparr>"
    unfolding insert_save_gpr_and_flags_def st exec_append pre exec_stores g fo ..
  also have "\<dots> = s\<lparr>ms_gpr := ?g, ms_spill := ms_gpr s DR_REG_RCX,
      ms_mem := slots ?G 8 (gpr_slots s) gpr_slot_list (ms_mem s)\<rparr>"
    by (simp add: slots_def gpr_slot_list_def)
  finally have "exec ev cpu c (insert_save_gpr_and_flags c) s =
    s\<lparr>ms_gpr := ?g, ms_spill := ms_gpr s DR_REG_RCX,
      ms_mem := slots ?G 8 (gpr_slots s) gpr_slot_list (ms_mem s)\<rparr>" .
  then show ?thesis by (rule that) simp
qed

lemma exec_save_simd:
  assumes "\<forall>i < num_vecs cpu. length (ms_simd s i) = vec_bytes cpu"
  shows "exec ev cpu c (insert_save_simd_registers cpu c) s =
    s\<lparr>ms_gpr := (ms_gpr s)(DR_REG_RCX := ms_tls s (tls_float c)),
      ms_mem := slots (ms_tls s (tls_float c)) (vec_bytes cpu) (ms_simd s) [0..<num_vecs cpu] (ms_mem s)\<rparr>"
proof -
  let ?F = "ms_tls s (tls_float c)" and ?W = "vec_bytes cpu"
  let ?reg = "\<lambda>j. simd_start cpu + j"
  have fo: "fold (\<lambda>j. store_bytes (?F + of_int (offset_of_simd cpu (?reg j)))
        (take ?W (ms_simd s (simd_index (?reg j))))) [0..<num_vecs cpu] m =
      slots ?F ?W (ms_simd s) [0..<num_vecs cpu] m" for m
    unfolding slots_def
    by (rule fold_cong) (use assms in \<open>simp_all add: simd_slot simd_start_index\<close>)
  show ?thesis
    unfolding insert_save_simd_registers_def simd_range_eq
    by (simp add: comp_def exec_simd_stores set_gpr_def DR_SCRATCH_REG_def fo)
qed

lemma slots_gpr_ok: "\<forall>i \<in> set gpr_slot_list. i < NUM_GPR_SLOTS \<and> length (gpr_slots s i) = 8"
  by (simp add: set_gpr_slot_list gpr_slots_def)

lemma save_ok:
  assumes ok: "state_ok ev cpu c s"
  obtains t where "exec ev cpu c (insert_save_gpr_and_flags c @ insert_save_simd_registers cpu c) s = t"
    "saved ev cpu c s t"
proof -
  let ?G = "ms_tls s (tls_gpr c)" and ?F = "ms_tls s (tls_float c)"
  let ?W = "vec_bytes cpu" and ?N = "num_vecs cpu"
  let ?m1 = "slots ?G 8 (gpr_slots s) gpr_slot_list (ms_mem s)"
  let ?m2 = "slots ?F ?W (ms_simd s) [0..<?N] ?m1"
  obtain g sp where e1: "exec ev cpu c (insert_save_gpr_and_flags c) s =
      s\<lparr>ms_gpr := g, ms_spill := sp, ms_mem := ?m1\<rparr>"
    by (rule exec_save_gpr)
  have len: "\<forall>i < ?N. length (ms_simd s i) = ?W" using ok by (simp add: state_ok_def)
  have e: "exec ev cpu c (insert_save_gpr_and_flags c @ insert_save_simd_registers cpu c) s =
      s\<lparr>ms_gpr := g(DR_REG_RCX := ?F), ms_spill := sp, ms_mem := ?m2\<rparr>" (is "_ = ?t")
    unfolding exec_append e1 by (subst exec_save_simd) (use len in simp_all)
  have sok: "\<forall>i \<in> set [0..<?N]. i < ?N \<and> length (ms_simd s i) = ?W" using len by simp
  have "ms_mem ?t x = ms_mem s x" if "\<not> is_scratch ev cpu c s x" for x
    using not_scratch [OF that] slots_out [OF sok _ buffer_bounds(1)] slots_out [OF slots_gpr_ok _ buffer_bounds(2)]
    by simp
  then have out: "same_outside ev cpu c s ?t" by (simp add: same_outside_def)
  have l: "load_bytes (slot_addr ?G 8 r) 8 ?m2 = gpr_slots s r" if "r < NUM_GPR_SLOTS" for r
  proof -
    have "apart ?F (?W * ?N) (slot_addr ?G 8 r) 8"
      unfolding slot_addr_def
      using apart_sub [OF state_ok_apart(1) [OF ok], where i = "8 * r" and n = 8 and j = 0 and h = "?W * ?N"]
        slot_bound [OF that, of 8] buffer_bounds(1) [of cpu] buffer_bounds(2) by (simp add: apart_sym)
    then have "load_bytes (slot_addr ?G 8 r) 8 ?m2 = load_bytes (slot_addr ?G 8 r) 8 ?m1"
      by (rule load_slots_apart [OF sok _ buffer_bounds(1)]) simp
    also have "\<dots> = gpr_slots s r"
      using load_slots [OF slots_gpr_ok that buffer_bounds(2)] that by (simp add: set_gpr_slot_list)
    finally show ?thesis .
  qed
  have "saved_gprs cpu c s (ms_mem ?t)"
    using l by (auto simp: saved_gprs_def NUM_GPR_SLOTS_def gpr_slots_def le_word_le_bytes lahf_rax_flags)
  moreover have "saved_simds cpu c s (ms_mem ?t)"
    using load_slots [OF sok _ buffer_bounds(1)] by (simp add: saved_simds_def)
  ultimately show ?thesis using that [OF e] out by (simp add: saved_def)
qed

section \<open>Restoring\<close>

lemma saved_gprs_load:
  assumes "saved_gprs cpu c s m" "1 \<le> r" "r < NUM_GPR_SLOTS"
  shows "le_word (load_bytes (slot_addr (ms_tls s (tls_gpr c)) 8 r) 8 m) = ms_gpr s r"
  using assms by (simp add: saved_gprs_def le_word_le_bytes)

lemma exec_restore_gpr:
  assumes "saved_gprs cpu c s (ms_mem t)" "ms_tls t = ms_tls s"
  obtains g where "exec ev cpu c (insert_restore_gpr_and_flags c) t = t\<lparr>ms_gpr := g, ms_flags := ms_flags s\<rparr>"
    "\<forall>r \<in> {1..<NUM_GPR_SLOTS}. g r = ms_gpr s r"
proof -
  let ?G = "ms_tls s (tls_gpr c)"
  let ?ld = "\<lambda>r. le_word (load_bytes (slot_addr ?G 8 r) 8 (ms_mem t)) :: u64"
  have 1: "map (\<lambda>i. Load (GPR_ORDER ! i) DR_REG_RCX (offset_of_gpr (GPR_ORDER ! i))) (rev [2..<NUM_GPR_SLOTS]) =
      map (\<lambda>i. Load i DR_REG_RCX (offset_of_gpr i)) (rev [3..<NUM_GPR_SLOTS]) @
      [Load DR_REG_RCX DR_REG_RCX (offset_of_gpr DR_REG_RCX)]"
  proof -
    have "[2..<NUM_GPR_SLOTS] = 2 # [3..<NUM_GPR_SLOTS]"
      by (subst upt_conv_Cons) (simp_all add: NUM_GPR_SLOTS_def)
    moreover have "map (\<lambda>i. Load (GPR_ORDER ! i) DR_REG_RCX (offset_of_gpr (GPR_ORDER ! i))) (rev [3..<NUM_GPR_SLOTS]) =
        map (\<lambda>i. Load i DR_REG_RCX (offset_of_gpr i)) (rev [3..<NUM_GPR_SLOTS])"
      by (rule map_cong) (auto simp: NUM_GPR_SLOTS_def GPR_ORDER_nth)
    moreover have "GPR_ORDER ! 2 = DR_REG_RCX" by (simp add: GPR_ORDER_nth DR_REG_RCX_def)
    ultimately show ?thesis by simp
  qed
  define t1 where
    "t1 = t\<lparr>ms_gpr := (ms_gpr t)(DR_REG_RCX := ?G, DR_REG_RAX := ?ld 1), ms_flags := ms_flags s\<rparr>"
  have 2: "exec ev cpu c [ReadTls (tls_gpr c) DR_REG_RCX, Load DR_REG_RAX DR_REG_RCX 0, Sahf,
      Load DR_REG_RAX DR_REG_RCX 8] t = t1"
    using assms by (simp add: t1_def set_gpr_def reg_defs slot_addr_def saved_gprs_def)
  have t1: "ms_mem t1 = ms_mem t" "ms_gpr t1 DR_REG_RCX = ?G" "ms_gpr t1 DR_REG_RAX = ?ld 1"
    by (simp_all add: t1_def reg_defs)
  define g where "g = (\<lambda>r. if 3 \<le> r \<and> r < NUM_GPR_SLOTS then ?ld r else ms_gpr t1 r)"
  have n: "DR_REG_RCX \<notin> set (rev [3..<NUM_GPR_SLOTS])" by (simp add: DR_REG_RCX_def)
  have 3: "exec ev cpu c (map (\<lambda>i. Load i DR_REG_RCX (offset_of_gpr i)) (rev [3..<NUM_GPR_SLOTS])) t1 =
      t1\<lparr>ms_gpr := g\<rparr>"
    unfolding exec_loads [OF n] t1 gpr_slot g_def by simp
  have 4: "g DR_REG_RCX = ?G" using t1(2) by (simp add: g_def DR_REG_RCX_def)
  have "exec ev cpu c (insert_restore_gpr_and_flags c) t = t1\<lparr>ms_gpr := g(DR_REG_RCX := ?ld 2)\<rparr>"
    unfolding insert_restore_gpr_and_flags_def 1 exec_append 2 3
    by (simp add: set_gpr_def 4 t1 gpr_slot) (simp add: DR_REG_RCX_def)
  also have "\<dots> = t\<lparr>ms_gpr := g(DR_REG_RCX := ?ld 2), ms_flags := ms_flags s\<rparr>"
    by (simp add: t1_def)
  finally have "exec ev cpu c (insert_restore_gpr_and_flags c) t =
      t\<lparr>ms_gpr := g(DR_REG_RCX := ?ld 2), ms_flags := ms_flags s\<rparr>" .
  moreover have "(g(DR_REG_RCX := ?ld 2)) r = ms_gpr s r" if "r \<in> {1..<NUM_GPR_SLOTS}" for r
  proof -
    from that consider "r = 1" | "r = 2" | "3 \<le> r" "r < NUM_GPR_SLOTS" by fastforce
    then show ?thesis
      using saved_gprs_load [OF assms(1)] t1(3)
      by cases (simp_all add: g_def reg_defs NUM_GPR_SLOTS_def)
  qed
  ultimately show ?thesis using that by blast
qed

lemma exec_restore_simd:
  assumes "\<forall>i. length (ms_simd t i) \<le> vec_bytes cpu \<or> AVX_SUPPORTED cpu \<or> AVX_512_SUPPORTED cpu"
  shows "exec ev cpu c (insert_restore_simd_registers cpu c) t =
    t\<lparr>ms_gpr := (ms_gpr t)(DR_REG_RCX := ms_tls t (tls_float c)),
      ms_simd := (\<lambda>j. if j < num_vecs cpu
        then load_bytes (slot_addr (ms_tls t (tls_float c)) (vec_bytes cpu) j) (vec_bytes cpu) (ms_mem t)
        else ms_simd t j)\<rparr>"
proof -
  let ?t1 = "t\<lparr>ms_gpr := (ms_gpr t)(DR_REG_RCX := ms_tls t (tls_float c))\<rparr>"
  let ?reg = "\<lambda>j. simd_start cpu + j"
  have v: "(AVX_512_SUPPORTED cpu \<or> AVX_SUPPORTED cpu) \<or> (\<forall>i. length (ms_simd ?t1 i) \<le> vec_bytes cpu)"
    using assms by auto
  have idx: "\<forall>i \<in> set [0..<num_vecs cpu]. simd_index (?reg i) = i" by (simp add: simd_start_index)
  have "exec ev cpu c (insert_restore_simd_registers cpu c) t =
      exec ev cpu c (map (\<lambda>j. LoadSimd (AVX_512_SUPPORTED cpu \<or> AVX_SUPPORTED cpu) (?reg j) DR_SCRATCH_REG
        (offset_of_simd cpu (?reg j)) (vec_bytes cpu)) [0..<num_vecs cpu]) ?t1"
    unfolding insert_restore_simd_registers_def simd_range_eq
    by (simp add: comp_def set_gpr_def DR_SCRATCH_REG_def)
  then show ?thesis
    unfolding exec_simd_loads [OF idx v]
    by (simp add: fun_eq_iff DR_SCRATCH_REG_def simd_slot simd_start_index cong: if_cong)
qed

end
