(* ===== verification/Plc_Lanes.thy ===== *)
theory Plc_Lanes
  imports Plc_Frames
begin

text \<open>
  The called function: \<open>padloc_backend::apply\<close> writes the elements of the result one by one into the
  saved destination register, which may be one of its sources. Its effect on memory is one store of
  all the elements computed from the sources as they were before the call.
\<close>

section \<open>The elements of the result\<close>

definition elem :: "bool \<Rightarrow> u8 list \<Rightarrow> nat \<Rightarrow> u64" where
  "elem is_double bs i = le_word (take (ftype_size is_double) (drop (i * ftype_size is_double) bs))"

text \<open>The bytes of the first \<open>n\<close> elements and the backend's state, from the bytes of the operands.\<close>

fun lanes :: "'r env \<Rightarrow> fkind \<Rightarrow> bool \<Rightarrow> u8 list list \<Rightarrow> nat \<Rightarrow> 'r \<Rightarrow> u8 list \<times> 'r" where
  "lanes ev k is_double ops 0 r = ([], r)"
| "lanes ev k is_double ops (Suc n) r =
     (let (bs, r) = lanes ev k is_double ops n r;
          (res, r) = ev_backend ev k is_double (map (\<lambda>op. elem is_double op n) ops) r
      in (bs @ le_bytes (ftype_size is_double) res, r))"

lemma ftype_size_pos [simp]: "0 < ftype_size d"
  by (simp add: ftype_size_def)

lemma length_lanes [simp]: "length (fst (lanes ev k d ops n r)) = n * ftype_size d"
  by (induction n) (simp_all add: case_prod_beta Let_def)

lemma elem_load:
  assumes "i * ftype_size d + ftype_size d \<le> n"
  shows "elem d (load_bytes a n m) i = load_elem d (a + of_nat (i * ftype_size d)) m"
proof -
  have "take (ftype_size d) (drop (i * ftype_size d) (load_bytes a n m)) =
      load_bytes (a + of_nat (i * ftype_size d)) (ftype_size d) m"
    using assms by (simp only: drop_load_bytes) (simp add: take_load_bytes)
  then show ?thesis by (simp only: elem_def load_elem_def)
qed

text \<open>An operand is either the destination itself or does not meet it.\<close>

definition operand_apart :: "u64 \<Rightarrow> nat \<Rightarrow> u64 \<Rightarrow> bool" where
  "operand_apart tls n v \<longleftrightarrow> v = tls \<or> apart tls n v n"

lemma load_elem_after:
  assumes "operand_apart tls n v" "length xs = i * ftype_size d" "i * ftype_size d + ftype_size d \<le> n" "n \<le> 2 ^ 64"
  shows "load_elem d (v + of_nat (i * ftype_size d)) (store_bytes tls xs m) =
    load_elem d (v + of_nat (i * ftype_size d)) m"
proof -
  let ?o = "i * ftype_size d"
  have "apart tls (length xs) (v + of_nat ?o) (ftype_size d)"
  proof (cases "v = tls")
    case True
    have "apart (tls + of_nat 0) ?o (tls + of_nat ?o) (ftype_size d)"
      by (rule apart_offsets) (use assms in auto)
    with True assms(2) show ?thesis by simp
  next
    case False
    with assms(1) have "apart tls n v n" by (simp add: operand_apart_def)
    from apart_sub [OF this, where i = 0 and n = "?o" and j = "?o" and h = "ftype_size d"] assms
    show ?thesis by simp
  qed
  then show ?thesis
    using assms(3,4) by (simp add: load_elem_def load_store_apart)
qed

lemma apply_lanes:
  assumes "\<forall>v \<in> set vects. operand_apart tls n v" "i * ftype_size (ce_double ce) \<le> n" "n \<le> 2 ^ 64"
  shows "fold (apply_lane ev ce tls vects) [0..<i] (m, r) =
    (store_bytes tls (fst (lanes ev (ce_fn ce) (ce_double ce) (map (\<lambda>v. load_bytes v n m) vects) i r)) m,
     snd (lanes ev (ce_fn ce) (ce_double ce) (map (\<lambda>v. load_bytes v n m) vects) i r))"
  using assms(2)
proof (induction i)
  case 0
  then show ?case by (simp add: store_bytes_def)
next
  case (Suc i)
  let ?d = "ce_double ce"
  let ?z = "ftype_size ?d"
  let ?ops = "map (\<lambda>v. load_bytes v n m) vects"
  let ?L = "lanes ev (ce_fn ce) ?d ?ops i r"
  have b: "i * ?z + ?z \<le> n" using Suc.prems by simp
  have IH: "fold (apply_lane ev ce tls vects) [0..<i] (m, r) = (store_bytes tls (fst ?L) m, snd ?L)"
    using Suc.IH b by simp
  have args: "map (\<lambda>v. load_elem ?d (v + of_nat (i * ?z)) (store_bytes tls (fst ?L) m)) vects =
      map (\<lambda>op. elem ?d op i) ?ops"
    using assms(1) load_elem_after [OF _ length_lanes [of ev "ce_fn ce" ?d ?ops i r] b assms(3)] elem_load [OF b]
    by (simp del: of_nat_mult)
  let ?b = "ev_backend ev (ce_fn ce) ?d (map (\<lambda>op. elem ?d op i) ?ops) (snd ?L)"
  have st: "store_elem ?d (tls + of_nat (i * ?z)) (fst ?b) (store_bytes tls (fst ?L) m) =
      store_bytes tls (fst ?L @ le_bytes ?z (fst ?b)) m"
    using store_append [of "fst ?L" "le_bytes ?z (fst ?b)" tls m] b assms(3)
    by (simp add: store_elem_def del: of_nat_mult)
  have "fold (apply_lane ev ce tls vects) [0..<Suc i] (m, r) =
      apply_lane ev ce tls vects i (store_bytes tls (fst ?L) m, snd ?L)"
    using IH by simp
  also have "\<dots> = (store_bytes tls (fst ?L @ le_bytes ?z (fst ?b)) m, snd ?b)"
    by (simp add: apply_lane_def Let_def args st case_prod_beta del: of_nat_mult map_map)
  finally show ?case by (simp add: case_prod_beta Let_def del: map_map)
qed

section \<open>Clearing the high part\<close>

lemma le_bytes_0: "le_bytes n 0 = replicate n 0"
  by (simp add: le_bytes_def map_replicate_const)

text \<open>Where the clearing loop starts and stops, in bytes.\<close>

definition clear_from :: "callee \<Rightarrow> nat" where
  "clear_from ce = max (nb_elem ce) (16 div ftype_size (ce_double ce)) * ftype_size (ce_double ce)"

lemma clear_loop:
  assumes "i \<le> j" "j * ftype_size d \<le> 2 ^ 64"
  shows "fold (\<lambda>i. store_elem d (tls + of_nat (i * ftype_size d)) 0) [i..<j] m =
    store_bytes (tls + of_nat (i * ftype_size d)) (replicate ((j - i) * ftype_size d) 0) m"
  using assms
proof (induction j)
  case (Suc j)
  show ?case
  proof (cases "i = Suc j")
    case False
    let ?z = "ftype_size d"
    have ij: "i \<le> j" using False Suc.prems by simp
    have jz: "j * ?z + ?z \<le> 2 ^ 64" using Suc.prems(2) by simp
    have "fold (\<lambda>i. store_elem d (tls + of_nat (i * ?z)) 0) [i..<Suc j] m =
        store_elem d (tls + of_nat (j * ?z)) 0
          (store_bytes (tls + of_nat (i * ?z)) (replicate ((j - i) * ?z) 0) m)"
      using Suc.IH ij jz by (simp del: of_nat_mult)
    also have "tls + of_nat (j * ?z) = tls + of_nat (i * ?z) + of_nat (length (replicate ((j - i) * ?z) (0::u8)))"
      using ij by (simp add: diff_mult_distrib algebra_simps flip: of_nat_add of_nat_mult)
    also have "store_elem d \<dots> 0 (store_bytes (tls + of_nat (i * ?z)) (replicate ((j - i) * ?z) 0) m) =
        store_bytes (tls + of_nat (i * ?z)) (replicate ((j - i) * ?z) 0 @ replicate ?z 0) m"
      unfolding store_elem_def le_bytes_0
      by (rule store_append) (use jz ij in \<open>simp add: diff_mult_distrib\<close>)
    also have "replicate ((j - i) * ?z) 0 @ replicate ?z (0::u8) = replicate ((Suc j - i) * ?z) 0"
      using ij by (simp add: Suc_diff_le replicate_add [symmetric] add.commute)
    finally show ?thesis .
  qed (simp add: store_bytes_def)
qed (simp add: store_bytes_def)


text \<open>
  The whole function as one store: the result, and for AVX the zeroes from the end of the result
  (or from byte 16 of a scalar or 128-bit result) up to byte 32.
\<close>

definition callee_ok :: "callee \<Rightarrow> bool" where
  "callee_ok ce \<longleftrightarrow> ce_category ce \<in> {PLC_OP_SSE, PLC_OP_AVX} \<and> ce_simd ce \<in> {PLC_OP_128, PLC_OP_256, PLC_OP_SCALAR}"

lemma callee_sizes:
  assumes "callee_ok ce"
  shows "nb_elem ce * ftype_size (ce_double ce) = operation_size ce" "operation_size ce \<in> {4, 8, 16, 32}"
    "ce_category ce = PLC_OP_AVX \<Longrightarrow> max_nb_elem ce * ftype_size (ce_double ce) = 32"
    "clear_from ce = max (operation_size ce) 16"
    "max (nb_elem ce) (16 div ftype_size (ce_double ce)) \<le> 32 div ftype_size (ce_double ce)"
  using assms
  by (auto simp: callee_ok_def nb_elem_def operation_size_def max_nb_elem_def max_operation_size_def
      ftype_size_def clear_from_def plc_flag_defs)

lemma clear_high_eq:
  assumes "callee_ok ce"
  shows "clear_high ce tls m =
    (if ce_category ce = PLC_OP_AVX
     then store_bytes (tls + of_nat (max (operation_size ce) 16)) (replicate (32 - max (operation_size ce) 16) 0) m
     else m)"
proof (cases "ce_category ce = PLC_OP_AVX")
  case True
  let ?z = "ftype_size (ce_double ce)" and ?i = "max (nb_elem ce) (16 div ftype_size (ce_double ce))"
  have j: "max_nb_elem ce * ?z = 32" by (rule callee_sizes(3) [OF assms True])
  have ij: "?i \<le> max_nb_elem ce"
    using callee_sizes(5) [OF assms] True by (simp add: max_nb_elem_def max_operation_size_def plc_flag_defs)
  have i: "?i * ?z = max (operation_size ce) 16" using callee_sizes(4) [OF assms] by (simp add: clear_from_def)
  have "clear_high ce tls m =
      fold (\<lambda>i. store_elem (ce_double ce) (tls + of_nat (i * ?z)) 0) [?i..<max_nb_elem ce] m"
    using True by (simp add: clear_high_def)
  also have "\<dots> = store_bytes (tls + of_nat (?i * ?z)) (replicate ((max_nb_elem ce - ?i) * ?z) 0) m"
    by (rule clear_loop [OF ij]) (simp add: j)
  also have "(max_nb_elem ce - ?i) * ?z = 32 - max (operation_size ce) 16"
    unfolding diff_mult_distrib i j ..
  finally show ?thesis using True by (simp only: i if_True refl)
qed (simp add: clear_high_def)

text \<open>The bytes the destination register has after the call, from the ones it had before.\<close>

definition dest_after :: "callee \<Rightarrow> u8 list \<Rightarrow> u8 list \<Rightarrow> u8 list" where
  "dest_after ce res old =
     (if ce_category ce = PLC_OP_AVX
      then res @ drop (length res) (take (max (length res) 16) old) @
           replicate (32 - max (length res) 16) 0 @ drop 32 old
      else res @ drop (length res) old)"

lemma load_store_prefix:
  assumes "i + length bs \<le> n" "n \<le> 2 ^ 64"
  shows "load_bytes a n (store_bytes (a + of_nat i) bs m) =
    take i (load_bytes a n m) @ bs @ drop (i + length bs) (load_bytes a n m)"
proof -
  let ?m = "store_bytes (a + of_nat i) bs m" and ?k = "n - (i + length bs)"
  have "load_bytes a n ?m = load_bytes a (i + (length bs + ?k)) ?m" using assms(1) by simp
  also have "\<dots> = load_bytes a i ?m @ load_bytes (a + of_nat i) (length bs) ?m @
      load_bytes (a + of_nat i + of_nat (length bs)) ?k ?m"
    by (simp only: load_bytes_split)
  also have "load_bytes (a + of_nat i) (length bs) ?m = bs"
    by (rule load_store_same) (use assms in linarith)
  also have "load_bytes a i ?m = load_bytes a i m"
  proof (rule load_store_apart)
    have "apart (a + of_nat i) (length bs) (a + of_nat 0) i"
      by (rule apart_offsets) (use assms in auto)
    then show "apart (a + of_nat i) (length bs) a i" by simp
  qed (use assms in linarith)
  also have "load_bytes (a + of_nat i + of_nat (length bs)) ?k ?m = load_bytes (a + of_nat i + of_nat (length bs)) ?k m"
  proof (rule load_store_apart)
    have "apart (a + of_nat i) (length bs) (a + of_nat (i + length bs)) ?k"
      by (rule apart_offsets) (use assms in auto)
    then show "apart (a + of_nat i) (length bs) (a + of_nat i + of_nat (length bs)) ?k"
      by (simp add: add.assoc)
  qed (use assms in linarith)
  finally show ?thesis using assms(1) by (simp add: take_load_bytes drop_load_bytes add.assoc)
qed


lemma padloc_apply_ok:
  assumes ok: "callee_ok ce" and vs: "\<forall>v \<in> set vects. operand_apart tls (operation_size ce) v"
    and W: "operation_size ce \<le> W" "ce_category ce = PLC_OP_AVX \<Longrightarrow> 32 \<le> W" "W \<le> 64"
    and L: "lanes ev (ce_fn ce) (ce_double ce) (map (\<lambda>v. load_bytes v (operation_size ce) m) vects) (nb_elem ce) r = (res, r')"
  obtains m' where "padloc_apply ev ce tls vects (m, r) = (m', r')"
    "load_bytes tls W m' = dest_after ce res (load_bytes tls W m)"
    "\<And>x. \<not> in_range tls W x \<Longrightarrow> m' x = m x"
proof -
  let ?n = "operation_size ce" and ?c = "max (operation_size ce) 16"
  note sz = callee_sizes [OF ok]
  have n64: "?n \<le> 2 ^ 64" using sz(2) by auto
  have len: "length res = ?n" using length_lanes [of ev "ce_fn ce" "ce_double ce" _ "nb_elem ce" r] L sz(1) by (metis fst_conv)
  have "fold (apply_lane ev ce tls vects) [0..<nb_elem ce] (m, r) = (store_bytes tls res m, r')"
    using apply_lanes [OF vs _ n64, where i = "nb_elem ce" and ce = ce and ev = ev and m = m and r = r] sz(1) L by simp
  then have ap: "padloc_apply ev ce tls vects (m, r) = (clear_high ce tls (store_bytes tls res m), r')"
    by (simp add: padloc_apply_def)
  let ?m1 = "store_bytes tls res m"
  have l1: "load_bytes tls W ?m1 = res @ drop ?n (load_bytes tls W m)"
    using load_store_prefix [of 0 res W tls m] W len by simp
  have o1: "?m1 x = m x" if "\<not> in_range tls W x" for x
    using that W(1) len by (intro store_bytes_out) (simp add: in_range_def)
  show ?thesis
  proof (cases "ce_category ce = PLC_OP_AVX")
    case False
    then have "clear_high ce tls ?m1 = ?m1" by (simp add: clear_high_eq [OF ok])
    with ap have "padloc_apply ev ce tls vects (m, r) = (?m1, r')" by simp
    moreover have "load_bytes tls W ?m1 = dest_after ce res (load_bytes tls W m)"
      using False l1 len by (simp add: dest_after_def)
    ultimately show ?thesis using that o1 by blast
  next
    case True
    let ?zs = "replicate (32 - ?c) (0 :: u8)"
    let ?m2 = "store_bytes (tls + of_nat ?c) ?zs ?m1"
    have c: "?c \<le> 32" "?n \<le> 32" using sz(2) by auto
    have W32: "32 \<le> W" by (rule W(2) [OF True])
    have "padloc_apply ev ce tls vects (m, r) = (?m2, r')"
      using ap True by (simp add: clear_high_eq [OF ok])
    moreover have "load_bytes tls W ?m2 = dest_after ce res (load_bytes tls W m)"
    proof -
      have "load_bytes tls W ?m2 = take ?c (load_bytes tls W ?m1) @ ?zs @ drop 32 (load_bytes tls W ?m1)"
        using load_store_prefix [of ?c ?zs W tls ?m1] c W32 W(3) by simp
      also have "\<dots> = res @ drop ?n (take ?c (load_bytes tls W m)) @ ?zs @ drop 32 (load_bytes tls W m)"
        unfolding l1 using len c by (simp add: take_drop)
      finally show ?thesis using True len by (simp add: dest_after_def)
    qed
    moreover have "?m2 x = m x" if x: "\<not> in_range tls W x" for x
    proof -
      have "\<not> in_range (tls + of_nat ?c) (length ?zs) x"
        using x in_range_sub [of tls ?c "length ?zs" x W] c W32 W(3) by auto
      then show ?thesis using o1 [OF x] by (simp add: store_bytes_out)
    qed
    ultimately show ?thesis using that by blast
  qed
qed

end
