(* ===== verification/Plc_Operands.thy ===== *)
theory Plc_Operands
  imports Plc_Lanes
begin

text \<open>
  The code that \<open>insert_set_operands\<close> inserts puts the address of every source in the argument
  register that \<open>operand_regs\<close> gives it: the slot of a vector register in the saved array, or the
  effective address of a memory operand computed from the saved general-purpose registers.
\<close>

section \<open>Addresses and values of operands\<close>

fun mem_addr :: "'r mstate \<Rightarrow> opnd \<Rightarrow> u64" where
  "mem_addr s (OpBaseDisp seg b i sc d) = base_disp_addr s b i sc d"
| "mem_addr s (OpRelAddr a) = a"
| "mem_addr s (OpAbsAddr a) = a"
| "mem_addr s _ = 0"

fun src_addr :: "cpu \<Rightarrow> client \<Rightarrow> 'r mstate \<Rightarrow> opnd \<Rightarrow> u64" where
  "src_addr cpu c s (OpReg r) = slot_addr (ms_tls s (tls_float c)) (vec_bytes cpu) (simd_index r)"
| "src_addr cpu c s op = mem_addr s op"

definition is_mem :: "opnd \<Rightarrow> bool" where
  "is_mem op \<longleftrightarrow> OP_IS_ADDR op \<or> opnd_is_base_disp op"

text \<open>Registers among the first sixteen vectors; near addresses on 64-bit registers.\<close>

definition vec_opnd :: "reg_id \<Rightarrow> bool" where
  "vec_opnd r \<longleftrightarrow> is_vector r \<and> simd_index r < 16"

fun src_form :: "opnd \<Rightarrow> bool" where
  "src_form (OpReg r) = vec_opnd r"
| "src_form (OpBaseDisp seg b i sc d) = (seg = DR_REG_NULL \<and> b < NUM_GPR_SLOTS \<and> i < NUM_GPR_SLOTS)"
| "src_form (OpRelAddr a) = True"
| "src_form (OpAbsAddr a) = True"
| "src_form (OpPc pc) = False"
| "src_form OpOther = False"

lemma not_mem_form: "src_form op \<Longrightarrow> \<not> is_mem op \<Longrightarrow> \<exists>r. op = OpReg r \<and> vec_opnd r"
  by (cases op) (simp_all add: is_mem_def)

lemma is_mem_not_reg [simp]: "is_mem (OpReg r) = False"
  by (simp add: is_mem_def)

section \<open>Code for a memory operand\<close>

definition set_gprs_only :: "reg_id set \<Rightarrow> 'r mstate \<Rightarrow> 'r mstate \<Rightarrow> bool" where
  "set_gprs_only R t u \<longleftrightarrow> u = t\<lparr>ms_gpr := ms_gpr u\<rparr> \<and> (\<forall>r. r \<notin> R \<longrightarrow> ms_gpr u r = ms_gpr t r)"

lemma set_gprs_onlyI:
  "u = t\<lparr>ms_gpr := g\<rparr> \<Longrightarrow> (\<And>r. r \<notin> R \<Longrightarrow> g r = ms_gpr t r) \<Longrightarrow> set_gprs_only R t u"
  by (simp add: set_gprs_only_def)

lemma set_gprs_only_trans:
  "set_gprs_only R t u \<Longrightarrow> set_gprs_only S u v \<Longrightarrow> set_gprs_only (R \<union> S) t v"
  by (cases t; cases u; cases v) (simp add: set_gprs_only_def)

lemma set_gprs_onlyD:
  assumes "set_gprs_only R t u"
  shows "ms_mem u = ms_mem t" "ms_tls u = ms_tls t" "ms_backend u = ms_backend t"
    "r \<notin> R \<Longrightarrow> ms_gpr u r = ms_gpr t r"
proof -
  have u: "u = t\<lparr>ms_gpr := ms_gpr u\<rparr>" using assms by (simp add: set_gprs_only_def)
  show "ms_mem u = ms_mem t" "ms_tls u = ms_tls t" "ms_backend u = ms_backend t" by (subst u, simp)+
  show "r \<notin> R \<Longrightarrow> ms_gpr u r = ms_gpr t r" using assms by (simp add: set_gprs_only_def)
qed

lemma base_disp_exec:
  assumes sv: "saved_gprs cpu c s (ms_mem t)" and tls: "ms_tls t = ms_tls s"
    and form: "b < NUM_GPR_SLOTS" "i < NUM_GPR_SLOTS" and D: "D \<noteq> T" "D \<noteq> 0" "T \<noteq> 0"
  obtains mc where "insert_set_operands_base_disp c (OpBaseDisp seg b i sc d) D T = Inr mc"
    "set_gprs_only {D, T} t (exec ev cpu c mc t)"
    "ms_gpr (exec ev cpu c mc t) D = base_disp_addr s b i sc d"
proof -
  let ?G = "ms_tls s (tls_gpr c)"
  have ld: "le_word (load_bytes (?G + of_int (offset_of_gpr r)) 8 (ms_mem t)) = ms_gpr s r"
    if "r \<noteq> 0" "r < NUM_GPR_SLOTS" for r
    using saved_gprs_load [OF sv, of r] that by (simp add: gpr_slot)
  let ?mc = "[ReadTls (tls_gpr c) D] @
     (if i \<noteq> DR_REG_NULL then [Load T D (offset_of_gpr i)] else []) @
     (if b \<noteq> DR_REG_NULL then [Load D D (offset_of_gpr b)] else []) @
     [Lea D (if b \<noteq> DR_REG_NULL then D else b) (if i \<noteq> DR_REG_NULL then T else i) sc d]"
  have "insert_set_operands_base_disp c (OpBaseDisp seg b i sc d) D T = Inr ?mc"
    by (simp add: insert_set_operands_base_disp_def)
  moreover have "set_gprs_only {D, T} t (exec ev cpu c ?mc t)"
    by (rule set_gprs_onlyI [where g = "ms_gpr (exec ev cpu c ?mc t)"]) (auto simp: set_gpr_def)
  moreover have "ms_gpr (exec ev cpu c ?mc t) D = base_disp_addr s b i sc d"
    using D form ld tls by (auto simp: set_gpr_def base_disp_addr_def gpr_val_def DR_REG_NULL_def)
  ultimately show ?thesis by (rule that)
qed

lemma mem_exec:
  assumes sv: "saved_gprs cpu c s (ms_mem t)" and tls: "ms_tls t = ms_tls s"
    and form: "src_form op" "is_mem op" and D: "D \<noteq> T" "D \<noteq> 0" "T \<noteq> 0"
  obtains mc where
    "(if opnd_is_base_disp op then insert_set_operands_base_disp c op D T
      else if OP_IS_ADDR op then bind_res (opnd_get_addr op) (\<lambda>addr. Inr (insert_set_operands_addr addr D))
      else Inl Assert) = Inr mc"
    "set_gprs_only {D, T} t (exec ev cpu c mc t)"
    "ms_gpr (exec ev cpu c mc t) D = mem_addr s op"
proof (cases op)
  case (OpReg r)
  with form show ?thesis by simp
next
  case (OpBaseDisp seg b i sc d)
  with form have "b < NUM_GPR_SLOTS" "i < NUM_GPR_SLOTS" by simp_all
  from base_disp_exec [OF sv tls this D, of seg sc d ev] OpBaseDisp that show ?thesis by auto
next
  case (OpRelAddr a)
  have "set_gprs_only {D, T} t (exec ev cpu c [LoadInt D a] t)"
    by (rule set_gprs_onlyI [where g = "(ms_gpr t)(D := a)"]) (auto simp: set_gpr_def)
  with OpRelAddr show ?thesis
    by (intro that [of "[LoadInt D a]"]) (simp_all add: insert_set_operands_addr_def set_gpr_def)
next
  case (OpAbsAddr a)
  have "set_gprs_only {D, T} t (exec ev cpu c [LoadInt D a] t)"
    by (rule set_gprs_onlyI [where g = "(ms_gpr t)(D := a)"]) (auto simp: set_gpr_def)
  with OpAbsAddr show ?thesis
    by (intro that [of "[LoadInt D a]"]) (simp_all add: insert_set_operands_addr_def set_gpr_def)
next
  case (OpPc pc)
  with form show ?thesis by simp
next
  case OpOther
  with form show ?thesis by simp
qed

section \<open>Code for all the sources\<close>

definition args_set :: "cpu \<Rightarrow> client \<Rightarrow> 'r mstate \<Rightarrow> opnd list \<Rightarrow> reg_id list \<Rightarrow> nat \<Rightarrow> 'r mstate \<Rightarrow> bool" where
  "args_set cpu c s srcs regs n u \<longleftrightarrow> (\<forall>j < n. ms_gpr u (regs ! j) = src_addr cpu c s (srcs ! j))"

definition arg_regs :: "reg_id list \<Rightarrow> nat \<Rightarrow> bool" where
  "arg_regs regs n \<longleftrightarrow> length regs = 3 \<and> distinct (take n regs) \<and>
     set (take n regs) \<subseteq> {DR_REG_OP_A_ADDR, DR_REG_OP_B_ADDR, DR_REG_OP_C_ADDR}"

lemma arg_regs_nth:
  assumes "arg_regs regs n" "i < n" "n \<le> 3"
  shows "regs ! i \<in> {DR_REG_OP_A_ADDR, DR_REG_OP_B_ADDR, DR_REG_OP_C_ADDR}" "regs ! i \<noteq> 0"
    "j < n \<Longrightarrow> (regs ! i = regs ! j) = (i = j)"
proof -
  have l: "i < length (take n regs)" and nth: "take n regs ! i = regs ! i"
    using assms by (simp_all add: arg_regs_def)
  from nth_mem [OF l] nth assms show *: "regs ! i \<in> {DR_REG_OP_A_ADDR, DR_REG_OP_B_ADDR, DR_REG_OP_C_ADDR}"
    by (auto simp: arg_regs_def)
  then show "regs ! i \<noteq> 0"
    by (auto simp: DR_REG_OP_A_ADDR_def DR_REG_OP_B_ADDR_def DR_REG_OP_C_ADDR_def reg_defs)
  show "j < n \<Longrightarrow> (regs ! i = regs ! j) = (i = j)"
    using assms nth_eq_iff_index_eq [of "take n regs" i j] by (simp add: arg_regs_def)
qed

abbreviation arg_set :: "reg_id set" where
  "arg_set \<equiv> {DR_REG_OP_A_ADDR, DR_REG_OP_B_ADDR, DR_REG_OP_C_ADDR}"

lemma lea_src:
  assumes "vec_opnd r" "b \<noteq> 0"
  shows "base_disp_addr t b DR_REG_NULL 0 (offset_of_simd cpu r) =
    slot_addr (ms_gpr t b) (vec_bytes cpu) (simd_index r)"
  using assms simd_slot [of r "ms_gpr t b" cpu]
  by (simp add: base_disp_addr_def gpr_val_def DR_REG_NULL_def vec_opnd_def)

lemma vec_not_null: "vec_opnd r \<Longrightarrow> r \<noteq> DR_REG_NULL"
  by (auto simp: vec_opnd_def is_vector_def reg_is_strictly_xmm_def reg_is_strictly_ymm_def
      reg_is_strictly_zmm_def reg_defs)

lemma less2: "(\<forall>j < 2. P j) = (P 0 \<and> P (1 :: nat))"
  by (auto simp: less_2_cases_iff)

lemma less3: "(\<forall>j < 3. P j) = (P 0 \<and> P 1 \<and> P (2 :: nat))"
  by (auto simp: numeral_eq_Suc less_Suc_eq)

text \<open>All the sources are registers.\<close>

lemma all_registers_exec:
  assumes regs: "arg_regs regs n" and n: "n = (if fused then 3 else 2)" and tls: "ms_tls t = ms_tls s"
    and vs: "\<forall>j < n. \<exists>r. srcs ! j = OpReg r \<and> vec_opnd r \<and> rs j = r" "\<not> fused \<Longrightarrow> rs 2 = DR_REG_NULL"
  shows "set_gprs_only arg_set t (exec ev cpu c (insert_set_operands_all_registers cpu c (rs 0) (rs 1) (rs 2) regs) t)"
    "args_set cpu c s srcs regs n (exec ev cpu c (insert_set_operands_all_registers cpu c (rs 0) (rs 1) (rs 2) regs) t)"
proof -
  have n3: "n \<le> 3" using n by simp
  note R = arg_regs_nth [OF regs _ n3]
  have r: "srcs ! j = OpReg (rs j)" "vec_opnd (rs j)" if "j < n" for j using vs(1) that by auto
  let ?u = "exec ev cpu c (insert_set_operands_all_registers cpu c (rs 0) (rs 1) (rs 2) regs) t"
  have "set_gprs_only arg_set t ?u \<and> args_set cpu c s srcs regs n ?u"
  proof (cases fused)
    case False
    with n have n2: "n = 2" by simp
    have "set_gprs_only arg_set t ?u"
      by (rule set_gprs_onlyI [where g = "ms_gpr ?u"])
        (use False vs(2) R(1) [of 0] R(1) [of 1] n2 in
          \<open>auto simp: insert_set_operands_all_registers_def set_gpr_def\<close>)
    moreover have "args_set cpu c s srcs regs n ?u"
      unfolding args_set_def n2 less2
      using False vs(2) R(2) [of 1] R(3) [of 0 1] r [of 0] r [of 1] n2 tls
      by (simp add: insert_set_operands_all_registers_def set_gpr_def lea_src)
    ultimately show ?thesis ..
  next
    case True
    with n have n3: "n = 3" by simp
    have nn: "rs 2 \<noteq> DR_REG_NULL" using r(2) [of 2] n3 vec_not_null by simp
    have "set_gprs_only arg_set t ?u"
      by (rule set_gprs_onlyI [where g = "ms_gpr ?u"])
        (use nn R(1) [of 0] R(1) [of 1] R(1) [of 2] n3 in
          \<open>auto simp: insert_set_operands_all_registers_def set_gpr_def\<close>)
    moreover have "args_set cpu c s srcs regs n ?u"
      unfolding args_set_def n3 less3
      using nn R(2) [of 2] R(3) [of 0 1] R(3) [of 0 2] R(3) [of 1 2] r [of 0] r [of 1] r [of 2] n3 tls
      by (simp add: insert_set_operands_all_registers_def set_gpr_def lea_src)
    ultimately show ?thesis ..
  qed
  then show "set_gprs_only arg_set t ?u" "args_set cpu c s srcs regs n ?u" by simp_all
qed

text \<open>Source \<open>j\<close> is in memory and the others are registers.\<close>

lemma lea_sources_eq:
  assumes "\<forall>k \<in> set ks. k \<noteq> j \<longrightarrow> k < length (ai_srcs i) \<and> ai_srcs i ! k = OpReg (rs k)"
  shows "insert_lea_sources cpu i j regs L ks =
    Inr (map (\<lambda>k. Lea (regs ! k) (regs ! L) DR_REG_NULL 0 (offset_of_simd cpu (rs k))) (filter (\<lambda>k. k \<noteq> j) ks))"
  using assms by (induction ks) (simp_all add: SRC_def)

definition lea_base :: "bool \<Rightarrow> nat \<Rightarrow> nat" where
  "lea_base fused j = (let l = (if fused then 2 else 1) in if j = l then l - 1 else l)"

lemma other_sources:
  assumes "n = (if fused then 3 else 2)" "j < n"
  obtains "fused" "n = 3" "j = 0" "filter (\<lambda>k. k \<noteq> j) [0..<n] = [1, 2]" "lea_base fused j = 2"
  | "fused" "n = 3" "j = 1" "filter (\<lambda>k. k \<noteq> j) [0..<n] = [0, 2]" "lea_base fused j = 2"
  | "fused" "n = 3" "j = 2" "filter (\<lambda>k. k \<noteq> j) [0..<n] = [0, 1]" "lea_base fused j = 1"
  | "\<not> fused" "n = 2" "j = 0" "filter (\<lambda>k. k \<noteq> j) [0..<n] = [1]" "lea_base fused j = 1"
  | "\<not> fused" "n = 2" "j = 1" "filter (\<lambda>k. k \<noteq> j) [0..<n] = [0]" "lea_base fused j = 0"
proof -
  have "[0..<3] = [0, 1, 2 :: nat]" "[0..<2] = [0, 1 :: nat]" by (simp_all add: upt_rec)
  moreover have "fused \<and> (j = 0 \<or> j = 1 \<or> j = 2) \<or> \<not> fused \<and> (j = 0 \<or> j = 1)"
    using assms by (cases fused) auto
  ultimately show ?thesis using assms that by (elim disjE conjE) (simp_all add: lea_base_def)
qed

lemma exec_leas_only:
  "\<forall>k \<in> set ks. reg k \<in> R \<Longrightarrow> set_gprs_only R t (exec ev cpu c (map (\<lambda>k. Lea (reg k) b x sc (off k)) ks) t)"
proof (induction ks arbitrary: t)
  case Nil
  then show ?case by (simp add: set_gprs_only_def)
next
  case (Cons k ks)
  let ?t = "exec_instr ev cpu c (Lea (reg k) b x sc (off k)) t"
  have "set_gprs_only R t ?t"
    by (rule set_gprs_onlyI [where g = "ms_gpr ?t"]) (use Cons.prems in \<open>auto simp: set_gpr_def\<close>)
  from set_gprs_only_trans [OF this Cons.IH] Cons.prems show ?case by simp
qed

lemma leas_exec:
  assumes regs: "arg_regs regs n" and n: "n = (if fused then 3 else 2)" and j: "j < n"
    and vs: "\<forall>k < n. k \<noteq> j \<longrightarrow> vec_opnd (rs k)"
    and u: "u = exec ev cpu c (ReadTls (tls_float c) (regs ! lea_base fused j) #
      map (\<lambda>k. Lea (regs ! k) (regs ! lea_base fused j) DR_REG_NULL 0 (offset_of_simd cpu (rs k)))
        (filter (\<lambda>k. k \<noteq> j) [0..<n])) t"
  shows "set_gprs_only arg_set t u \<and> ms_gpr u (regs ! j) = ms_gpr t (regs ! j) \<and>
    (\<forall>k < n. k \<noteq> j \<longrightarrow>
       ms_gpr u (regs ! k) = slot_addr (ms_tls t (tls_float c)) (vec_bytes cpu) (simd_index (rs k)))"
proof -
  have n3: "n \<le> 3" using n by simp
  note R = arg_regs_nth [OF regs _ n3]
  have S: "set_gprs_only arg_set t u" if "regs ! lea_base fused j \<in> arg_set"
      "\<forall>k \<in> set (filter (\<lambda>k. k \<noteq> j) [0..<n]). regs ! k \<in> arg_set"
  proof -
    have "set_gprs_only arg_set t (exec_instr ev cpu c (ReadTls (tls_float c) (regs ! lea_base fused j)) t)"
      by (rule set_gprs_onlyI [where g = "(ms_gpr t)(regs ! lea_base fused j := ms_tls t (tls_float c))"])
        (use that(1) in \<open>auto simp: set_gpr_def\<close>)
    from set_gprs_only_trans [OF this exec_leas_only [OF that(2)]] show ?thesis
      by (simp add: u)
  qed
  show ?thesis
  proof (cases rule: other_sources [OF n j])
    case 1
    then show ?thesis using vs R(3) [of 0 1] R(3) [of 0 2] R(3) [of 1 2] R(2) [of 2] S R(1)
      by (simp add: u set_gpr_def lea_src less3 del: insert_iff)
  next
    case 2
    then show ?thesis using vs R(3) [of 0 1] R(3) [of 0 2] R(3) [of 1 2] R(2) [of 2] S R(1)
      by (simp add: u set_gpr_def lea_src less3 del: insert_iff)
  next
    case 3
    then show ?thesis using vs R(3) [of 0 1] R(3) [of 0 2] R(3) [of 1 2] R(2) [of 1] S R(1)
      by (simp add: u set_gpr_def lea_src less3 del: insert_iff)
  next
    case 4
    then show ?thesis using vs R(3) [of 0 1] R(2) [of 1] S R(1)
      by (simp add: u set_gpr_def lea_src less2 del: insert_iff)
  next
    case 5
    then show ?thesis using vs R(3) [of 0 1] R(2) [of 0] S R(1)
      by (simp add: u set_gpr_def lea_src less2 del: insert_iff)
  qed
qed

lemma mem_reference_exec:
  assumes regs: "arg_regs regs n" and n: "n = (if fused then 3 else 2)" and j: "j < n"
    and len: "length (ai_srcs i) = n" and mem: "src_form (ai_srcs i ! j)" "is_mem (ai_srcs i ! j)"
    and vs: "\<forall>k < n. k \<noteq> j \<longrightarrow> ai_srcs i ! k = OpReg (rs k) \<and> vec_opnd (rs k)"
    and sv: "saved_gprs cpu c s (ms_mem t)" and tls: "ms_tls t = ms_tls s"
  obtains mc where "insert_set_operands_mem_reference cpu c i fused j regs = Inr mc"
    "set_gprs_only arg_set t (exec ev cpu c mc t)"
    "args_set cpu c s (ai_srcs i) regs n (exec ev cpu c mc t)"
proof -
  have n3: "n \<le> 3" "2 \<le> n" using n by (simp_all split: if_splits)
  note R = arg_regs_nth [OF regs _ n3(1)]
  let ?T = "if j = 0 then 1 else 0"
  have T: "regs ! j \<noteq> regs ! ?T" "regs ! j \<noteq> 0" "regs ! ?T \<noteq> 0" "regs ! j \<in> arg_set" "regs ! ?T \<in> arg_set"
    using R j n3 by (simp_all del: insert_iff)
  from mem_exec [OF sv tls mem T(1,2,3), where ev = ev] obtain mc where
    mc: "(if opnd_is_base_disp (ai_srcs i ! j) then insert_set_operands_base_disp c (ai_srcs i ! j) (regs ! j) (regs ! ?T)
      else if OP_IS_ADDR (ai_srcs i ! j)
      then bind_res (opnd_get_addr (ai_srcs i ! j)) (\<lambda>addr. Inr (insert_set_operands_addr addr (regs ! j)))
      else Inl Assert) = Inr mc"
    and only: "set_gprs_only {regs ! j, regs ! ?T} t (exec ev cpu c mc t)"
    and ea: "ms_gpr (exec ev cpu c mc t) (regs ! j) = mem_addr s (ai_srcs i ! j)" .
  let ?u = "exec ev cpu c mc t"
  let ?leas = "map (\<lambda>k. Lea (regs ! k) (regs ! lea_base fused j) DR_REG_NULL 0 (offset_of_simd cpu (rs k)))
    (filter (\<lambda>k. k \<noteq> j) [0..<n])"
  have lc: "insert_lea_sources cpu i j regs (lea_base fused j) [0..<n] = Inr ?leas"
    by (rule lea_sources_eq) (use vs len in auto)
  have v: "\<forall>k < n. k \<noteq> j \<longrightarrow> vec_opnd (rs k)" using vs by simp
  note L = leas_exec [OF regs n j v refl, where ev = ev and cpu = cpu and c = c and t = ?u]
  have code: "insert_set_operands_mem_reference cpu c i fused j regs =
      Inr (mc @ ReadTls (tls_float c) (regs ! lea_base fused j) # ?leas)"
    unfolding insert_set_operands_mem_reference_def using mc j len lc n
    by (simp add: SRC_def Let_def lea_base_def)
  moreover have "set_gprs_only arg_set t (exec ev cpu c (mc @ ReadTls (tls_float c) (regs ! lea_base fused j) # ?leas) t)"
  proof -
    have "set_gprs_only arg_set t ?u" using only T(4,5) by (auto simp: set_gprs_only_def)
    moreover have "set_gprs_only arg_set ?u
        (exec ev cpu c (ReadTls (tls_float c) (regs ! lea_base fused j) # ?leas) ?u)"
      using L by blast
    ultimately show ?thesis using set_gprs_only_trans unfolding exec_append by fastforce
  qed
  moreover have "args_set cpu c s (ai_srcs i) regs n
      (exec ev cpu c (mc @ ReadTls (tls_float c) (regs ! lea_base fused j) # ?leas) t)"
    unfolding args_set_def exec_append
  proof (intro allI impI)
    fix k assume k: "k < n"
    have tu: "ms_tls ?u = ms_tls s" using set_gprs_onlyD(2) [OF only] tls by simp
    show "ms_gpr (exec ev cpu c (ReadTls (tls_float c) (regs ! lea_base fused j) # ?leas) ?u) (regs ! k) =
        src_addr cpu c s (ai_srcs i ! k)"
    proof (cases "k = j")
      case True
      have "mem_addr s (ai_srcs i ! j) = src_addr cpu c s (ai_srcs i ! j)"
        using mem by (cases "ai_srcs i ! j") simp_all
      with L ea True show ?thesis by simp
    next
      case False
      with L vs tu k show ?thesis by simp
    qed
  qed
  ultimately show ?thesis by (rule that)
qed

text \<open>Sources in any of the forms of the instruction set: at most one of them is in memory.\<close>

definition srcs_form :: "opnd list \<Rightarrow> nat \<Rightarrow> bool" where
  "srcs_form srcs n \<longleftrightarrow> length srcs = n \<and> list_all src_form srcs \<and> length (filter is_mem srcs) \<le> 1"

lemma filter_le_1_nth:
  assumes "length (filter P xs) \<le> 1" "j < length xs" "k < length xs" "P (xs ! j)" "P (xs ! k)"
  shows "j = k"
proof -
  have "card {i. i < length xs \<and> P (xs ! i)} \<le> Suc 0" using assms(1) by (simp add: length_filter_conv_card)
  then show ?thesis using assms(2-) by (subst (asm) card_le_Suc0_iff_eq) auto
qed

lemma find_mem_eq:
  "\<forall>k \<in> set ks. k < length (ai_srcs i) \<Longrightarrow> find_mem_src i ks = Inr (find (\<lambda>k. is_mem (ai_srcs i ! k)) ks)"
  by (induction ks) (simp_all add: SRC_def is_mem_def)

lemma operand_regs_ok:
  "mnemonic_wf m \<Longrightarrow> arg_regs (operand_regs c m) (if kind_fused (mn_kind m) then 3 else 2)"
  by (cases "mn_order m")
    (auto simp: arg_regs_def operand_regs_def mnemonic_wf_def DR_REG_OP_A_ADDR_def DR_REG_OP_B_ADDR_def
      DR_REG_OP_C_ADDR_def reg_defs split: if_splits)

lemma operands_exec:
  assumes m: "mnemonic_wf m" "size_flag_of m f" "ai_any_sse i = (\<not> mn_avx m)"
    and n: "n = (if kind_fused (mn_kind m) then 3 else 2)" and form: "srcs_form (ai_srcs i) n"
    and sv: "saved_gprs cpu c s (ms_mem t)" and tls: "ms_tls t = ms_tls s"
  obtains oc where "insert_set_operands cpu c i (mnemonic_category m f) = Inr oc"
    "set_gprs_only arg_set t (exec ev cpu c oc t)"
    "args_set cpu c s (ai_srcs i) (operand_regs c m) n (exec ev cpu c oc t)"
proof -
  let ?regs = "operand_regs c m" and ?fused = "kind_fused (mn_kind m)"
  have regs: "arg_regs ?regs n" using operand_regs_ok [OF m(1)] n by simp
  have len: "length (ai_srcs i) = n" using form by (simp add: srcs_form_def)
  have sf: "src_form (ai_srcs i ! k)" if "k < n" for k
    using form that by (simp add: srcs_form_def list_all_length)
  have fm: "find_mem_src i [0..<n] = Inr (find (\<lambda>k. is_mem (ai_srcs i ! k)) [0..<n])"
    by (rule find_mem_eq) (use len in simp)
  define rs where "rs k = (if k < n then case ai_srcs i ! k of OpReg r \<Rightarrow> r | _ \<Rightarrow> 0 else DR_REG_NULL)" for k
  have rs: "ai_srcs i ! k = OpReg (rs k) \<and> vec_opnd (rs k)" if "k < n" "\<not> is_mem (ai_srcs i ! k)" for k
    using not_mem_form [OF sf [OF that(1)] that(2)] that(1) by (auto simp: rs_def)
  note ro = reg_op_addr_mnemonic [OF m] category_tests [OF m(2)]
  show ?thesis
  proof (cases "find (\<lambda>k. is_mem (ai_srcs i ! k)) [0..<n]")
    case None
    then have all: "\<forall>k < n. ai_srcs i ! k = OpReg (rs k) \<and> vec_opnd (rs k)"
      using rs by (auto simp: find_None_iff)
    have a: "ai_srcs i ! 0 = OpReg (rs 0)" "ai_srcs i ! 1 = OpReg (rs 1)" "?fused \<Longrightarrow> ai_srcs i ! 2 = OpReg (rs 2)"
      "\<not> ?fused \<Longrightarrow> rs 2 = DR_REG_NULL"
      using all n by (auto simp: rs_def split: if_splits)
    have "insert_set_operands cpu c i (mnemonic_category m f) =
        Inr (insert_set_operands_all_registers cpu c (rs 0) (rs 1) (rs 2) ?regs)"
      using fm a len n None by (cases ?fused) (simp_all add: insert_set_operands_def Let_def ro SRC_def)
    moreover have "\<forall>j < n. \<exists>r. ai_srcs i ! j = OpReg r \<and> vec_opnd r \<and> rs j = r" using all by simp
    ultimately show ?thesis
      using that all_registers_exec [where rs = rs and ev = ev and cpu = cpu and c = c, OF regs n tls _ a(4)] by blast
  next
    case (Some j)
    then have j: "j < n" "is_mem (ai_srcs i ! j)" by (auto simp: find_Some_iff)
    have oth: "\<forall>k < n. k \<noteq> j \<longrightarrow> ai_srcs i ! k = OpReg (rs k) \<and> vec_opnd (rs k)"
      using rs j filter_le_1_nth [of is_mem "ai_srcs i"] form len unfolding srcs_form_def by metis
    have "insert_set_operands cpu c i (mnemonic_category m f) =
        insert_set_operands_mem_reference cpu c i ?fused j ?regs"
      using fm Some n by (simp add: insert_set_operands_def Let_def ro)
    with mem_reference_exec [OF regs n j(1) len sf [OF j(1)] j(2) oth sv tls, where ev = ev] that
    show ?thesis by metis
  qed
qed

end
