(* ===== verification/Plc_Correct.thy ===== *)
theory Plc_Correct
  imports Plc_Operands
begin

text \<open>
  Correctness of the inserted code. The reference is the instruction set itself with every
  elementary operation replaced by the backend's: \<open>isa_step\<close> reads the operands of an instruction
  from the registers and from memory, computes the elements of the result and writes the
  destination register. The code inserted for a run of instructions has that effect, and the
  instrumented block has the effect of the block.
\<close>

section \<open>The instruction set over the backend\<close>

definition result_bytes :: "mnemonic \<Rightarrow> fp_instr \<Rightarrow> nat" where
  "result_bytes m fi =
     (if \<not> mn_packed m then ftype_size (mn_double m) else if mn_avx m then vector_length fi else 16)"

text \<open>
  The operands in the order of the backend's parameters. The digits of a fused mnemonic name the two
  factors and the addend among the destination (1) and the two sources (2 and 3); the product does
  not depend on the order of its factors. A two-operand SSE instruction has its destination as its
  first operand.
\<close>

definition isa_operands :: "mnemonic \<Rightarrow> app_instr \<Rightarrow> opnd list" where
  "isa_operands m i =
     (let op1 = ai_dsts i ! 0; op2 = ai_srcs i ! 0; op3 = ai_srcs i ! 1 in
      case mn_order m of
        O132 \<Rightarrow> [op3, op1, op2]
      | O213 \<Rightarrow> [op1, op2, op3]
      | O231 \<Rightarrow> [op3, op2, op1]
      | NoOrder \<Rightarrow> if mn_avx m then [op2, op3] else [op1, if op2 = op1 then op3 else op2])"

fun opnd_bytes :: "'r mstate \<Rightarrow> nat \<Rightarrow> opnd \<Rightarrow> u8 list" where
  "opnd_bytes s n (OpReg r) = take n (ms_simd s (simd_index r))"
| "opnd_bytes s n op = load_bytes (mem_addr s op) n (ms_mem s)"

text \<open>
  The destination: SSE keeps the bytes above the result; AVX clears them, after filling the low
  16 bytes of a scalar result from the first source (from the destination of a fused operation).
\<close>

definition isa_result :: "cpu \<Rightarrow> mnemonic \<Rightarrow> u8 list \<Rightarrow> u8 list \<Rightarrow> u8 list \<Rightarrow> u8 list" where
  "isa_result cpu m res src1 old =
     (if mn_avx m
      then res @ drop (length res) (take 16 (if kind_fused (mn_kind m) then old else src1)) @
           replicate (vec_bytes cpu - max 16 (length res)) 0
      else res @ drop (length res) old)"

fun reg_index :: "opnd \<Rightarrow> nat" where
  "reg_index (OpReg r) = simd_index r"
| "reg_index _ = 0"

definition isa_step :: "'r env \<Rightarrow> cpu \<Rightarrow> mnemonic \<Rightarrow> app_instr \<Rightarrow> 'r mstate \<Rightarrow> 'r mstate" where
  "isa_step ev cpu m i s =
     (let n = result_bytes m (ai_fp i); d = reg_index (ai_dsts i ! 0);
          (res, r) = lanes ev (mn_kind m) (mn_double m) (map (opnd_bytes s n) (isa_operands m i))
                       (n div ftype_size (mn_double m)) (ms_backend s)
      in s\<lparr>ms_simd := (ms_simd s)(d :=
               isa_result cpu m res (ms_simd s (reg_index (ai_srcs i ! 0))) (ms_simd s d)),
           ms_backend := r\<rparr>)"

definition mnemonic_of :: "app_instr \<Rightarrow> mnemonic option" where
  "mnemonic_of i =
     (if fi_evex (ai_fp i) then None
      else find (\<lambda>m. mnemonic_name m = fi_opcode (ai_fp i)) all_mnemonics)"

definition isa_instr :: "'r env \<Rightarrow> cpu \<Rightarrow> app_instr \<Rightarrow> 'r mstate \<Rightarrow> 'r mstate" where
  "isa_instr ev cpu i s = (case mnemonic_of i of Some m \<Rightarrow> isa_step ev cpu m i s | None \<Rightarrow> ev_app ev i s)"

text \<open>The instructions the client handles: the forms of their operands as the decoder gives them,
  on a processor whose widest registers are the ones the instruction clears.\<close>

definition fp_form :: "cpu \<Rightarrow> client \<Rightarrow> mnemonic \<Rightarrow> app_instr \<Rightarrow> bool" where
  "fp_form cpu c m i \<longleftrightarrow>
     (let fused = kind_fused (mn_kind m); dst = ai_dsts i ! 0 in
      ai_any_sse i = (\<not> mn_avx m) \<and>
      length (ai_dsts i) = 1 \<and> src_form dst \<and> \<not> is_mem dst \<and>
      srcs_form (ai_srcs i) (if fused then 3 else 2) \<and>
      (if fused then ai_srcs i ! 2 = dst
       else if mn_avx m then mn_packed m \<or> ai_srcs i ! 0 = dst
       else ai_srcs i ! (if need_sse_inverse c then 1 else 0) = dst) \<and>
      (mn_avx m \<longrightarrow> vec_bytes cpu = 32) \<and>
      (mn_avx m \<and> mn_packed m \<longrightarrow> vector_length (ai_fp i) \<in> {16, 32}) \<and>
      (fused \<and> \<not> mn_packed m \<longrightarrow> vector_length (ai_fp i) < 16))"

section \<open>Categories and sizes\<close>

lemma mnemonic_of_category:
  assumes "mnemonic_of i = Some m"
  defines "f \<equiv> if mnemonic_sized m then get_size_flag (ai_fp i) else 0"
  shows "mnemonic_wf m" "size_flag_of m f" "plc_get_operation_category (ai_fp i) = mnemonic_category m f"
proof -
  have ev: "\<not> fi_evex (ai_fp i)"
    and fi: "find (\<lambda>m. mnemonic_name m = fi_opcode (ai_fp i)) all_mnemonics = Some m"
    using assms(1) by (auto simp: mnemonic_of_def split: if_splits)
  have "m \<in> set all_mnemonics" using fi by (auto simp: find_Some_iff)
  then show "mnemonic_wf m" using all_mnemonics_wf by (simp add: list_all_iff)
  show "size_flag_of m f" using get_size_flag_cases [of "ai_fp i"] by (simp add: size_flag_of_def f_def)
  show "plc_get_operation_category (ai_fp i) = mnemonic_category m f"
    using ev fi
    by (simp add: plc_get_operation_category_def opcode_cases_mnemonics map_of_map_find mnemonic_category_def f_def)
qed

lemma callee_of_form:
  assumes m: "mnemonic_wf m" and form: "fp_form cpu c m i"
  defines "ce \<equiv> mnemonic_callee m (if mnemonic_sized m then get_size_flag (ai_fp i) else 0)"
  shows "callee_ok ce" "operation_size ce = result_bytes m (ai_fp i)"
    "ce_fn ce = mn_kind m" "ce_double ce = mn_double m" "(ce_category ce = PLC_OP_AVX) = mn_avx m"
    "result_bytes m (ai_fp i) \<le> vec_bytes cpu"
proof -
  let ?f = "get_size_flag (ai_fp i)" and ?v = "vector_length (ai_fp i)"
  have av: "mn_avx m \<Longrightarrow> mn_packed m \<Longrightarrow> ?v = 16 \<and> ?f = PLC_OP_128 \<or> ?v = 32 \<and> ?f = PLC_OP_256"
    using form by (auto simp: fp_form_def Let_def get_size_flag_length)
  have fu: "kind_fused (mn_kind m) \<Longrightarrow> \<not> mn_packed m \<Longrightarrow> ?f = 0"
    using form by (auto simp: fp_form_def Let_def get_size_flag_length)
  have W: "mn_avx m \<Longrightarrow> vec_bytes cpu = 32" "16 \<le> vec_bytes cpu"
    using form by (auto simp: fp_form_def Let_def vec_bytes_def)
  have wf: "kind_fused (mn_kind m) \<Longrightarrow> mn_avx m" using m by (simp add: mnemonic_wf_def)
  note d = mnemonic_callee_def simd_flag_def mnemonic_sized_def result_bytes_def size_flags_distinct
  show "ce_fn ce = mn_kind m" "ce_double ce = mn_double m" by (simp_all add: ce_def mnemonic_callee_def)
  show "(ce_category ce = PLC_OP_AVX) = mn_avx m" by (simp add: ce_def mnemonic_callee_def plc_flag_defs)
  show "callee_ok ce" "operation_size ce = result_bytes m (ai_fp i)"
    using av fu wf unfolding ce_def
    by (cases "mn_avx m"; cases "mn_packed m"; auto simp: d callee_ok_def operation_size_def plc_flag_defs)+
  show "result_bytes m (ai_fp i) \<le> vec_bytes cpu"
    using av W by (auto simp: result_bytes_def ftype_size_def)
qed

section \<open>Operands in the saved state\<close>

text \<open>A memory operand lies outside the addresses of \<open>D\<close>.\<close>

definition clear_of :: "(u64 \<Rightarrow> bool) \<Rightarrow> 'r mstate \<Rightarrow> nat \<Rightarrow> opnd \<Rightarrow> bool" where
  "clear_of D s n op \<longleftrightarrow> is_mem op \<longrightarrow> (\<forall>x. in_range (mem_addr s op) n x \<longrightarrow> \<not> D x)"

lemma src_addr_mem: "is_mem op \<Longrightarrow> src_addr cpu c s op = mem_addr s op"
  by (cases op) simp_all

lemma opnd_bytes_mem: "is_mem op \<Longrightarrow> opnd_bytes s n op = load_bytes (mem_addr s op) n (ms_mem s)"
  by (cases op) simp_all

lemma vec_index: "vec_opnd r \<Longrightarrow> simd_index r < num_vecs cpu"
  by (auto simp: vec_opnd_def num_vecs_def)

lemma slot_in_buffer:
  assumes "i < num_vecs cpu" "in_range (slot_addr F (vec_bytes cpu) i) n x" "n \<le> vec_bytes cpu"
  shows "in_range F (vec_bytes cpu * num_vecs cpu) x"
  by (rule in_range_sub [where i = "vec_bytes cpu * i" and n = n])
    (use assms slot_bound [OF assms(1), of "vec_bytes cpu"] buffer_bounds in \<open>simp_all add: slot_addr_def del: of_nat_mult\<close>)

lemma slots_apart:
  assumes "i < num_vecs cpu" "j < num_vecs cpu" "i \<noteq> j" "n \<le> vec_bytes cpu" "k \<le> vec_bytes cpu"
  shows "apart (slot_addr F (vec_bytes cpu) i) n (slot_addr F (vec_bytes cpu) j) k"
  unfolding slot_addr_def
proof (rule apart_offsets)
  let ?W = "vec_bytes cpu"
  have le: "?W * a + ?W \<le> ?W * b" if "a < b" for a b by (rule slot_bound [OF that])
  show "?W * i + n \<le> ?W * j \<or> ?W * j + k \<le> ?W * i"
    using assms(3-5) le [of i j] le [of j i] by (cases "i < j") auto
  show "?W * i + n \<le> 2 ^ 64" "?W * j + k \<le> 2 ^ 64"
    using assms le [of i "num_vecs cpu"] le [of j "num_vecs cpu"] buffer_bounds(1) [of cpu] by linarith+
qed

lemma opnd_saved:
  assumes sv: "saved ev cpu c s t" and op: "src_form op" "clear_of (is_scratch ev cpu c s) s n op" and n: "n \<le> vec_bytes cpu"
  shows "load_bytes (src_addr cpu c s op) n (ms_mem t) = opnd_bytes s n op"
proof (cases "is_mem op")
  case True
  have "load_bytes (mem_addr s op) n (ms_mem t) = load_bytes (mem_addr s op) n (ms_mem s)"
    by (rule load_bytes_cong)
      (use True sv op(2) n in \<open>auto simp: clear_of_def saved_def same_outside_def vec_bytes_def split: if_splits\<close>)
  with True show ?thesis by (simp add: src_addr_mem opnd_bytes_mem)
next
  case False
  then obtain r where r: "op = OpReg r" "vec_opnd r" using not_mem_form [OF op(1)] by blast
  let ?a = "slot_addr (ms_tls s (tls_float c)) (vec_bytes cpu) (simd_index r)"
  have "load_bytes ?a (vec_bytes cpu) (ms_mem t) = ms_simd s (simd_index r)"
    using sv vec_index [OF r(2)] by (simp add: saved_def saved_simds_def)
  then show ?thesis using r n by (simp add: take_load_bytes [symmetric])
qed

lemma opnd_apart_dest:
  assumes op: "src_form op" "clear_of (is_scratch ev cpu c s) s n op" and n: "n \<le> vec_bytes cpu" and d: "d < num_vecs cpu"
  shows "operand_apart (slot_addr (ms_tls s (tls_float c)) (vec_bytes cpu) d) n (src_addr cpu c s op)"
proof (cases "is_mem op")
  case True
  have "\<not> in_range (mem_addr s op) n x" if "in_range (slot_addr (ms_tls s (tls_float c)) (vec_bytes cpu) d) n x" for x
    using slot_in_buffer [OF d that n] True op(2) not_scratch(2) [of ev cpu c s x] by (auto simp: clear_of_def)
  then show ?thesis using True by (auto simp: operand_apart_def apart_def src_addr_mem)
next
  case False
  then obtain r where r: "op = OpReg r" "vec_opnd r" using not_mem_form [OF op(1)] by blast
  show ?thesis
    using r slots_apart [OF d vec_index [OF r(2)], of n n] n by (auto simp: operand_apart_def)
qed

section \<open>The destination\<close>

definition run_inv :: "'r env \<Rightarrow> cpu \<Rightarrow> client \<Rightarrow> 'r mstate \<Rightarrow> 'r mstate \<Rightarrow> bool" where
  "run_inv ev cpu c s t \<longleftrightarrow> saved ev cpu c s t \<and> ms_gpr t DR_REG_RSP = ms_gpr s DR_REG_RSP - 32 \<and>
     (\<forall>i. length (ms_simd t i) = vec_bytes cpu)"

definition dest_ptr :: "client \<Rightarrow> 'r mstate \<Rightarrow> u64" where
  "dest_ptr c t = le_word (load_bytes (ms_tls t (tls_result c)) 8 (ms_mem t))"

text \<open>A store inside the result buffer keeps what is saved.\<close>

lemma saved_store:
  assumes ok: "state_ok ev cpu c s" and sv: "saved ev cpu c s t" and len: "length bs = 8"
    and u: "ms_tls u = ms_tls t" "ms_backend u = ms_backend t"
      "ms_mem u = store_bytes (ms_tls s (tls_result c)) bs (ms_mem t)"
  shows "saved ev cpu c s u"
proof -
  let ?G = "ms_tls s (tls_gpr c)" and ?F = "ms_tls s (tls_float c)" and ?R = "ms_tls s (tls_result c)"
  note ap = state_ok_apart [OF ok]
  have g: "load_bytes (slot_addr ?G 8 r) 8 (ms_mem u) = load_bytes (slot_addr ?G 8 r) 8 (ms_mem t)"
    if "r < NUM_GPR_SLOTS" for r
    unfolding u(3) slot_addr_def
    by (rule load_store_apart)
      (use apart_sub [OF apart_sym [OF ap(2)], where i = 0 and n = 8 and j = "8 * r" and h = 8] that len in
        \<open>simp_all add: NUM_GPR_SLOTS_def\<close>)
  have f: "load_bytes (slot_addr ?F (vec_bytes cpu) i) (vec_bytes cpu) (ms_mem u) =
      load_bytes (slot_addr ?F (vec_bytes cpu) i) (vec_bytes cpu) (ms_mem t)" if "i < num_vecs cpu" for i
    unfolding u(3) slot_addr_def
    by (rule load_store_apart)
      (use apart_sub [OF apart_sym [OF ap(3)], where i = 0 and n = 8 and j = "vec_bytes cpu * i" and h = "vec_bytes cpu"]
        that len slot_bound [OF that, of "vec_bytes cpu"] buffer_bounds(1,3) [of cpu] in \<open>simp_all del: of_nat_mult\<close>)
  have x: "ms_mem u x = ms_mem t x" if "\<not> is_scratch ev cpu c s x" for x
    unfolding u(3) using not_scratch(3) [OF that] len by (simp add: store_bytes_out)
  show ?thesis
    using sv u g f x by (auto simp: saved_def same_outside_def saved_gprs_def saved_simds_def NUM_GPR_SLOTS_def)
qed

lemma set_destination_exec:
  assumes ok: "state_ok ev cpu c s" and sv: "saved ev cpu c s t" and d: "vec_opnd d"
  obtains u where "exec ev cpu c (insert_set_destination_tls cpu c d) t = u" "saved ev cpu c s u"
    "dest_ptr c u = slot_addr (ms_tls s (tls_float c)) (vec_bytes cpu) (simd_index d)"
    "ms_simd u = ms_simd t" "ms_gpr u DR_REG_RSP = ms_gpr t DR_REG_RSP"
proof -
  let ?F = "ms_tls s (tls_float c)" and ?R = "ms_tls s (tls_result c)"
  let ?p = "slot_addr ?F (vec_bytes cpu) (simd_index d)"
  define u where "u = exec ev cpu c (insert_set_destination_tls cpu c d) t"
  have tls: "ms_tls t = ms_tls s" using sv by (simp add: saved_def same_outside_def)
  have ea: "?F + of_int (offset_of_simd cpu d) = ?p" using d simd_slot [of d ?F cpu] by (simp add: vec_opnd_def)
  note r = DR_REG_OP_A_ADDR_def DR_REG_OP_B_ADDR_def DR_REG_OP_C_ADDR_def reg_defs
  have m: "ms_mem u = store_bytes ?R (le_bytes 8 ?p) (ms_mem t)"
    by (simp add: u_def insert_set_destination_tls_def set_gpr_def base_disp_addr_def gpr_val_def r tls ea)
  have o: "ms_tls u = ms_tls t" "ms_backend u = ms_backend t" "ms_simd u = ms_simd t"
      "ms_gpr u DR_REG_RSP = ms_gpr t DR_REG_RSP"
    by (simp_all add: u_def insert_set_destination_tls_def set_gpr_def r)
  have "load_bytes ?R 8 (ms_mem u) = le_bytes 8 ?p"
    unfolding m using load_store_same [of "le_bytes 8 ?p" ?R "ms_mem t"] by simp
  then have "dest_ptr c u = ?p" using o tls by (simp add: dest_ptr_def le_word_le_bytes)
  moreover have "saved ev cpu c s u" by (rule saved_store [OF ok sv _ o(1,2) m]) simp
  ultimately show ?thesis using that u_def o by blast
qed

section \<open>The call\<close>

lemma args_operands:
  assumes m: "mnemonic_wf m" and form: "fp_form cpu c m i"
    and args: "args_set cpu c s (ai_srcs i) (operand_regs c m) (if kind_fused (mn_kind m) then 3 else 2) u"
    and ce: "ce_fn ce = mn_kind m"
  shows "map (ms_gpr u) (callee_args ce) = map (src_addr cpu c s) (isa_operands m i)"
proof (cases "kind_fused (mn_kind m)")
  case True
  then have a: "\<forall>j < 3. ms_gpr u (operand_regs c m ! j) = src_addr cpu c s (ai_srcs i ! j)"
    using args by (simp add: args_set_def)
  have "ai_srcs i ! 2 = ai_dsts i ! 0" using form True by (simp add: fp_form_def Let_def)
  then show ?thesis
    using a m True ce unfolding less3
    by (cases "mn_order m") (simp_all add: operand_regs_def callee_args_def isa_operands_def mnemonic_wf_def)
next
  case False
  then have a: "\<forall>j < 2. ms_gpr u (operand_regs c m ! j) = src_addr cpu c s (ai_srcs i ! j)"
    using args by (simp add: args_set_def)
  have "\<not> mn_avx m \<Longrightarrow> ai_srcs i ! (if need_sse_inverse c then 1 else 0) = ai_dsts i ! 0"
    using form False by (simp add: fp_form_def Let_def)
  then show ?thesis
    using a m False ce unfolding less2
    by (cases "need_sse_inverse c")
      (auto simp: operand_regs_def callee_args_def isa_operands_def mnemonic_wf_def Let_def)
qed

lemma isa_operands_srcs:
  assumes "mnemonic_wf m" "fp_form cpu c m i"
  shows "set (isa_operands m i) \<subseteq> set (ai_srcs i)"
proof -
  have len: "length (ai_srcs i) = (if kind_fused (mn_kind m) then 3 else 2)"
    using assms by (simp add: fp_form_def srcs_form_def Let_def)
  then have mem: "ai_srcs i ! 0 \<in> set (ai_srcs i)" "ai_srcs i ! 1 \<in> set (ai_srcs i)"
    "kind_fused (mn_kind m) \<Longrightarrow> ai_srcs i ! 2 \<in> set (ai_srcs i)"
    by (simp_all split: if_splits)
  have "kind_fused (mn_kind m) \<Longrightarrow> ai_srcs i ! 2 = ai_dsts i ! 0"
    "\<not> kind_fused (mn_kind m) \<Longrightarrow> \<not> mn_avx m \<Longrightarrow> ai_srcs i ! (if need_sse_inverse c then 1 else 0) = ai_dsts i ! 0"
    using assms by (simp_all add: fp_form_def Let_def)
  then have "kind_fused (mn_kind m) \<or> \<not> mn_avx m \<Longrightarrow> ai_dsts i ! 0 \<in> set (ai_srcs i)"
    using mem by (metis (full_types))
  then show ?thesis
    using assms(1) mem by (cases "mn_order m") (auto simp: isa_operands_def mnemonic_wf_def Let_def split: if_splits)
qed

lemma dest_form:
  assumes "fp_form cpu c m i"
  obtains d where "ai_dsts i = [OpReg d]" "vec_opnd d"
proof -
  have "length (ai_dsts i) = 1" "src_form (ai_dsts i ! 0)" "\<not> is_mem (ai_dsts i ! 0)"
    using assms by (simp_all add: fp_form_def Let_def)
  then show ?thesis
    using that not_mem_form [of "ai_dsts i ! 0"] by (cases "ai_dsts i") auto
qed

text \<open>What the call leaves in the slot is the result of the instruction set.\<close>

lemma dest_after_result:
  assumes m: "mnemonic_wf m" and form: "fp_form cpu c m i" and dst: "ai_dsts i = [OpReg d]"
    and ce: "(ce_category ce = PLC_OP_AVX) = mn_avx m"
    and len: "length res = result_bytes m (ai_fp i)" "length (ms_simd s (simd_index d)) = vec_bytes cpu"
  shows "dest_after ce res (ms_simd s (simd_index d)) =
    isa_result cpu m res (ms_simd s (reg_index (ai_srcs i ! 0))) (ms_simd s (simd_index d))"
proof (cases "mn_avx m")
  case True
  then have W: "vec_bytes cpu = 32" using form by (simp add: fp_form_def Let_def)
  have src: "mn_packed m \<or> (if kind_fused (mn_kind m) then ms_simd s (simd_index d)
      else ms_simd s (reg_index (ai_srcs i ! 0))) = ms_simd s (simd_index d)"
    using form True dst by (auto simp: fp_form_def Let_def)
  have "mn_packed m \<Longrightarrow> 16 \<le> length res"
    using form True len(1) by (auto simp: fp_form_def Let_def result_bytes_def)
  moreover have "\<not> mn_packed m \<Longrightarrow> length res \<le> 16"
    using len(1) by (simp add: result_bytes_def ftype_size_def)
  ultimately show ?thesis
    using True W src len(2) ce by (cases "mn_packed m") (auto simp: dest_after_def isa_result_def max_def)
next
  case False
  then show ?thesis using ce by (simp add: dest_after_def isa_result_def)
qed

text \<open>A change of memory inside slot \<open>d\<close> and below the stack pointer, and of the backend's state.\<close>

lemma saved_write_slot:
  assumes ok: "state_ok ev cpu c s" and sv: "saved ev cpu c s u" and d: "d < num_vecs cpu"
    and s': "s' = s\<lparr>ms_simd := (ms_simd s)(d := v), ms_backend := r\<rparr>"
    and slot: "load_bytes (slot_addr (ms_tls s (tls_float c)) (vec_bytes cpu) d) (vec_bytes cpu) mem = v"
    and frame: "\<And>x. \<not> in_range (slot_addr (ms_tls s (tls_float c)) (vec_bytes cpu) d) (vec_bytes cpu) x \<Longrightarrow> mem x = ms_mem u x"
    and t: "ms_tls t = ms_tls u" "ms_backend t = r"
      "ms_mem t = (\<lambda>x. if in_range (ms_gpr s DR_REG_RSP - 32 - of_nat (ev_depth ev)) (ev_depth ev) x then stk x else mem x)"
  shows "saved ev cpu c s' t"
proof -
  let ?G = "ms_tls s (tls_gpr c)" and ?F = "ms_tls s (tls_float c)" and ?W = "vec_bytes cpu"
  let ?sl = "\<lambda>i. slot_addr ?F ?W i"
  let ?stack = "in_range (ms_gpr s DR_REG_RSP - 32 - of_nat (ev_depth ev)) (ev_depth ev)"
  note ap = state_ok_apart [OF ok]
  have sc: "is_scratch ev cpu c s' = is_scratch ev cpu c s"
    by (simp add: s' is_scratch_def scratch_ranges_def fun_eq_iff)
  have out: "mem x = ms_mem u x" if "\<not> in_range ?F (?W * num_vecs cpu) x" for x
    using that slot_in_buffer [OF d] frame by blast
  have same: "ms_mem t x = ms_mem u x" if "\<not> is_scratch ev cpu c s x" for x
    using not_scratch(2,4) [OF that] out t(3) by simp
  have gx: "ms_mem t x = ms_mem u x" if "in_range ?G (8 * NUM_GPR_SLOTS) x" for x
  proof -
    have "\<not> in_range ?F (?W * num_vecs cpu) x" "\<not> ?stack x" using that ap(1,4) unfolding apart_def by blast+
    then show ?thesis using out t(3) by simp
  qed
  have g: "load_bytes (slot_addr ?G 8 q) 8 (ms_mem t) = load_bytes (slot_addr ?G 8 q) 8 (ms_mem u)"
    if q: "q < NUM_GPR_SLOTS" for q
  proof (rule load_bytes_cong)
    fix x assume "in_range (slot_addr ?G 8 q) 8 x"
    then have "in_range ?G (8 * NUM_GPR_SLOTS) x" unfolding slot_addr_def
      by (rule in_range_sub [where i = "8 * q" and n = 8, OF _ _ buffer_bounds(2)])
        (use q in \<open>simp_all add: slot_addr_def NUM_GPR_SLOTS_def\<close>)
    then show "ms_mem t x = ms_mem u x" by (rule gx)
  qed simp
  have fx: "ms_mem t x = mem x" if "in_range (?sl i) ?W x" "i < num_vecs cpu" for x i
  proof -
    have "in_range ?F (?W * num_vecs cpu) x" by (rule slot_in_buffer [OF that(2,1)]) simp
    then have "\<not> ?stack x" using ap(5) unfolding apart_def by blast
    then show ?thesis using t(3) by simp
  qed
  have f: "load_bytes (?sl i) ?W (ms_mem t) = (if i = d then v else ms_simd s i)" if i: "i < num_vecs cpu" for i
  proof -
    have "load_bytes (?sl i) ?W (ms_mem t) = load_bytes (?sl i) ?W mem"
      by (rule load_bytes_cong [OF fx [OF _ i] buffer_bounds(3)])
    also have "\<dots> = (if i = d then v else load_bytes (?sl i) ?W (ms_mem u))"
    proof (cases "i = d")
      case False
      have "load_bytes (?sl i) ?W mem = load_bytes (?sl i) ?W (ms_mem u)"
        by (rule load_bytes_cong [OF frame buffer_bounds(3)])
          (use slots_apart [OF i d False, of ?W ?W ?F] in \<open>simp add: apart_def\<close>)
      with False show ?thesis by simp
    qed (use slot in simp)
    finally show ?thesis using sv i by (simp add: saved_def saved_simds_def)
  qed
  have "same_outside ev cpu c s' t"
    using sv t(1,2) same unfolding same_outside_def sc by (simp add: saved_def same_outside_def s')
  moreover have "saved_gprs cpu c s' (ms_mem t)"
    using sv g g [of 0] by (simp add: saved_def saved_gprs_def s' NUM_GPR_SLOTS_def)
  moreover have "saved_simds cpu c s' (ms_mem t)"
    using f by (simp add: saved_simds_def s')
  ultimately show ?thesis by (simp add: saved_def)
qed

definition env_ok :: "'r env \<Rightarrow> cpu \<Rightarrow> bool" where
  "env_ok ev cpu \<longleftrightarrow> (\<forall>s i. length (ev_simd ev s i) = vec_bytes cpu)"

lemma rsp_callee_saved: "callee_saved DR_REG_RSP"
  by (simp add: callee_saved_def)

lemma call_exec:
  assumes ok: "state_ok ev cpu c s" "env_ok ev cpu" and m: "mnemonic_wf m" and form: "fp_form cpu c m i"
    and clear: "\<forall>op \<in> set (ai_srcs i). clear_of (is_scratch ev cpu c s) s (result_bytes m (ai_fp i)) op"
    and sv: "saved ev cpu c s u" and dst: "ai_dsts i = [OpReg d]" "vec_opnd d"
    and ptr: "dest_ptr c u = slot_addr (ms_tls s (tls_float c)) (vec_bytes cpu) (simd_index d)"
    and args: "map (ms_gpr u) (callee_args ce) = map (src_addr cpu c s) (isa_operands m i)"
    and rsp: "ms_gpr u DR_REG_RSP = ms_gpr s DR_REG_RSP - 32"
    and ce: "ce = mnemonic_callee m (if mnemonic_sized m then get_size_flag (ai_fp i) else 0)"
  shows "run_inv ev cpu c (isa_step ev cpu m i s) (exec_call ev c ce u)"
proof -
  let ?n = "result_bytes m (ai_fp i)" and ?ops = "isa_operands m i" and ?W = "vec_bytes cpu"
  let ?p = "slot_addr (ms_tls s (tls_float c)) ?W (simd_index d)"
  note ce' = callee_of_form [OF m form, folded ce]
  have di: "simd_index d < num_vecs cpu" by (rule vec_index [OF dst(2)])
  have sf: "src_form op" "clear_of (is_scratch ev cpu c s) s ?n op" if "op \<in> set ?ops" for op
    using isa_operands_srcs [OF m form] that form clear
    by (auto simp: fp_form_def Let_def srcs_form_def list_all_iff)
  have vals: "map (\<lambda>v. load_bytes v ?n (ms_mem u)) (map (src_addr cpu c s) ?ops) = map (opnd_bytes s ?n) ?ops"
    using opnd_saved [OF sv sf ce'(6)] by simp
  obtain res r where L: "lanes ev (mn_kind m) (mn_double m) (map (opnd_bytes s ?n) ?ops)
      (?n div ftype_size (mn_double m)) (ms_backend s) = (res, r)" by fastforce
  have bk: "ms_backend u = ms_backend s" using sv by (simp add: saved_def same_outside_def)
  have nb: "nb_elem ce = ?n div ftype_size (mn_double m)" using ce' by (simp add: nb_elem_def)
  have len: "length res = ?n"
    using length_lanes [of ev "mn_kind m" "mn_double m" "map (opnd_bytes s ?n) ?ops" "nb_elem ce" "ms_backend s"] L
      callee_sizes(1) [OF ce'(1)] ce' by (simp add: nb)
  have W: "?W \<le> 64" "mn_avx m \<Longrightarrow> 32 \<le> ?W" using form by (simp_all add: vec_bytes_def fp_form_def Let_def)
  have ap: "\<forall>v \<in> set (map (src_addr cpu c s) ?ops). operand_apart ?p (operation_size ce) v"
    using opnd_apart_dest [OF sf ce'(6) di] ce'(2) by auto
  have L': "lanes ev (ce_fn ce) (ce_double ce)
      (map (\<lambda>v. load_bytes v (operation_size ce) (ms_mem u)) (map (src_addr cpu c s) ?ops)) (nb_elem ce)
      (ms_backend s) = (res, r)"
    using L by (simp only: ce'(2-4) nb vals)
  obtain mem where ap: "padloc_apply ev ce ?p (map (src_addr cpu c s) ?ops) (ms_mem u, ms_backend s) = (mem, r)"
    and ld: "load_bytes ?p ?W mem = dest_after ce res (load_bytes ?p ?W (ms_mem u))"
    and fr: "\<And>x. \<not> in_range ?p ?W x \<Longrightarrow> mem x = ms_mem u x"
    by (rule padloc_apply_ok [OF ce'(1) ap _ _ W(1) L']) (use ce' W in auto)
  have old: "load_bytes ?p ?W (ms_mem u) = ms_simd s (simd_index d)"
    using sv di by (simp add: saved_def saved_simds_def)
  let ?v = "isa_result cpu m res (ms_simd s (reg_index (ai_srcs i ! 0))) (ms_simd s (simd_index d))"
  have v: "load_bytes ?p ?W mem = ?v"
    unfolding ld old by (rule dest_after_result [OF m form dst(1) ce'(5) len])
      (use ok(1) di in \<open>simp add: state_ok_def\<close>)
  have st: "isa_step ev cpu m i s = s\<lparr>ms_simd := (ms_simd s)(simd_index d := ?v), ms_backend := r\<rparr>"
    using L dst(1) by (simp add: isa_step_def Let_def)
  let ?t = "exec_call ev c ce u"
  have t: "ms_tls ?t = ms_tls u" "ms_backend ?t = r" "ms_gpr ?t DR_REG_RSP = ms_gpr u DR_REG_RSP"
      "ms_simd ?t = ev_simd ev u"
      "ms_mem ?t = (\<lambda>x. if in_range (ms_gpr s DR_REG_RSP - 32 - of_nat (ev_depth ev)) (ev_depth ev) x
         then ev_stack ev u x else mem x)"
    using ap ptr args rsp bk
    by (simp_all add: exec_call_def dest_ptr_def Let_def rsp_callee_saved del: map_map map_eq_conv)
  have "saved ev cpu c (isa_step ev cpu m i s) ?t"
    by (rule saved_write_slot [OF ok(1) sv di st v fr t(1,2,5)])
  then show ?thesis using t rsp ok(2) by (simp add: run_inv_def st env_ok_def)
qed

section \<open>One instruction of a run\<close>

lemma restore_rsp_exec:
  assumes sv: "saved ev cpu c s u"
  defines "v \<equiv> exec ev cpu c (insert_restore_rsp c @ [SubSp 32]) u"
  shows "ms_gpr v DR_REG_RSP = ms_gpr s DR_REG_RSP - 32" "\<And>r. r \<noteq> DR_REG_RSP \<Longrightarrow> ms_gpr v r = ms_gpr u r"
    "saved ev cpu c s v" "dest_ptr c v = dest_ptr c u"
proof -
  have tls: "ms_tls u = ms_tls s" using sv by (simp add: saved_def same_outside_def)
  have "le_word (load_bytes (slot_addr (ms_tls s (tls_gpr c)) 8 DR_REG_RSP) 8 (ms_mem u)) = ms_gpr s DR_REG_RSP"
    by (rule saved_gprs_load [where cpu = cpu]) (use sv in \<open>simp_all add: saved_def DR_REG_RSP_def NUM_GPR_SLOTS_def\<close>)
  then show "ms_gpr v DR_REG_RSP = ms_gpr s DR_REG_RSP - 32"
    using tls by (simp add: v_def insert_restore_rsp_def set_gpr_def gpr_slot)
  show "\<And>r. r \<noteq> DR_REG_RSP \<Longrightarrow> ms_gpr v r = ms_gpr u r"
    by (simp add: v_def insert_restore_rsp_def set_gpr_def)
  have m: "ms_mem v = ms_mem u" "ms_tls v = ms_tls u" "ms_backend v = ms_backend u"
    by (simp_all add: v_def insert_restore_rsp_def set_gpr_def)
  then show "saved ev cpu c s v" "dest_ptr c v = dest_ptr c u"
    using sv by (simp_all add: saved_def same_outside_def dest_ptr_def)
qed

lemma saved_set_gprs:
  assumes "set_gprs_only R t u" "saved ev cpu c s t"
  shows "saved ev cpu c s u" "dest_ptr c u = dest_ptr c t"
  using assms set_gprs_onlyD(1-3) [OF assms(1)] by (simp_all add: saved_def same_outside_def dest_ptr_def)

lemma arg_set_rsp: "DR_REG_RSP \<notin> arg_set"
  by (simp add: DR_REG_OP_A_ADDR_def DR_REG_OP_B_ADDR_def DR_REG_OP_C_ADDR_def reg_defs)

lemma callee_args_set: "set (callee_args ce) \<subseteq> arg_set"
  by (auto simp: callee_args_def)

lemma instrument_step:
  assumes m: "mnemonic_of i = Some m" and form: "fp_form cpu c m i"
    and ok: "state_ok ev cpu c s" "env_ok ev cpu"
    and clear: "\<forall>op \<in> set (ai_srcs i). clear_of (is_scratch ev cpu c s) s (result_bytes m (ai_fp i)) op"
    and t: "if b then run_inv ev cpu c s t else t = s"
  obtains code where "instrument_one cpu c b i (plc_get_operation_category (ai_fp i)) = Inr code"
    "run_inv ev cpu c (isa_step ev cpu m i s) (exec ev cpu c code t)"
proof -
  define f where "f = (if mnemonic_sized m then get_size_flag (ai_fp i) else 0)"
  note cat = mnemonic_of_category [OF m, folded f_def]
  obtain d where d: "ai_dsts i = [OpReg d]" "vec_opnd d" by (rule dest_form [OF form])
  define t0 where "t0 = (if b then t else exec ev cpu c (insert_save_gpr_and_flags c @ insert_save_simd_registers cpu c) t)"
  have sv0: "saved ev cpu c s t0"
    using t save_ok [OF ok(1)] by (cases b) (auto simp: t0_def run_inv_def)
  obtain u where u: "exec ev cpu c (insert_set_destination_tls cpu c d) t0 = u" "saved ev cpu c s u"
    "dest_ptr c u = slot_addr (ms_tls s (tls_float c)) (vec_bytes cpu) (simd_index d)"
    "ms_simd u = ms_simd t0" "ms_gpr u DR_REG_RSP = ms_gpr t0 DR_REG_RSP"
    by (rule set_destination_exec [OF ok(1) sv0 d(2)])
  let ?n = "if kind_fused (mn_kind m) then 3 else 2"
  have fm: "ai_any_sse i = (\<not> mn_avx m)" "srcs_form (ai_srcs i) ?n" using form by (simp_all add: fp_form_def Let_def)
  have svu: "saved_gprs cpu c s (ms_mem u)" "ms_tls u = ms_tls s" using u(2) by (simp_all add: saved_def same_outside_def)
  obtain oc where oc: "insert_set_operands cpu c i (mnemonic_category m f) = Inr oc"
    and only: "set_gprs_only arg_set u (exec ev cpu c oc u)"
    and args: "args_set cpu c s (ai_srcs i) (operand_regs c m) ?n (exec ev cpu c oc u)"
    by (rule operands_exec [OF cat(1,2) fm(1) refl fm(2) svu])
  define v where "v = exec ev cpu c oc u"
  define w where "w = (if b then v else exec ev cpu c (insert_restore_rsp c @ [SubSp 32]) v)"
  note svv = saved_set_gprs [OF only u(2), folded v_def]
  define ce where "ce = mnemonic_callee m f"
  have "map (ms_gpr v) (callee_args ce) = map (src_addr cpu c s) (isa_operands m i)"
    using args_operands [OF cat(1) form args, of ce] by (simp add: ce_def mnemonic_callee_def v_def)
  moreover have "map (ms_gpr w) (callee_args ce) = map (ms_gpr v) (callee_args ce)"
    using callee_args_set [of ce] arg_set_rsp restore_rsp_exec(2) [OF svv(1)] by (auto simp: w_def)
  ultimately have aw: "map (ms_gpr w) (callee_args ce) = map (src_addr cpu c s) (isa_operands m i)" by simp
  have rsp: "ms_gpr w DR_REG_RSP = ms_gpr s DR_REG_RSP - 32"
    using restore_rsp_exec(1) [OF svv(1)] t u(5) set_gprs_onlyD(4) [OF only arg_set_rsp]
    by (auto simp: w_def v_def t0_def run_inv_def)
  have sw: "saved ev cpu c s w" "dest_ptr c w = slot_addr (ms_tls s (tls_float c)) (vec_bytes cpu) (simd_index d)"
    using svv u(3) restore_rsp_exec(3,4) [OF svv(1)] by (simp_all add: w_def)
  have call: "run_inv ev cpu c (isa_step ev cpu m i s) (exec_call ev c ce w)"
    by (rule call_exec [OF ok cat(1) form clear sw(1) d sw(2) aw rsp]) (simp add: ce_def f_def)
  let ?code = "(if \<not> b then insert_save_gpr_and_flags c @ insert_save_simd_registers cpu c else []) @
      insert_set_destination_tls cpu c d @ oc @
      (if \<not> b then insert_restore_rsp c @ [SubSp 32] else []) @ [CallBackend ce]"
  have "instrument_one cpu c b i (plc_get_operation_category (ai_fp i)) = Inr ?code"
    using oc insert_call_mnemonic [OF cat(1,2)]
    by (simp add: instrument_one_def DST_def d(1) cat(3) ce_def)
  moreover have "exec ev cpu c ?code t = exec_call ev c ce w"
    using u(1) by (cases b) (simp_all add: w_def v_def t0_def)
  ultimately show ?thesis using that call by simp
qed

section \<open>Restoring\<close>

text \<open>The states agree for the application: its registers, the lahf flags, its vectors, the thread-local
  fields and the memory outside \<open>D\<close>. The overflow flag is not among them.\<close>

definition agree :: "cpu \<Rightarrow> (u64 \<Rightarrow> bool) \<Rightarrow> 'r mstate \<Rightarrow> 'r mstate \<Rightarrow> bool" where
  "agree cpu D s t \<longleftrightarrow>
     (\<forall>r \<in> {1..<NUM_GPR_SLOTS}. ms_gpr t r = ms_gpr s r) \<and> ms_flags t = ms_flags s \<and>
     (\<forall>i < num_vecs cpu. ms_simd t i = ms_simd s i) \<and> ms_tls t = ms_tls s \<and> ms_backend t = ms_backend s \<and>
     (\<forall>x. \<not> D x \<longrightarrow> ms_mem t x = ms_mem s x)"

lemma agree_refl: "agree cpu D s s"
  by (simp add: agree_def)

lemma agree_trans: "agree cpu D s t \<Longrightarrow> agree cpu D t u \<Longrightarrow> agree cpu D s u"
  by (simp add: agree_def)

lemma agree_mono: "agree cpu D s t \<Longrightarrow> \<forall>x. D x \<longrightarrow> E x \<Longrightarrow> agree cpu E s t"
  by (auto simp: agree_def)

lemma restore_ok:
  assumes sv: "saved ev cpu c s t" and len: "\<forall>i. length (ms_simd t i) = vec_bytes cpu"
  shows "agree cpu (is_scratch ev cpu c s) s
    (exec ev cpu c (insert_restore_simd_registers cpu c @ insert_restore_gpr_and_flags c) t)"
proof -
  define u where "u = exec ev cpu c (insert_restore_simd_registers cpu c) t"
  have u: "u = t\<lparr>ms_gpr := (ms_gpr t)(DR_REG_RCX := ms_tls t (tls_float c)),
      ms_simd := (\<lambda>j. if j < num_vecs cpu
        then load_bytes (slot_addr (ms_tls t (tls_float c)) (vec_bytes cpu) j) (vec_bytes cpu) (ms_mem t)
        else ms_simd t j)\<rparr>"
    unfolding u_def by (rule exec_restore_simd) (use len in simp)
  have tls: "ms_tls t = ms_tls s" using sv by (simp add: saved_def same_outside_def)
  have sg: "saved_gprs cpu c s (ms_mem u)" "ms_tls u = ms_tls s" using sv tls by (simp_all add: u saved_def)
  obtain g where g: "exec ev cpu c (insert_restore_gpr_and_flags c) u = u\<lparr>ms_gpr := g, ms_flags := ms_flags s\<rparr>"
    "\<forall>r \<in> {1..<NUM_GPR_SLOTS}. g r = ms_gpr s r"
    by (rule exec_restore_gpr [OF sg])
  have "ms_simd u i = ms_simd s i" if "i < num_vecs cpu" for i
    using sv tls that by (simp add: u saved_def saved_simds_def)
  then show ?thesis
    using g sv by (simp add: u_def [symmetric] agree_def) (simp add: u saved_def same_outside_def)
qed

section \<open>The reference respects agreement\<close>

lemma agree_scratch:
  assumes "agree cpu D s t"
  shows "is_scratch ev cpu c t = is_scratch ev cpu c s" "state_ok ev cpu c t = state_ok ev cpu c s"
proof -
  have "ms_gpr t DR_REG_RSP = ms_gpr s DR_REG_RSP" "ms_tls t = ms_tls s" "\<forall>i < num_vecs cpu. ms_simd t i = ms_simd s i"
    using assms by (simp_all add: agree_def DR_REG_RSP_def NUM_GPR_SLOTS_def)
  then show "is_scratch ev cpu c t = is_scratch ev cpu c s" "state_ok ev cpu c t = state_ok ev cpu c s"
    by (simp_all add: is_scratch_def scratch_ranges_def state_ok_def fun_eq_iff)
qed

lemma agree_mem_addr:
  assumes "agree cpu D s t" "src_form op"
  shows "mem_addr t op = mem_addr s op"
proof (cases op)
  case (OpBaseDisp seg b i sc d)
  have "gpr_val t r = gpr_val s r" if "r < NUM_GPR_SLOTS" for r
    using assms(1) that by (simp add: agree_def gpr_val_def DR_REG_NULL_def)
  with OpBaseDisp assms(2) show ?thesis by (simp add: base_disp_addr_def)
qed simp_all

lemma agree_opnd:
  assumes ag: "agree cpu D s t" and op: "src_form op" "clear_of D s n op" and n: "n \<le> vec_bytes cpu"
  shows "opnd_bytes t n op = opnd_bytes s n op" "clear_of D t n op"
proof -
  note ma = agree_mem_addr [OF ag op(1)]
  show "clear_of D t n op" using op(2) by (simp add: clear_of_def ma)
  show "opnd_bytes t n op = opnd_bytes s n op"
  proof (cases "is_mem op")
    case True
    have "load_bytes (mem_addr s op) n (ms_mem t) = load_bytes (mem_addr s op) n (ms_mem s)"
      by (rule load_bytes_cong)
        (use True ag op(2) n buffer_bounds(3) [of cpu] in \<open>auto simp: agree_def clear_of_def\<close>)
    with True ma show ?thesis by (simp add: opnd_bytes_mem)
  next
    case False
    then obtain r where r: "op = OpReg r" "vec_opnd r" using not_mem_form [OF op(1)] by blast
    then show ?thesis using ag vec_index [OF r(2), of cpu] by (simp add: agree_def)
  qed
qed

lemma reg_index_less: "src_form op \<Longrightarrow> reg_index op < num_vecs cpu"
  using vec_index by (cases op) (auto simp: num_vecs_def)

lemma agree_isa_step:
  assumes m: "mnemonic_wf m" and form: "fp_form cpu c m i" and ag: "agree cpu D s t"
    and clear: "\<forall>op \<in> set (ai_srcs i). clear_of D s (result_bytes m (ai_fp i)) op"
  shows "agree cpu D (isa_step ev cpu m i s) (isa_step ev cpu m i t)"
proof -
  let ?n = "result_bytes m (ai_fp i)"
  have n: "?n \<le> vec_bytes cpu" by (rule callee_of_form(6) [OF m form])
  have sf: "list_all src_form (ai_srcs i)" "src_form (ai_dsts i ! 0)" "ai_srcs i \<noteq> []"
    using form by (auto simp: fp_form_def Let_def srcs_form_def split: if_splits)
  have "map (opnd_bytes t ?n) (isa_operands m i) = map (opnd_bytes s ?n) (isa_operands m i)"
    using isa_operands_srcs [OF m form] sf(1) clear agree_opnd(1) [OF ag _ _ n]
    by (auto simp: list_all_iff)
  moreover have "src_form (ai_srcs i ! 0)" using sf(1,3) by (cases "ai_srcs i") simp_all
  then have "ms_simd t (reg_index (ai_srcs i ! 0)) = ms_simd s (reg_index (ai_srcs i ! 0))"
    "ms_simd t (reg_index (ai_dsts i ! 0)) = ms_simd s (reg_index (ai_dsts i ! 0))"
    using ag reg_index_less [of _ cpu] sf(2) by (simp_all add: agree_def)
  moreover have "ms_backend t = ms_backend s" using ag by (simp add: agree_def)
  ultimately show ?thesis
    using ag unfolding isa_step_def Let_def case_prod_beta by (simp add: agree_def del: map_eq_conv)
qed

section \<open>A basic block\<close>

lemma instrumented_iff: "plc_is_instrumented (plc_get_operation_category (ai_fp i)) \<longleftrightarrow> mnemonic_of i \<noteq> None"
proof (cases "mnemonic_of i")
  case None
  then have "plc_get_operation_category (ai_fp i) \<in> {PLC_OTHER, PLC_UNSUPPORTED}"
    by (auto simp: mnemonic_of_def plc_get_operation_category_def opcode_cases_mnemonics map_of_map_find split: if_splits)
  then show ?thesis using None by (auto simp: plc_is_instrumented_def plc_category_defs plc_flag_defs)
next
  case (Some m)
  define f where "f = (if mnemonic_sized m then get_size_flag (ai_fp i) else 0)"
  note cat = mnemonic_of_category [OF Some, folded f_def]
  have "plc_is_double (mnemonic_category m f) \<or> plc_is_float (mnemonic_category m f)"
    using category_tests(1,2) [OF cat(2)] by simp
  moreover have "\<not> plc_is_double oc \<and> \<not> plc_is_float oc" if "oc \<in> {PLC_OP_OTHER, PLC_OP_UNSUPPORTED}" for oc
    using that by (auto simp: plc_is_double_def plc_is_float_def plc_flag_defs)
  ultimately have "mnemonic_category m f \<notin> {PLC_OP_OTHER, PLC_OP_UNSUPPORTED}" by blast
  then show ?thesis using Some cat(3) by (simp add: plc_is_instrumented_def)
qed

text \<open>
  What the reference execution of a block needs at each instrumented instruction: the form of its
  operands, registers of full width, buffers and stack apart, all of them inside \<open>D\<close>, and memory
  operands outside \<open>D\<close>.
\<close>

definition fp_ok :: "'r env \<Rightarrow> cpu \<Rightarrow> client \<Rightarrow> (u64 \<Rightarrow> bool) \<Rightarrow> app_instr \<Rightarrow> 'r mstate \<Rightarrow> bool" where
  "fp_ok ev cpu c D i s \<longleftrightarrow>
     (case mnemonic_of i of
        None \<Rightarrow> True
      | Some m \<Rightarrow> fp_form cpu c m i \<and> state_ok ev cpu c s \<and> (\<forall>x. is_scratch ev cpu c s x \<longrightarrow> D x) \<and>
                  (\<forall>op \<in> set (ai_srcs i). clear_of D s (result_bytes m (ai_fp i)) op))"

fun block_ok :: "'r env \<Rightarrow> cpu \<Rightarrow> client \<Rightarrow> (u64 \<Rightarrow> bool) \<Rightarrow> app_instr list \<Rightarrow> 'r mstate \<Rightarrow> bool" where
  "block_ok ev cpu c D [] s \<longleftrightarrow> True"
| "block_ok ev cpu c D (i # is) s \<longleftrightarrow> fp_ok ev cpu c D i s \<and> block_ok ev cpu c D is (isa_instr ev cpu i s)"

text \<open>The application's other instructions do not look into \<open>D\<close>.\<close>

definition app_respects :: "'r env \<Rightarrow> cpu \<Rightarrow> (u64 \<Rightarrow> bool) \<Rightarrow> app_instr \<Rightarrow> bool" where
  "app_respects ev cpu D i \<longleftrightarrow>
     (\<forall>s t. agree cpu D s t \<longrightarrow> agree cpu D (ev_app ev i s) (ev_app ev i t))"

definition run_sim :: "'r env \<Rightarrow> cpu \<Rightarrow> client \<Rightarrow> (u64 \<Rightarrow> bool) \<Rightarrow> bool \<Rightarrow> 'r mstate \<Rightarrow> 'r mstate \<Rightarrow> bool" where
  "run_sim ev cpu c D b s t \<longleftrightarrow> (if b then \<exists>v. agree cpu D s v \<and> run_inv ev cpu c v t else agree cpu D s t)"

lemma instrument_sim:
  assumes m: "mnemonic_of i = Some m" and ok: "fp_ok ev cpu c D i s" "env_ok ev cpu" and sim: "run_sim ev cpu c D b s t"
  obtains code where "instrument_one cpu c b i (plc_get_operation_category (ai_fp i)) = Inr code"
    "run_sim ev cpu c D True (isa_instr ev cpu i s) (exec ev cpu c code t)"
    "agree cpu D (isa_instr ev cpu i s) (exec ev cpu c
       (insert_restore_simd_registers cpu c @ insert_restore_gpr_and_flags c) (exec ev cpu c code t))"
proof -
  have o: "fp_form cpu c m i" "state_ok ev cpu c s" "\<forall>x. is_scratch ev cpu c s x \<longrightarrow> D x"
    "\<forall>op \<in> set (ai_srcs i). clear_of D s (result_bytes m (ai_fp i)) op"
    using ok(1) m by (simp_all add: fp_ok_def)
  note wf = mnemonic_of_category(1) [OF m]
  obtain v where v: "agree cpu D s v" "if b then run_inv ev cpu c v t else t = v"
    using sim by (cases b) (auto simp: run_sim_def)
  note sc = agree_scratch [OF v(1)]
  have "state_ok ev cpu c v" using o(2) sc(2) by simp
  moreover have "\<forall>op \<in> set (ai_srcs i). clear_of (is_scratch ev cpu c v) v (result_bytes m (ai_fp i)) op"
  proof
    fix op assume op: "op \<in> set (ai_srcs i)"
    have "src_form op" using o(1) op by (auto simp: fp_form_def Let_def srcs_form_def list_all_iff)
    from agree_opnd(2) [OF v(1) this _ callee_of_form(6) [OF wf o(1)]] o(3,4) op sc(1)
    show "clear_of (is_scratch ev cpu c v) v (result_bytes m (ai_fp i)) op" by (auto simp: clear_of_def)
  qed
  ultimately obtain code where code: "instrument_one cpu c b i (plc_get_operation_category (ai_fp i)) = Inr code"
    "run_inv ev cpu c (isa_step ev cpu m i v) (exec ev cpu c code t)"
    by (rule instrument_step [OF m o(1) _ ok(2) _ v(2)])
  have isa: "isa_instr ev cpu i = isa_step ev cpu m i" by (simp add: isa_instr_def m fun_eq_iff)
  have ag: "agree cpu D (isa_instr ev cpu i s) (isa_step ev cpu m i v)"
    unfolding isa by (rule agree_isa_step [OF wf o(1) v(1) o(4)])
  have "is_scratch ev cpu c (isa_step ev cpu m i v) = is_scratch ev cpu c s"
    unfolding sc(1) [symmetric] isa_step_def Let_def case_prod_beta
    by (simp add: is_scratch_def scratch_ranges_def fun_eq_iff)
  with o(3) have "agree cpu D (isa_step ev cpu m i v) (exec ev cpu c
       (insert_restore_simd_registers cpu c @ insert_restore_gpr_and_flags c) (exec ev cpu c code t))"
    using code(2) by (intro agree_mono [OF restore_ok]) (simp_all add: run_inv_def)
  from code(1) _ agree_trans [OF ag this] show ?thesis
    by (rule that) (use ag code(2) in \<open>auto simp: run_sim_def\<close>)
qed

lemma app2app_loop_sim:
  assumes "block_ok ev cpu c D bb s" "env_ok ev cpu" "\<forall>i \<in> set bb. mnemonic_of i = None \<longrightarrow> app_respects ev cpu D i"
    "bb \<noteq> [] \<longrightarrow> mnemonic_of (last bb) = None" "b \<longrightarrow> bb \<noteq> [] \<and> mnemonic_of (hd bb) \<noteq> None"
    "run_sim ev cpu c D b s t"
  shows "\<exists>code. app2app_loop cpu c b bb = Inr code \<and>
    agree cpu D (fold (isa_instr ev cpu) bb s) (exec ev cpu c code t)"
  using assms
proof (induction bb arbitrary: b s t)
  case Nil
  then show ?case by (simp add: run_sim_def)
next
  case (Cons i bb)
  have ok: "fp_ok ev cpu c D i s" "block_ok ev cpu c D bb (isa_instr ev cpu i s)" using Cons.prems(1) by simp_all
  have IH: "\<exists>code. app2app_loop cpu c b' bb = Inr code \<and>
      agree cpu D (fold (isa_instr ev cpu) bb (isa_instr ev cpu i s)) (exec ev cpu c code t')"
    if "b' \<longrightarrow> bb \<noteq> [] \<and> mnemonic_of (hd bb) \<noteq> None" "run_sim ev cpu c D b' (isa_instr ev cpu i s) t'" for b' t'
    by (rule Cons.IH) (use ok(2) Cons.prems(2-4) that in \<open>auto split: if_splits\<close>)
  show ?case
  proof (cases "mnemonic_of i")
    case None
    then have b: "\<not> b" using Cons.prems(5) by auto
    have "agree cpu D (isa_instr ev cpu i s) (ev_app ev i t)"
      using Cons.prems(3,6) None b by (auto simp: run_sim_def isa_instr_def app_respects_def)
    then have "run_sim ev cpu c D False (isa_instr ev cpu i s) (ev_app ev i t)" by (simp add: run_sim_def)
    from IH [OF _ this] show ?thesis using None by (auto simp: instrumented_iff)
  next
    case (Some m)
    from instrument_sim [OF Some ok(1) Cons.prems(2,6)] obtain code where
      code: "instrument_one cpu c b i (plc_get_operation_category (ai_fp i)) = Inr code"
      and sim: "run_sim ev cpu c D True (isa_instr ev cpu i s) (exec ev cpu c code t)"
      and ag: "agree cpu D (isa_instr ev cpu i s) (exec ev cpu c
         (insert_restore_simd_registers cpu c @ insert_restore_gpr_and_flags c) (exec ev cpu c code t))" .
    obtain j bb' where bb: "bb = j # bb'" using Cons.prems(4) Some by (cases bb) auto
    show ?thesis
    proof (cases "mnemonic_of j = None")
      case True
      from ag have "run_sim ev cpu c D False (isa_instr ev cpu i s) (exec ev cpu c
          (insert_restore_simd_registers cpu c @ insert_restore_gpr_and_flags c) (exec ev cpu c code t))"
        by (simp add: run_sim_def)
      from IH [OF _ this] True code Some bb show ?thesis by (auto simp: instrumented_iff Let_def)
    next
      case False
      with IH [OF _ sim] code Some bb show ?thesis by (auto simp: instrumented_iff Let_def)
    qed
  qed
qed

end
