(* ===== verification/Plc_Block.thy ===== *)
theory Plc_Block
  imports Plc_Correct
begin

text \<open>
  The properties of the instrumentation of a basic block, \<open>app2app_bb_event\<close> of padloc.cpp, and a
  concrete machine on which their hypotheses hold.
\<close>

section \<open>A concrete machine\<close>

lemma apart_numerals:
  assumes "numeral a + n \<le> (numeral b :: nat) \<or> numeral b + k \<le> (numeral a :: nat)"
    "numeral a + n \<le> (2 ^ 64 :: nat)" "numeral b + k \<le> (2 ^ 64 :: nat)"
  shows "apart (numeral a) n (numeral b) k"
  using apart_offsets [OF assms, of 0] by simp

lemma apart_not_scratch:
  assumes "\<forall>(b, k) \<in> set (scratch_ranges ev cpu c s). apart a n b k" "in_range a n x"
  shows "\<not> is_scratch ev cpu c s x"
  using assms by (fastforce simp: is_scratch_def apart_def)

definition demo_cpu :: cpu where "demo_cpu = \<lparr>AVX_SUPPORTED = True, AVX_512_SUPPORTED = False\<rparr>"
definition demo_client :: client where
  "demo_client = \<lparr>tls_gpr = 0, tls_float = 1, tls_result = 2, need_sse_inverse = False\<rparr>"

text \<open>A backend that adds bit patterns and counts its calls; a call clears what it may change.\<close>

definition demo_env :: "nat env" where
  "demo_env =
     \<lparr>ev_backend = (\<lambda>k d args r. (sum_list args, Suc r)), ev_gpr = (\<lambda>s r. 0), ev_flags = (\<lambda>s. 0), ev_of = (\<lambda>s. False),
      ev_simd = (\<lambda>s i. replicate 32 0), ev_stack = (\<lambda>s x. 0), ev_depth = 64, ev_app = (\<lambda>i s. s)\<rparr>"

definition demo_state :: "nat mstate" where
  "demo_state =
     \<lparr>ms_gpr = (\<lambda>r. if r = DR_REG_RSP then 65536 else 32768), ms_flags = 2, ms_of = True,
      ms_simd = (\<lambda>i. replicate 32 (of_nat i)), ms_mem = (\<lambda>x. 1),
      ms_tls = (\<lambda>k. if k = 0 then 4096 else if k = 1 then 8192 else 12288), ms_spill = 0, ms_backend = 0\<rparr>"

text \<open>\<open>addpd xmm0, xmm1; vfmadd231sd xmm2, xmm3, [rax + 8]; nop\<close>\<close>

definition demo_addpd :: app_instr where
  "demo_addpd =
     \<lparr>ai_fp = \<lparr>fi_opcode = ''addpd'', fi_evex = False, fi_src_sizes = [16, 16]\<rparr>,
      ai_srcs = [OpReg 77, OpReg 78], ai_dsts = [OpReg 77], ai_any_sse = True\<rparr>"

definition demo_fma :: app_instr where
  "demo_fma =
     \<lparr>ai_fp = \<lparr>fi_opcode = ''vfmadd231sd'', fi_evex = False, fi_src_sizes = [8, 8, 8]\<rparr>,
      ai_srcs = [OpReg 80, OpBaseDisp DR_REG_NULL DR_REG_RAX DR_REG_NULL 0 8, OpReg 79], ai_dsts = [OpReg 79],
      ai_any_sse = False\<rparr>"

definition demo_nop :: app_instr where
  "demo_nop = \<lparr>ai_fp = \<lparr>fi_opcode = ''nop'', fi_evex = False, fi_src_sizes = []\<rparr>, ai_srcs = [], ai_dsts = [], ai_any_sse = False\<rparr>"

definition demo_scratch :: "u64 \<Rightarrow> bool" where
  "demo_scratch = is_scratch demo_env demo_cpu demo_client demo_state"

lemma demo_cpu_size: "vec_bytes demo_cpu = 32" "num_vecs demo_cpu = 16"
  by (simp_all add: demo_cpu_def vec_bytes_def num_vecs_def)

lemma demo_ranges:
  "scratch_ranges demo_env demo_cpu demo_client s =
     [(ms_tls s 0, 136), (ms_tls s 1, 512), (ms_tls s 2, 8), (ms_gpr s DR_REG_RSP - 32 - of_nat 64, 64)]"
  by (simp add: scratch_ranges_def demo_client_def demo_cpu_def demo_env_def NUM_GPR_SLOTS_def vec_bytes_def num_vecs_def)

lemma demo_state_ok: "state_ok demo_env demo_cpu demo_client demo_state"
  unfolding state_ok_def demo_ranges
  by (simp add: demo_state_def demo_env_def demo_cpu_def vec_bytes_def apart_numerals DR_REG_RSP_def)

lemma demo_env_ok: "env_ok demo_env demo_cpu"
  by (simp add: env_ok_def demo_env_def demo_cpu_def vec_bytes_def)

lemma demo_mnemonics:
  "mnemonic_of demo_addpd = Some \<lparr>mn_avx = False, mn_kind = FAdd, mn_order = NoOrder, mn_packed = True, mn_double = True\<rparr>"
  "mnemonic_of demo_fma = Some \<lparr>mn_avx = True, mn_kind = FMadd, mn_order = O231, mn_packed = False, mn_double = True\<rparr>"
  "mnemonic_of demo_nop = None"
  by code_simp+

lemma demo_scratch_simd: "is_scratch ev cpu c (s\<lparr>ms_simd := v, ms_backend := r\<rparr>) = is_scratch ev cpu c s"
  by (simp add: is_scratch_def scratch_ranges_def fun_eq_iff)

lemma demo_operand: "clear_of demo_scratch demo_state 8 (OpBaseDisp DR_REG_NULL DR_REG_RAX DR_REG_NULL 0 8)"
proof -
  have a: "mem_addr demo_state (OpBaseDisp DR_REG_NULL DR_REG_RAX DR_REG_NULL 0 8) = 32776"
    by (simp add: base_disp_addr_def gpr_val_def demo_state_def reg_defs)
  have "\<forall>(b, k) \<in> set (scratch_ranges demo_env demo_cpu demo_client demo_state). apart 32776 8 b k"
    by (simp add: demo_ranges demo_state_def apart_numerals DR_REG_RSP_def)
  then show ?thesis unfolding clear_of_def a demo_scratch_def using apart_not_scratch by blast
qed

lemma demo_regs: "vec_opnd 77" "vec_opnd 78" "vec_opnd 79" "vec_opnd 80"
  "simd_index 77 = 0" "simd_index 78 = 1" "simd_index 79 = 2" "simd_index 80 = 3"
  by (simp_all add: vec_opnd_def is_vector_def simd_index_def reg_is_strictly_xmm_def reg_is_strictly_ymm_def
      reg_is_strictly_zmm_def reg_defs)

lemma demo_forms:
  "fp_form demo_cpu demo_client
     \<lparr>mn_avx = False, mn_kind = FAdd, mn_order = NoOrder, mn_packed = True, mn_double = True\<rparr> demo_addpd"
  "fp_form demo_cpu demo_client
     \<lparr>mn_avx = True, mn_kind = FMadd, mn_order = O231, mn_packed = False, mn_double = True\<rparr> demo_fma"
  by (simp_all add: fp_form_def demo_addpd_def demo_fma_def demo_client_def kind_fused_def srcs_form_def is_mem_def
      demo_regs demo_cpu_def vec_bytes_def vector_length_def NUM_GPR_SLOTS_def reg_defs)

lemma demo_block_ok: "block_ok demo_env demo_cpu demo_client demo_scratch [demo_addpd, demo_fma, demo_nop] demo_state"
proof -
  let ?m1 = "\<lparr>mn_avx = False, mn_kind = FAdd, mn_order = NoOrder, mn_packed = True, mn_double = True\<rparr>"
  let ?s = "isa_step demo_env demo_cpu ?m1 demo_addpd demo_state"
  obtain v r where s: "?s = demo_state\<lparr>ms_simd := v, ms_backend := r\<rparr>"
    unfolding isa_step_def Let_def case_prod_beta by blast
  have "length (v i) = 32" for i
  proof -
    have "v = ms_simd ?s" by (simp add: s)
    then show ?thesis
      using length_lanes [of demo_env FAdd True _ 2 0]
      by (simp add: isa_step_def Let_def case_prod_beta isa_result_def demo_state_def result_bytes_def ftype_size_def)
  qed
  then have "state_ok demo_env demo_cpu demo_client ?s"
    using demo_state_ok unfolding s by (simp add: state_ok_def scratch_ranges_def demo_cpu_size)
  moreover have "is_scratch demo_env demo_cpu demo_client ?s = demo_scratch"
    by (simp add: s demo_scratch_simd demo_scratch_def)
  moreover have "clear_of demo_scratch ?s 8 (OpBaseDisp DR_REG_NULL DR_REG_RAX DR_REG_NULL 0 8)"
    using demo_operand by (simp add: clear_of_def s base_disp_addr_def gpr_val_def)
  ultimately have "fp_ok demo_env demo_cpu demo_client demo_scratch demo_fma ?s"
    using demo_forms(2)
    by (simp add: fp_ok_def demo_mnemonics(2)) (simp add: demo_fma_def clear_of_def result_bytes_def ftype_size_def)
  moreover have "fp_ok demo_env demo_cpu demo_client demo_scratch demo_addpd demo_state"
    using demo_forms(1) demo_state_ok
    by (simp add: fp_ok_def demo_mnemonics(1) demo_scratch_def) (simp add: demo_addpd_def clear_of_def)
  ultimately show ?thesis
    by (simp add: isa_instr_def demo_mnemonics) (simp add: fp_ok_def demo_mnemonics)
qed

lemma demo_emitted: "\<exists>code. app2app_bb_event demo_cpu demo_client True [demo_addpd, demo_fma, demo_nop] = Inr code"
  using app2app_loop_sim [OF demo_block_ok demo_env_ok, of False demo_state]
  by (auto simp: app_respects_def demo_env_def demo_mnemonics run_sim_def agree_refl app2app_bb_event_def)

section \<open>Correctness of the instrumented block\<close>



text \<open>C2. Saving and restoring is the identity for the application: the general-purpose registers, the
  \<open>lahf\<close> flags, the vector registers, the thread-local fields, the backend and all memory outside the
  buffers are as before.\<close>

theorem save_restore_roundtrip:
  assumes "state_ok ev cpu c s" "\<forall>i. length (ms_simd s i) = vec_bytes cpu"
  shows "agree cpu (is_scratch ev cpu c s) s
    (exec ev cpu c (insert_save_gpr_and_flags c @ insert_save_simd_registers cpu c @
       insert_restore_simd_registers cpu c @ insert_restore_gpr_and_flags c) s)"
proof -
  let ?t = "exec ev cpu c (insert_save_gpr_and_flags c @ insert_save_simd_registers cpu c) s"
  have sv: "saved ev cpu c s ?t" using save_ok [OF assms(1)] by blast
  have "ms_simd ?t = ms_simd s"
  proof -
    obtain g sp where e: "exec ev cpu c (insert_save_gpr_and_flags c) s =
      s\<lparr>ms_gpr := g, ms_spill := sp,
        ms_mem := slots (ms_tls s (tls_gpr c)) 8 (gpr_slots s) gpr_slot_list (ms_mem s)\<rparr>"
      by (rule exec_save_gpr)
    show ?thesis using assms(2) by (simp add: e exec_save_simd)
  qed
  with assms(2) have "\<forall>i. length (ms_simd ?t i) = vec_bytes cpu" by simp
  from restore_ok [OF sv this] show ?thesis by simp
qed

theorem save_restore_roundtrip_witness:
  "agree demo_cpu (is_scratch demo_env demo_cpu demo_client demo_state) demo_state
    (exec demo_env demo_cpu demo_client (insert_save_gpr_and_flags demo_client @
       insert_save_simd_registers demo_cpu demo_client @
       insert_restore_simd_registers demo_cpu demo_client @ insert_restore_gpr_and_flags demo_client) demo_state)"
  by (rule save_restore_roundtrip [OF demo_state_ok]) (simp add: demo_state_def demo_cpu_def vec_bytes_def)

section \<open>Shape of the emitted code\<close>

fun app_of :: "minstr \<Rightarrow> app_instr option" where
  "app_of (AppInstr i) = Some i"
| "app_of _ = None"

fun callee_of :: "minstr \<Rightarrow> callee option" where
  "callee_of (CallBackend ce) = Some ce"
| "callee_of _ = None"

definition plain :: "minstr list \<Rightarrow> bool" where
  "plain code \<longleftrightarrow> list_all (\<lambda>x. app_of x = None \<and> callee_of x = None) code"

lemma plain_filters:
  assumes "plain code"
  shows "List.map_filter app_of code = []" "List.map_filter callee_of code = []"
  using assms by (induction code) (simp_all add: plain_def List.map_filter_def)

lemma map_filter_append: "List.map_filter f (xs @ ys) = List.map_filter f xs @ List.map_filter f ys"
  by (simp add: List.map_filter_def)

lemma plain_append [simp]: "plain (xs @ ys) = (plain xs \<and> plain ys)"
  by (simp add: plain_def)

lemma plain_map [simp]: "plain (map f xs) = (\<forall>x \<in> set xs. app_of (f x) = None \<and> callee_of (f x) = None)"
  by (simp add: plain_def list_all_iff)

lemma plain_Cons [simp]: "plain (x # xs) = (app_of x = None \<and> callee_of x = None \<and> plain xs)" "plain []"
  by (simp_all add: plain_def)

lemma plain_lea_sources: "insert_lea_sources cpu i j regs l ks = Inr code \<Longrightarrow> plain code"
  by (induction ks arbitrary: code) (auto simp: bind_res_Inr_iff split: if_splits)

lemma plain_base_disp: "insert_set_operands_base_disp c op d t = Inr code \<Longrightarrow> plain code"
  by (cases op) (auto simp: insert_set_operands_base_disp_def)

lemma plain_mem_reference: "insert_set_operands_mem_reference cpu c i fused j regs = Inr code \<Longrightarrow> plain code"
  unfolding insert_set_operands_mem_reference_def Let_def
  by (auto simp: bind_res_Inr_iff insert_set_operands_addr_def split: if_splits dest!: plain_lea_sources plain_base_disp)

lemma plain_operands: "insert_set_operands cpu c i oc = Inr code \<Longrightarrow> plain code"
  unfolding insert_set_operands_def Let_def
  by (auto simp: bind_res_Inr_iff insert_set_operands_all_registers_def split: if_splits option.splits
      dest!: plain_mem_reference)

lemma plain_frames:
  "plain (insert_save_gpr_and_flags c)" "plain (insert_save_simd_registers cpu c)"
  "plain (insert_restore_gpr_and_flags c)" "plain (insert_restore_simd_registers cpu c)"
  "plain (insert_set_destination_tls cpu c d)" "plain (insert_restore_rsp c)"
  by (simp_all add: insert_save_gpr_and_flags_def insert_save_simd_registers_def insert_restore_gpr_and_flags_def
      insert_restore_simd_registers_def insert_set_destination_tls_def insert_restore_rsp_def case_prod_beta)

definition instr_callee :: "app_instr \<Rightarrow> callee option" where
  "instr_callee i = map_option (\<lambda>m. mnemonic_callee m (if mnemonic_sized m then get_size_flag (ai_fp i) else 0)) (mnemonic_of i)"

lemma instrument_one_shape:
  assumes "mnemonic_of i = Some m" "instrument_one cpu c b i (plc_get_operation_category (ai_fp i)) = Inr code"
  obtains pre ce where "code = pre @ [CallBackend ce]" "plain pre" "instr_callee i = Some ce"
proof -
  define f where "f = (if mnemonic_sized m then get_size_flag (ai_fp i) else 0)"
  note cat = mnemonic_of_category [OF assms(1), folded f_def]
  obtain d oc where "insert_set_operands cpu c i (mnemonic_category m f) = Inr oc"
    "code = ((if \<not> b then insert_save_gpr_and_flags c @ insert_save_simd_registers cpu c else []) @
        insert_set_destination_tls cpu c d @ oc @ (if \<not> b then insert_restore_rsp c @ [SubSp 32] else [])) @
        [CallBackend (mnemonic_callee m f)]"
    using assms(2) insert_call_mnemonic [OF cat(1,2)]
    unfolding instrument_one_def cat(3) by (auto simp: bind_res_Inr_iff)
  moreover from this(1) have "plain oc" by (rule plain_operands)
  ultimately show ?thesis
    using that plain_frames assms(1) by (force simp: instr_callee_def f_def)
qed

lemma app2app_loop_shape:
  "app2app_loop cpu c b bb = Inr code \<Longrightarrow>
     List.map_filter app_of code = filter (\<lambda>i. mnemonic_of i = None) bb \<and>
     List.map_filter callee_of code = List.map_filter instr_callee bb"
proof (induction bb arbitrary: b code)
  case Nil
  then show ?case by (simp add: List.map_filter_def)
next
  case (Cons i bb)
  show ?case
  proof (cases "mnemonic_of i")
    case None
    with Cons show ?thesis by (auto simp: instrumented_iff bind_res_Inr_iff instr_callee_def List.map_filter_def)
  next
    case (Some m)
    obtain j bb' where bb: "bb = j # bb'" using Cons.prems Some by (cases bb) (auto simp: instrumented_iff bind_res_Inr_iff)
    let ?b = "mnemonic_of j \<noteq> None"
    obtain c1 more where c1: "instrument_one cpu c b i (plc_get_operation_category (ai_fp i)) = Inr c1"
      and more: "app2app_loop cpu c ?b bb = Inr more"
      and code: "code = c1 @ (if \<not> ?b then insert_restore_simd_registers cpu c @ insert_restore_gpr_and_flags c else []) @ more"
      using Cons.prems Some bb by (auto simp: instrumented_iff bind_res_Inr_iff Let_def)
    obtain pre ce where p: "c1 = pre @ [CallBackend ce]" "plain pre" "instr_callee i = Some ce"
      by (rule instrument_one_shape [OF Some c1])
    show ?thesis
      using Cons.IH [OF more] plain_filters [OF p(2)] plain_filters [OF plain_frames(3)] plain_filters [OF plain_frames(4)] Some p(3)
      by (simp add: code p(1) map_filter_append List.map_filter_def)
  qed
qed

text \<open>C5. The pass neither loses, duplicates nor reorders anything: the application instructions left in
  the emitted code are the block's instructions that are not instrumented, in their order, and the
  calls are, in order, one per instrumented instruction, each to the function its mnemonic names.\<close>

theorem app2app_keeps_instructions:
  assumes "app2app_bb_event cpu c True bb = Inr code"
  shows "List.map_filter app_of code = filter (\<lambda>i. mnemonic_of i = None) bb \<and>
    List.map_filter callee_of code = List.map_filter instr_callee bb"
  using assms app2app_loop_shape [of cpu c False bb code] by (simp add: app2app_bb_event_def)

theorem app2app_keeps_instructions_witness:
  "\<exists>code. app2app_bb_event demo_cpu demo_client True [demo_addpd, demo_fma, demo_nop] = Inr code \<and>
     List.map_filter app_of code = [demo_nop] \<and>
     List.map_filter callee_of code =
       [\<lparr>ce_fn = FAdd, ce_double = True, ce_category = PLC_OP_SSE, ce_simd = PLC_OP_128\<rparr>,
        \<lparr>ce_fn = FMadd, ce_double = True, ce_category = PLC_OP_AVX, ce_simd = PLC_OP_SCALAR\<rparr>]"
proof -
  obtain code where c: "app2app_bb_event demo_cpu demo_client True [demo_addpd, demo_fma, demo_nop] = Inr code"
    using demo_emitted by blast
  have "get_size_flag (ai_fp demo_fma) = 0" by (simp add: demo_fma_def get_size_flag_def)
  with c app2app_keeps_instructions [OF c] show ?thesis
    by (simp add: demo_mnemonics List.map_filter_def instr_callee_def mnemonic_callee_def simd_flag_def
        mnemonic_sized_def kind_fused_def plc_flag_defs)
qed

text \<open>C36. A block that ends in an instrumented instruction makes the pass fail: after the last instruction
  the category of the next one is read before the test that there is a next one.\<close>

theorem block_ending_instrumented_faults:
  assumes "bb \<noteq> []" "mnemonic_of (last bb) \<noteq> None"
  shows "\<exists>e. app2app_bb_event cpu c True bb = Inl e"
proof -
  have "\<exists>e. app2app_loop cpu c b bb = Inl e" for b
    using assms
  proof (induction bb arbitrary: b)
    case (Cons i bb)
    show ?case
    proof (cases bb)
      case Nil
      with Cons.prems show ?thesis
        by (cases "instrument_one cpu c b i (plc_get_operation_category (ai_fp i))") (simp_all add: instrumented_iff Let_def)
    next
      case (Cons j bb')
      then have IH: "\<exists>e. app2app_loop cpu c b' bb = Inl e" for b' using Cons.IH Cons.prems by simp
      show ?thesis
      proof (cases "mnemonic_of i")
        case None
        with IH [of False] show ?thesis by (auto simp: instrumented_iff Let_def)
      next
        case (Some m)
        obtain e where "app2app_loop cpu c (mnemonic_of j \<noteq> None) bb = Inl e" using IH by blast
        with Some \<open>bb = j # bb'\<close> show ?thesis
          by (cases "instrument_one cpu c b i (plc_get_operation_category (ai_fp i))")
            (auto simp: instrumented_iff Let_def)
      qed
    qed
  qed simp
  then show ?thesis by (simp add: app2app_bb_event_def)
qed

theorem block_ending_instrumented_faults_witness:
  "\<exists>e. app2app_bb_event demo_cpu demo_client True [demo_nop, demo_addpd] = Inl e"
  by (rule block_ending_instrumented_faults) (simp_all add: demo_mnemonics)

section \<open>What the inserted code does not preserve\<close>

fun keeps_of :: "minstr \<Rightarrow> bool" where
  "keeps_of (SubSp k) = False"
| "keeps_of (CallBackend ce) = False"
| "keeps_of (AppInstr i) = False"
| "keeps_of _ = True"

lemma exec_keeps_of: "list_all keeps_of code \<Longrightarrow> ms_of (exec ev cpu c code s) = ms_of s"
proof (induction code arbitrary: s)
  case (Cons x code)
  have "ms_of (exec_instr ev cpu c x s) = ms_of s" using Cons.prems by (cases x) (simp_all add: set_gpr_def)
  with Cons show ?case by simp
qed simp

lemma restore_keeps_of:
  "list_all keeps_of (insert_restore_simd_registers cpu c)" "list_all keeps_of (insert_restore_gpr_and_flags c)"
  by (simp_all add: insert_restore_simd_registers_def insert_restore_gpr_and_flags_def case_prod_beta list_all_iff)

lemma isa_instr_keeps_of: "mnemonic_of i \<noteq> None \<Longrightarrow> ms_of (isa_instr ev cpu i s) = ms_of s"
  by (auto simp: isa_instr_def isa_step_def Let_def case_prod_beta)

text \<open>C37. The overflow flag is lost: \<open>lahf\<close> and \<open>sahf\<close> do not transfer it, so the instruction after an
  instrumented one sees the overflow flag the called function left, although the instrumented
  instruction itself leaves it as it was.\<close>

theorem overflow_flag_lost:
  assumes "mnemonic_of i \<noteq> None" "mnemonic_of j = None" "app2app_bb_event cpu c True [i, j] = Inr code"
    "\<forall>s. ev_of ev s = b"
  shows "\<exists>t. exec ev cpu c code s = ev_app ev j t \<and> ms_of t = b \<and> ms_of (isa_instr ev cpu i s) = ms_of s"
proof -
  obtain m where m: "mnemonic_of i = Some m" using assms(1) by blast
  obtain c1 where c1: "instrument_one cpu c False i (plc_get_operation_category (ai_fp i)) = Inr c1"
    and code: "code = c1 @ insert_restore_simd_registers cpu c @ insert_restore_gpr_and_flags c @ [AppInstr j]"
    using assms(1-3) by (auto simp: app2app_bb_event_def instrumented_iff bind_res_Inr_iff Let_def)
  obtain pre ce where p: "c1 = pre @ [CallBackend ce]" by (rule instrument_one_shape [OF m c1])
  let ?u = "exec_call ev c ce (exec ev cpu c pre s)"
  let ?t = "exec ev cpu c (insert_restore_gpr_and_flags c) (exec ev cpu c (insert_restore_simd_registers cpu c) ?u)"
  have "exec ev cpu c code s = ev_app ev j ?t" by (simp add: code p)
  moreover have "ms_of ?t = ms_of ?u" by (simp add: exec_keeps_of restore_keeps_of)
  moreover have "ms_of ?u = b" using assms(4) by (simp add: exec_call_def Let_def case_prod_beta)
  ultimately show ?thesis using isa_instr_keeps_of [OF assms(1)] by metis
qed

lemma demo_emitted_one: "\<exists>code. app2app_bb_event demo_cpu demo_client True [demo_addpd, demo_nop] = Inr code"
proof -
  have ok: "block_ok demo_env demo_cpu demo_client demo_scratch [demo_addpd, demo_nop] demo_state"
    using demo_block_ok by (simp add: fp_ok_def demo_mnemonics)
  show ?thesis
    using app2app_loop_sim [OF ok demo_env_ok, of False demo_state]
    by (auto simp: app_respects_def demo_env_def demo_mnemonics run_sim_def agree_refl app2app_bb_event_def)
qed

theorem overflow_flag_lost_witness:
  "\<exists>code t. app2app_bb_event demo_cpu demo_client True [demo_addpd, demo_nop] = Inr code \<and>
     exec demo_env demo_cpu demo_client code demo_state = ev_app demo_env demo_nop t \<and>
     ms_of t \<noteq> ms_of (isa_instr demo_env demo_cpu demo_addpd demo_state)"
proof -
  obtain code where c: "app2app_bb_event demo_cpu demo_client True [demo_addpd, demo_nop] = Inr code"
    using demo_emitted_one by blast
  obtain t where "exec demo_env demo_cpu demo_client code demo_state = ev_app demo_env demo_nop t" "\<not> ms_of t"
    "ms_of (isa_instr demo_env demo_cpu demo_addpd demo_state)"
    using overflow_flag_lost [OF _ _ c, of demo_env False demo_state]
    by (auto simp: demo_mnemonics demo_env_def) (auto simp: demo_state_def)
  with c show ?thesis by blast
qed

text \<open>C38. A scalar AVX operation leaves bytes 8 to 15 (4 to 15 in single precision) of the destination as
  they were, whatever its operands; the instruction set takes them from the first source.\<close>

theorem avx_scalar_keeps_destination:
  assumes "ce_category ce = PLC_OP_AVX" "ce_simd ce = PLC_OP_SCALAR"
  defines "z \<equiv> ftype_size (ce_double ce)"
  shows "load_bytes (tls + of_nat z) (16 - z) (fst (padloc_apply ev ce tls vects (m, r))) =
    load_bytes (tls + of_nat z) (16 - z) m"
proof -
  have ok: "callee_ok ce" using assms(1,2) by (simp add: callee_ok_def)
  have sz: "operation_size ce = z" "nb_elem ce = 1"
    using assms(2) by (simp_all add: operation_size_def nb_elem_def z_def plc_flag_defs)
  have z: "z \<le> 8" by (simp add: z_def ftype_size_def)
  obtain v r' where a: "apply_lane ev ce tls vects 0 (m, r) = (store_elem (ce_double ce) tls v m, r')"
    by (simp add: apply_lane_def Let_def case_prod_beta)
  have "fst (padloc_apply ev ce tls vects (m, r)) = clear_high ce tls (store_elem (ce_double ce) tls v m)"
    by (simp add: padloc_apply_def sz(2) a)
  then have "fst (padloc_apply ev ce tls vects (m, r)) =
      store_bytes (tls + of_nat 16) (replicate 16 0) (store_bytes tls (le_bytes z v) m)"
    using z assms(1) by (simp add: clear_high_eq [OF ok] sz(1) store_elem_def z_def [symmetric])
  then have "load_bytes (tls + of_nat z) (16 - z) (fst (padloc_apply ev ce tls vects (m, r))) =
      load_bytes (tls + of_nat z) (16 - z) (store_bytes (tls + of_nat 16) (replicate 16 0) (store_bytes tls (le_bytes z v) m))"
    by (rule arg_cong)
  also have "\<dots> = load_bytes (tls + of_nat z) (16 - z) (store_bytes tls (le_bytes z v) m)"
    by (rule load_store_apart, rule apart_offsets) (use z in auto)
  also have "\<dots> = load_bytes (tls + of_nat z) (16 - z) m"
  proof (rule load_store_apart)
    show "apart tls (length (le_bytes z v)) (tls + of_nat z) (16 - z)"
      using apart_offsets [of 0 z z "16 - z" tls] z by simp
  qed simp
  finally show ?thesis .
qed

theorem avx_scalar_keeps_destination_witness:
  "load_bytes (4096 + of_nat 8) 8 (fst (padloc_apply demo_env
     \<lparr>ce_fn = FAdd, ce_double = True, ce_category = PLC_OP_AVX, ce_simd = PLC_OP_SCALAR\<rparr> 4096 [8192, 12288] (\<lambda>x. ucast x, 0))) =
   load_bytes (4096 + of_nat 8) 8 (\<lambda>x. ucast x)"
  using avx_scalar_keeps_destination [of "\<lparr>ce_fn = FAdd, ce_double = True, ce_category = PLC_OP_AVX, ce_simd = PLC_OP_SCALAR\<rparr>"
      4096 demo_env "[8192, 12288]" "\<lambda>x. ucast x" 0]
  by (simp add: ftype_size_def)

end
