(* ===== verification/Plc_Symbols.thy ===== *)
theory Plc_Symbols
  imports Plc_Prelude
begin

text \<open>
  symbol_config.cpp: the lists of modules and symbols to instrument or to leave alone. The vector
  of module entries is filled by parsing a whitelist and a blacklist; when a module is loaded, its
  entry becomes a lookup entry with address ranges, and every basic block is looked up there. In
  the generating mode the vector collects the symbols that hold floating-point operations.
  The services of DynamoRIO and of its symbol library are the fields of the record \<open>sym_env\<close>.
\<close>

section \<open>Data\<close>

datatype padloc_symbol_mode =
    PLC_SYMBOL_NOLOOKUP
  | PLC_SYMBOL_GENERATE
  | PLC_SYMBOL_BL_ONLY
  | PLC_SYMBOL_WL_ONLY
  | PLC_SYMBOL_BL_WL
  | PLC_SYMBOL_HELP

text \<open>\<open>PLC_SYMBOL_DEFAULT\<close> has the value of \<open>PLC_SYMBOL_NOLOOKUP\<close>.\<close>

abbreviation PLC_SYMBOL_DEFAULT :: padloc_symbol_mode where
  "PLC_SYMBOL_DEFAULT \<equiv> PLC_SYMBOL_NOLOOKUP"

datatype plc_lookup_type = PLC_LOOKUP_MODULE | PLC_LOOKUP_SYMBOL

record module_entry =
  mod_name :: string
  all_symbols :: bool
  symbols :: "string list"

record addr_range =
  range_start :: app_pc
  range_end :: app_pc

definition range_contains :: "addr_range \<Rightarrow> app_pc \<Rightarrow> bool" where
  "range_contains r pc \<longleftrightarrow> pc \<ge> range_start r \<and> pc < range_end r"

record symbol_entry =
  se_name :: string
  se_range :: addr_range

record lookup_entry =
  le_name :: string
  le_range :: addr_range
  le_total :: bool
  le_symbols :: "symbol_entry list"
  le_contiguous :: bool
  le_segments :: "addr_range list"

definition lookup_entry_contains :: "lookup_entry \<Rightarrow> app_pc \<Rightarrow> plc_lookup_type \<Rightarrow> bool" where
  "lookup_entry_contains e pc lookup =
     (if lookup = PLC_LOOKUP_MODULE \<or> le_total e \<and> le_symbols e = []
      then if le_contiguous e then range_contains (le_range e) pc
           else list_ex (\<lambda>seg. range_contains seg pc) (le_segments e)
      else if \<not> range_contains (le_range e) pc then False
      else if list_ex (\<lambda>s. range_contains (se_range s) pc) (le_symbols e) then \<not> le_total e
      else le_total e)"

text \<open>\<open>module_data_t\<close>, with the preferred name.\<close>

record module_data =
  md_start :: app_pc
  md_end :: app_pc
  md_name :: string
  md_contiguous :: bool
  md_segments :: "(app_pc \<times> app_pc) list"

datatype drsym_error = DRSYM_SUCCESS | DRSYM_ERROR_LINE_NOT_AVAILABLE | DRSYM_ERROR

record drsym_info =
  info_name :: string
  start_offs :: app_pc
  end_offs :: app_pc

text \<open>
  The parameters: \<open>dr_lookup_module\<close>, \<open>dr_lookup_module_by_name\<close>, \<open>drsym_lookup_symbol\<close> (the offset of
  \<open>module!symbol\<close>), \<open>drsym_lookup_address\<close>, and the lines of the file with a name, if it opens.
\<close>

record sym_env =
  dr_lookup_module :: "app_pc \<Rightarrow> module_data option"
  dr_lookup_module_by_name :: "string \<Rightarrow> module_data option"
  drsym_lookup_symbol :: "module_data \<Rightarrow> string \<Rightarrow> app_pc option"
  drsym_lookup_address :: "module_data \<Rightarrow> app_pc \<Rightarrow> drsym_error \<times> drsym_info"
  file_lines :: "string \<Rightarrow> string list option"

record sym_state =
  st_mode :: padloc_symbol_mode
  modules_vector :: "module_entry list"
  lookup_vector :: "lookup_entry list"
  whitelist_parsed :: bool
  whitelist_filename :: string
  blacklist_filename :: string
  oldModule :: nat
  oldPos :: nat

section \<open>Searching a vector\<close>

text \<open>The index of the first equal element, or the size.\<close>

fun vec_idx_of :: "('a \<Rightarrow> 'a \<Rightarrow> bool) \<Rightarrow> 'a list \<Rightarrow> 'a \<Rightarrow> nat" where
  "vec_idx_of eq [] x = 0"
| "vec_idx_of eq (y # ys) x = (if eq x y then 0 else Suc (vec_idx_of eq ys x))"

definition same_module :: "module_entry \<Rightarrow> module_entry \<Rightarrow> bool" where
  "same_module e o' \<longleftrightarrow> mod_name o' = mod_name e"

section \<open>Parsing the lists\<close>

definition blank :: "char \<Rightarrow> bool" where
  "blank c \<longleftrightarrow> c \<in> set [CHR '' '', CHR 0x0A, CHR 0x0D, CHR 0x09, CHR 0x0C, CHR 0x0B]"

definition find_char :: "char \<Rightarrow> string \<Rightarrow> nat option" where
  "find_char c s = (if c \<in> set s then Some (length (takeWhile (\<lambda>x. x \<noteq> c) s)) else None)"

definition find_first_not_blank :: "string \<Rightarrow> nat option" where
  "find_first_not_blank s = (if list_all blank s then None else Some (length (takeWhile blank s)))"

definition find_last_not_blank :: "string \<Rightarrow> nat option" where
  "find_last_not_blank s =
     (if list_all blank s then None else Some (length s - 1 - length (takeWhile blank (rev s))))"

text \<open>Comment removal and the two trimmings; a line of blanks only is left as it is.\<close>

definition trim_line :: "string \<Rightarrow> string" where
  "trim_line line =
     (let line = (case find_char (CHR ''#'') line of Some pos \<Rightarrow> take pos line | None \<Rightarrow> line);
          line = (case find_first_not_blank line of Some pos \<Rightarrow> drop pos line | None \<Rightarrow> line)
      in case find_last_not_blank line of Some pos \<Rightarrow> take (pos + 1) line | None \<Rightarrow> line)"

definition parse_line ::
    "padloc_symbol_mode \<Rightarrow> bool \<Rightarrow> string \<Rightarrow> bool \<Rightarrow> module_entry list \<Rightarrow> module_entry list cres" where
  "parse_line mode wl_parsed line parsing_whitelist ms =
     (if \<not> (parsing_whitelist \<or> mode = PLC_SYMBOL_BL_ONLY \<or> wl_parsed) then Inl Assert else
      let line = trim_line line in
      if line = [] then Inr ms else
      let pos = find_char (CHR ''!'') line;
          whole = (pos = None);
          module = (case pos of None \<Rightarrow> line | Some p \<Rightarrow> take p line);
          symbol = (case pos of None \<Rightarrow> [] | Some p \<Rightarrow> drop (p + 1) line);
          entry = \<lparr>mod_name = module, all_symbols = whole, symbols = []\<rparr>;
          p = vec_idx_of same_module ms entry
      in if parsing_whitelist \<or> mode = PLC_SYMBOL_BL_ONLY
         then if p \<noteq> length ms
              then if whole then Inr (ms[p := (ms ! p)\<lparr>symbols := [], all_symbols := True\<rparr>])
                   else if \<not> all_symbols (ms ! p) \<and>
                           vec_idx_of (=) (symbols (ms ! p)) symbol = length (symbols (ms ! p))
                   then Inr (ms[p := (ms ! p)\<lparr>symbols := symbols (ms ! p) @ [symbol]\<rparr>])
                   else Inr ms
              else Inr (ms @ [if \<not> whole then entry\<lparr>symbols := [symbol]\<rparr> else entry])
         else if p \<noteq> length ms
              then if whole then Inr (take p ms @ drop (p + 1) ms)
                   else if all_symbols (ms ! p)
                   then Inr (ms[p := (ms ! p)\<lparr>symbols := symbols (ms ! p) @ [symbol]\<rparr>])
                   else let sp = vec_idx_of (=) (symbols (ms ! p)) symbol
                        in if sp \<noteq> length (symbols (ms ! p))
                           then Inr (ms[p := (ms ! p)\<lparr>symbols := take sp (symbols (ms ! p)) @ drop (sp + 1) (symbols (ms ! p))\<rparr>])
                           else Inr ms
              else Inr ms)"

fun parse_lines ::
    "padloc_symbol_mode \<Rightarrow> bool \<Rightarrow> string list \<Rightarrow> bool \<Rightarrow> module_entry list \<Rightarrow> module_entry list cres" where
  "parse_lines mode wl_parsed [] parsing_whitelist ms = Inr ms"
| "parse_lines mode wl_parsed (l # ls) parsing_whitelist ms =
     bind_res (parse_line mode wl_parsed l parsing_whitelist ms) (parse_lines mode wl_parsed ls parsing_whitelist)"

text \<open>The entry with its symbols possibly cleared, and whether it is removed.\<close>

definition need_cleanup_module :: "padloc_symbol_mode \<Rightarrow> module_entry \<Rightarrow> module_entry \<times> bool" where
  "need_cleanup_module mode entry =
     (if all_symbols entry \<and> mode \<noteq> PLC_SYMBOL_BL_WL then (entry\<lparr>symbols := []\<rparr>, False)
      else if \<not> all_symbols entry \<and> symbols entry = [] then (entry, True)
      else (entry, False))"

definition cleanup_modules :: "padloc_symbol_mode \<Rightarrow> module_entry list \<Rightarrow> module_entry list" where
  "cleanup_modules mode ms = map fst (filter (\<lambda>p. \<not> snd p) (map (need_cleanup_module mode) ms))"

definition generate_blacklist_from_file :: "string list option \<Rightarrow> sym_state \<Rightarrow> sym_state cres" where
  "generate_blacklist_from_file blacklist st =
     (case blacklist of
        None \<Rightarrow> Inl Assert
      | Some ls \<Rightarrow>
          bind_res (parse_lines (st_mode st) (whitelist_parsed st) ls False (modules_vector st)) (\<lambda>ms.
          Inr (st\<lparr>modules_vector := cleanup_modules (st_mode st) ms\<rparr>)))"

definition generate_whitelist_from_files ::
    "string list option \<Rightarrow> string list option \<Rightarrow> sym_state \<Rightarrow> sym_state cres" where
  "generate_whitelist_from_files whitelist blacklist st =
     bind_res
       (case whitelist of
          None \<Rightarrow> Inr st
        | Some wls \<Rightarrow>
            bind_res (parse_lines (st_mode st) (whitelist_parsed st) wls True (modules_vector st)) (\<lambda>ms.
            case blacklist of
              None \<Rightarrow> Inr (st\<lparr>modules_vector := ms, whitelist_parsed := True\<rparr>)
            | Some bls \<Rightarrow>
                bind_res (parse_lines (st_mode st) True bls False ms) (\<lambda>ms.
                Inr (st\<lparr>modules_vector := ms, whitelist_parsed := True\<rparr>))))
       (\<lambda>st. Inr (st\<lparr>modules_vector := cleanup_modules (st_mode st) (modules_vector st)\<rparr>))"

definition generate_whitelist_from_file :: "string list option \<Rightarrow> sym_state \<Rightarrow> sym_state cres" where
  "generate_whitelist_from_file whitelist st = generate_whitelist_from_files whitelist None st"

section \<open>Looking up addresses\<close>

definition lookup_find :: "lookup_entry list \<Rightarrow> app_pc \<Rightarrow> plc_lookup_type \<Rightarrow> lookup_entry option" where
  "lookup_find es pc lookup_type = find (\<lambda>e. lookup_entry_contains e pc lookup_type) es"

text \<open>The ranges of the symbols the symbol library finds, in the order of the entry.\<close>

fun load_symbols :: "sym_env \<Rightarrow> module_data \<Rightarrow> string list \<Rightarrow> symbol_entry list" where
  "load_symbols env md [] = []"
| "load_symbols env md (s # ss) =
     (case drsym_lookup_symbol env md (md_name md @ ''!'' @ s) of
        Some modoff \<Rightarrow>
          (case drsym_lookup_address env md modoff of (err, info) \<Rightarrow>
             if err = DRSYM_SUCCESS \<or> err = DRSYM_ERROR_LINE_NOT_AVAILABLE
             then \<lparr>se_name = s, se_range = \<lparr>range_start = md_start md + start_offs info, range_end = md_start md + end_offs info\<rparr>\<rparr>
                  # load_symbols env md ss
             else load_symbols env md ss)
      | None \<Rightarrow> load_symbols env md ss)"

definition load_entry :: "sym_env \<Rightarrow> padloc_symbol_mode \<Rightarrow> module_data \<Rightarrow> module_entry \<Rightarrow> lookup_entry" where
  "load_entry env mode md mentry =
     \<lparr>le_name = md_name md, le_range = \<lparr>range_start = md_start md, range_end = md_end md\<rparr>,
      le_total = all_symbols mentry,
      le_symbols = (if \<not> all_symbols mentry \<or> mode = PLC_SYMBOL_BL_WL then load_symbols env md (symbols mentry) else []),
      le_contiguous = md_contiguous md,
      le_segments = (if md_contiguous md then [] else map (\<lambda>(a, b). \<lparr>range_start = a, range_end = b\<rparr>) (md_segments md))\<rparr>"

definition lookup_or_load_module ::
    "sym_env \<Rightarrow> padloc_symbol_mode \<Rightarrow> module_entry list \<Rightarrow> module_data \<Rightarrow> lookup_entry list \<Rightarrow> lookup_entry list" where
  "lookup_or_load_module env mode ms md lookup =
     (if lookup_find lookup (md_start md) PLC_LOOKUP_MODULE \<noteq> None then lookup else
      let pos = vec_idx_of same_module ms \<lparr>mod_name = md_name md, all_symbols = False, symbols = []\<rparr>
      in if pos \<noteq> length ms then lookup @ [load_entry env mode md (ms ! pos)] else lookup)"

text \<open>
  \<open>std::remove_if\<close> visits the entries in order; the kept ones are in front of the entry it looks at.
\<close>

fun load_lookup_loop ::
    "sym_env \<Rightarrow> padloc_symbol_mode \<Rightarrow> module_entry list \<Rightarrow> module_entry list \<Rightarrow> lookup_entry list \<Rightarrow>
       module_entry list \<times> lookup_entry list" where
  "load_lookup_loop env mode kept [] lookup = (kept, lookup)"
| "load_lookup_loop env mode kept (m # ms) lookup =
     (case dr_lookup_module_by_name env (mod_name m) of
        Some md \<Rightarrow> load_lookup_loop env mode kept ms (lookup_or_load_module env mode (kept @ m # ms) md lookup)
      | None \<Rightarrow> load_lookup_loop env mode (kept @ [m]) ms lookup)"

definition load_lookup_from_modules_vector :: "sym_env \<Rightarrow> sym_state \<Rightarrow> sym_state" where
  "load_lookup_from_modules_vector env st =
     (let (ms, lookup) = load_lookup_loop env (st_mode st) [] (modules_vector st) (lookup_vector st)
      in st\<lparr>modules_vector := ms, lookup_vector := lookup\<rparr>)"

definition should_instrument_module :: "sym_env \<Rightarrow> module_data \<Rightarrow> sym_state \<Rightarrow> bool \<times> sym_state" where
  "should_instrument_module env md st =
     (let lookup = lookup_or_load_module env (st_mode st) (modules_vector st) md (lookup_vector st);
          st = st\<lparr>lookup_vector := lookup\<rparr>;
          mode = st_mode st
      in case lookup_find lookup (md_start md) PLC_LOOKUP_MODULE of
           Some e \<Rightarrow> (mode = PLC_SYMBOL_BL_ONLY \<and> \<not> le_total e \<or> mode = PLC_SYMBOL_WL_ONLY \<or> mode = PLC_SYMBOL_BL_WL, st)
         | None \<Rightarrow> (mode = PLC_SYMBOL_BL_ONLY \<or> mode = PLC_SYMBOL_NOLOOKUP, st))"

text \<open>The argument: no list, a list without application instruction, or the address of its first one.\<close>

definition needs_to_instrument :: "sym_state \<Rightarrow> app_pc option option \<Rightarrow> bool" where
  "needs_to_instrument st ilist =
     (case ilist of
        None \<Rightarrow> False
      | Some first \<Rightarrow>
          if st_mode st = PLC_SYMBOL_NOLOOKUP then True
          else if st_mode st = PLC_SYMBOL_GENERATE \<or> st_mode st = PLC_SYMBOL_HELP then False
          else (case first of
                  Some pc \<Rightarrow>
                    if pc \<noteq> 0
                    then (lookup_find (lookup_vector st) pc PLC_LOOKUP_SYMBOL \<noteq> None) \<noteq> (st_mode st = PLC_SYMBOL_BL_ONLY)
                    else st_mode st = PLC_SYMBOL_NOLOOKUP \<or> st_mode st = PLC_SYMBOL_BL_ONLY
                | None \<Rightarrow> st_mode st = PLC_SYMBOL_NOLOOKUP \<or> st_mode st = PLC_SYMBOL_BL_ONLY))"

definition symbol_client_mode_manager :: "sym_env \<Rightarrow> sym_state \<Rightarrow> sym_state cres" where
  "symbol_client_mode_manager env st =
     (case st_mode st of
        PLC_SYMBOL_BL_ONLY \<Rightarrow>
          (case file_lines env (blacklist_filename st) of
             None \<Rightarrow> Inl Assert
           | Some bl \<Rightarrow> bind_res (generate_blacklist_from_file (Some bl) st) (\<lambda>st. Inr (load_lookup_from_modules_vector env st)))
      | PLC_SYMBOL_WL_ONLY \<Rightarrow>
          (case file_lines env (whitelist_filename st) of
             None \<Rightarrow> Inl Assert
           | Some wl \<Rightarrow> bind_res (generate_whitelist_from_file (Some wl) st) (\<lambda>st. Inr (load_lookup_from_modules_vector env st)))
      | PLC_SYMBOL_BL_WL \<Rightarrow>
          (case file_lines env (whitelist_filename st) of
             None \<Rightarrow> Inl Assert
           | Some wl \<Rightarrow>
               (case file_lines env (blacklist_filename st) of
                  None \<Rightarrow> Inl Assert
                | Some bl \<Rightarrow> bind_res (generate_whitelist_from_files (Some wl) (Some bl) st) (\<lambda>st.
                             Inr (load_lookup_from_modules_vector env st))))
      | _ \<Rightarrow> Inr st)"

end
