(* ===== verification/Plc_Lists.thy ===== *)
theory Plc_Lists
  imports Plc_Symbols
begin

text \<open>
  What the parsed lists mean. A line is a directive: a whole module, or one symbol of a module.
  The vector of module entries built from a whitelist and a blacklist selects exactly the symbols
  that are whitelisted and not blacklisted, whatever the order and the repetitions of the lines.
\<close>

section \<open>Directives\<close>

definition directive :: "string \<Rightarrow> (string \<times> string option) option" where
  "directive line =
     (let l = trim_line line in
      if l = [] then None
      else case find_char (CHR ''!'') l of
             None \<Rightarrow> Some (l, None)
           | Some p \<Rightarrow> Some (take p l, Some (drop (p + 1) l)))"

definition names :: "(string \<times> string option) option \<Rightarrow> string \<Rightarrow> string \<Rightarrow> bool" where
  "names d M f \<longleftrightarrow> d = Some (M, None) \<or> d = Some (M, Some f)"

definition listed :: "string list \<Rightarrow> string \<Rightarrow> string \<Rightarrow> bool" where
  "listed ls M f \<longleftrightarrow> (\<exists>l \<in> set ls. names (directive l) M f)"

lemma listed_simps [simp]: "\<not> listed [] M f" "listed (l # ls) M f = (names (directive l) M f \<or> listed ls M f)"
  by (simp_all add: listed_def)

section \<open>Vectors of entries\<close>

lemma vec_idx_of_le: "vec_idx_of eq xs x \<le> length xs"
  by (induction xs) auto

lemma vec_idx_of_less: "vec_idx_of eq xs x < length xs \<longleftrightarrow> (\<exists>y \<in> set xs. eq x y)"
  by (induction xs) auto

lemma vec_idx_of_nth: "vec_idx_of eq xs x < length xs \<Longrightarrow> eq x (xs ! vec_idx_of eq xs x)"
  by (induction xs) auto

lemma vec_idx_of_neq: "vec_idx_of eq xs x \<noteq> length xs \<longleftrightarrow> vec_idx_of eq xs x < length xs"
  using vec_idx_of_le [of eq xs x] by linarith

definition entry_of :: "module_entry list \<Rightarrow> string \<Rightarrow> module_entry option" where
  "entry_of ms M = find (\<lambda>e. mod_name e = M) ms"

definition selects :: "module_entry list \<Rightarrow> string \<Rightarrow> string \<Rightarrow> bool" where
  "selects ms M f =
     (case entry_of ms M of
        None \<Rightarrow> False
      | Some e \<Rightarrow> if all_symbols e then f \<notin> set (symbols e) else f \<in> set (symbols e))"

definition modules_wf :: "module_entry list \<Rightarrow> bool" where
  "modules_wf ms \<longleftrightarrow> distinct (map mod_name ms) \<and> (\<forall>e \<in> set ms. \<not> all_symbols e \<longrightarrow> distinct (symbols e))"

text \<open>While only one list has been read, a whole module has no exceptions.\<close>

definition plain_modules :: "module_entry list \<Rightarrow> bool" where
  "plain_modules ms \<longleftrightarrow> (\<forall>e \<in> set ms. all_symbols e \<longrightarrow> symbols e = [])"

lemma entry_of_None: "entry_of ms M = None \<longleftrightarrow> M \<notin> mod_name ` set ms"
  by (auto simp: entry_of_def find_None_iff)

lemma entry_of_nth:
  assumes "distinct (map mod_name ms)" "p < length ms"
  shows "entry_of ms (mod_name (ms ! p)) = Some (ms ! p)"
  using assms
proof (induction ms arbitrary: p)
  case (Cons e ms)
  then show ?case by (cases p) (auto simp: entry_of_def)
qed simp

lemma entry_of_update:
  assumes "distinct (map mod_name ms)" "p < length ms" "mod_name e = mod_name (ms ! p)"
  shows "entry_of (ms[p := e]) M = (if M = mod_name e then Some e else entry_of ms M)"
  using assms
proof (induction ms arbitrary: p)
  case (Cons x ms)
  then show ?case by (cases p) (auto simp: entry_of_def)
qed simp

lemma entry_of_snoc: "entry_of (ms @ [e]) M = (case entry_of ms M of Some x \<Rightarrow> Some x | None \<Rightarrow> if mod_name e = M then Some e else None)"
  by (induction ms) (auto simp: entry_of_def)

lemma entry_of_remove:
  assumes "distinct (map mod_name ms)" "p < length ms"
  shows "entry_of (take p ms @ drop (Suc p) ms) M = (if M = mod_name (ms ! p) then None else entry_of ms M)"
  using assms
proof (induction ms arbitrary: p)
  case (Cons x ms)
  show ?case
  proof (cases p)
    case 0
    with Cons.prems show ?thesis using entry_of_None [of ms "mod_name x"] by (auto simp: entry_of_def)
  next
    case (Suc q)
    with Cons show ?thesis by (auto simp: entry_of_def)
  qed
qed simp

lemma map_name_update:
  "p < length ms \<Longrightarrow> mod_name e = mod_name (ms ! p) \<Longrightarrow> map mod_name (ms[p := e]) = map mod_name ms"
  by (simp add: map_update list_update_same_conv)

lemma modules_wf_update:
  assumes "modules_wf ms" "p < length ms" "mod_name e = mod_name (ms ! p)" "\<not> all_symbols e \<longrightarrow> distinct (symbols e)"
  shows "modules_wf (ms[p := e])"
  using assms set_update_subset_insert [of ms p e] by (auto simp: modules_wf_def map_name_update)

lemma modules_wf_snoc:
  "modules_wf ms \<Longrightarrow> mod_name e \<notin> mod_name ` set ms \<Longrightarrow> \<not> all_symbols e \<longrightarrow> distinct (symbols e) \<Longrightarrow> modules_wf (ms @ [e])"
  by (auto simp: modules_wf_def)

lemma modules_wf_remove:
  assumes "modules_wf ms" "p \<le> q"
  shows "modules_wf (take p ms @ drop q ms)"
proof -
  have "map mod_name (take p ms @ drop q ms) = take p (map mod_name ms) @ drop q (map mod_name ms)"
    by (simp add: take_map drop_map)
  moreover have "distinct \<dots>"
    using assms set_take_disj_set_drop_if_distinct [of "map mod_name ms" p q] by (auto simp: modules_wf_def)
  ultimately show ?thesis using assms by (auto simp: modules_wf_def dest: in_set_takeD in_set_dropD)
qed

section \<open>One line\<close>

lemma parse_line_directive:
  assumes "parsing_whitelist \<or> mode = PLC_SYMBOL_BL_ONLY \<or> wl_parsed"
  shows "parse_line mode wl_parsed line parsing_whitelist ms =
    (case directive line of
       None \<Rightarrow> Inr ms
     | Some (M, sy) \<Rightarrow>
         let p = vec_idx_of same_module ms \<lparr>mod_name = M, all_symbols = (sy = None), symbols = []\<rparr>; e = ms ! p in
         if parsing_whitelist \<or> mode = PLC_SYMBOL_BL_ONLY
         then if p < length ms
              then case sy of
                     None \<Rightarrow> Inr (ms[p := e\<lparr>symbols := [], all_symbols := True\<rparr>])
                   | Some f \<Rightarrow> if \<not> all_symbols e \<and> f \<notin> set (symbols e)
                               then Inr (ms[p := e\<lparr>symbols := symbols e @ [f]\<rparr>]) else Inr ms
              else Inr (ms @ [\<lparr>mod_name = M, all_symbols = (sy = None), symbols = (case sy of None \<Rightarrow> [] | Some f \<Rightarrow> [f])\<rparr>])
         else if p < length ms
              then case sy of
                     None \<Rightarrow> Inr (take p ms @ drop (Suc p) ms)
                   | Some f \<Rightarrow>
                       if all_symbols e then Inr (ms[p := e\<lparr>symbols := symbols e @ [f]\<rparr>])
                       else if f \<in> set (symbols e)
                       then Inr (ms[p := e\<lparr>symbols := take (vec_idx_of (=) (symbols e) f) (symbols e) @
                              drop (Suc (vec_idx_of (=) (symbols e) f)) (symbols e)\<rparr>])
                       else Inr ms
              else Inr ms)"
proof -
  have v: "vec_idx_of (=) xs (f :: string) = length xs \<longleftrightarrow> f \<notin> set xs" for xs f
    using vec_idx_of_less [of "(=)" xs f] vec_idx_of_le [of "(=)" xs f] by auto
  show ?thesis
    using assms unfolding parse_line_def directive_def Let_def vec_idx_of_neq v
    by (auto split: option.splits)
qed

text \<open>The entry a directive finds.\<close>

lemma module_idx:
  assumes "modules_wf ms" "p = vec_idx_of same_module ms \<lparr>mod_name = M, all_symbols = a, symbols = ss\<rparr>"
  shows "p < length ms \<longleftrightarrow> entry_of ms M \<noteq> None"
    "p < length ms \<Longrightarrow> mod_name (ms ! p) = M" "p < length ms \<Longrightarrow> entry_of ms M = Some (ms ! p)"
proof -
  show *: "p < length ms \<Longrightarrow> mod_name (ms ! p) = M"
    using vec_idx_of_nth [of same_module ms] by (simp add: assms(2) same_module_def)
  show "p < length ms \<longleftrightarrow> entry_of ms M \<noteq> None"
    unfolding entry_of_None assms(2) vec_idx_of_less by (auto simp: same_module_def)
  show "p < length ms \<Longrightarrow> entry_of ms M = Some (ms ! p)"
    using entry_of_nth [of ms p] assms(1) * by (simp add: modules_wf_def)
qed

lemma parse_add:
  assumes mode: "wl \<or> mode = PLC_SYMBOL_BL_ONLY" and wf: "modules_wf ms" "plain_modules ms"
  shows "\<exists>ms'. parse_line mode wlp l wl ms = Inr ms' \<and> modules_wf ms' \<and> plain_modules ms' \<and>
    (\<forall>N f. selects ms' N f = (selects ms N f \<or> names (directive l) N f))"
proof (cases "directive l")
  case None
  then show ?thesis using mode wf by (subst parse_line_directive) (auto simp: names_def)
next
  case (Some d)
  obtain M sy where d: "d = (M, sy)" by (cases d)
  define p where "p = vec_idx_of same_module ms \<lparr>mod_name = M, all_symbols = (sy = None), symbols = []\<rparr>"
  note P = module_idx [OF wf(1) p_def]
  have eq: "parse_line mode wlp l wl ms =
      (if p < length ms
       then case sy of
              None \<Rightarrow> Inr (ms[p := (ms ! p)\<lparr>symbols := [], all_symbols := True\<rparr>])
            | Some f \<Rightarrow> if \<not> all_symbols (ms ! p) \<and> f \<notin> set (symbols (ms ! p))
                        then Inr (ms[p := (ms ! p)\<lparr>symbols := symbols (ms ! p) @ [f]\<rparr>]) else Inr ms
       else Inr (ms @ [\<lparr>mod_name = M, all_symbols = (sy = None), symbols = (case sy of None \<Rightarrow> [] | Some f \<Rightarrow> [f])\<rparr>]))"
    using mode Some d unfolding p_def by (subst parse_line_directive) (auto simp: Let_def)
  have D: "distinct (map mod_name ms)" using wf(1) by (simp add: modules_wf_def)
  show ?thesis
  proof (cases "p < length ms")
    case False
    let ?e = "\<lparr>mod_name = M, all_symbols = (sy = None), symbols = (case sy of None \<Rightarrow> [] | Some f \<Rightarrow> [f])\<rparr>"
    have n: "entry_of ms M = None" using P(1) False by simp
    then have "modules_wf (ms @ [?e])" using wf(1) entry_of_None by (intro modules_wf_snoc) (auto split: option.splits)
    moreover have "plain_modules (ms @ [?e])" using wf(2) by (auto simp: plain_modules_def)
    moreover have "selects (ms @ [?e]) N f = (selects ms N f \<or> names (directive l) N f)" for N f
      using n by (auto simp: selects_def entry_of_snoc names_def Some d split: option.splits)
    ultimately show ?thesis using False eq by auto
  next
    case True
    let ?e = "ms ! p"
    have M: "mod_name ?e = M" "entry_of ms M = Some ?e" using P True by simp_all
    have pl: "all_symbols ?e \<Longrightarrow> symbols ?e = []" using wf(2) True by (simp add: plain_modules_def)
    have step: "modules_wf (ms[p := e]) \<and> plain_modules (ms[p := e]) \<and>
        (\<forall>N f. selects (ms[p := e]) N f = (selects ms N f \<or> names (directive l) N f))"
      if e: "mod_name e = M" "\<not> all_symbols e \<longrightarrow> distinct (symbols e)" "all_symbols e \<longrightarrow> symbols e = []"
        "\<And>f. (if all_symbols e then f \<notin> set (symbols e) else f \<in> set (symbols e)) =
          (selects ms M f \<or> names (directive l) M f)" for e
      using e D True M wf modules_wf_update [OF wf(1) True] set_update_subset_insert [of ms p e]
      by (auto simp: selects_def entry_of_update plain_modules_def names_def Some d)
    show ?thesis
    proof (cases sy)
      case None
      show ?thesis unfolding eq using True None
        by simp (rule step, auto simp: M selects_def names_def Some d)
    next
      case sf: (Some f)
      show ?thesis
      proof (cases "\<not> all_symbols ?e \<and> f \<notin> set (symbols ?e)")
        case True': True
        have "distinct (symbols ?e)" using wf(1) True True' by (simp add: modules_wf_def)
        then show ?thesis unfolding eq using True True' sf
          by simp (rule step, auto simp: M selects_def names_def Some d)
      next
        case False
        then have "selects ms M f" using M(2) pl by (auto simp: selects_def)
        then show ?thesis unfolding eq using True False sf wf by (auto simp: names_def Some d)
      qed
    qed
  qed
qed

lemma remove_idx:
  assumes "distinct xs" "f \<in> set xs"
  shows "set (take (vec_idx_of (=) xs f) xs @ drop (Suc (vec_idx_of (=) xs f)) xs) = set xs - {f}"
    "distinct (take (vec_idx_of (=) xs f) xs @ drop (Suc (vec_idx_of (=) xs f)) xs)"
proof -
  have "take (vec_idx_of (=) xs f) xs @ drop (Suc (vec_idx_of (=) xs f)) xs = remove1 f xs"
    using assms(2) by (induction xs) auto
  then show "set (take (vec_idx_of (=) xs f) xs @ drop (Suc (vec_idx_of (=) xs f)) xs) = set xs - {f}"
    "distinct (take (vec_idx_of (=) xs f) xs @ drop (Suc (vec_idx_of (=) xs f)) xs)"
    using assms(1) by (simp_all add: set_remove1_eq distinct_remove1)
qed

lemma parse_del:
  assumes mode: "mode = PLC_SYMBOL_BL_WL" and wf: "modules_wf ms"
  shows "\<exists>ms'. parse_line mode True l False ms = Inr ms' \<and> modules_wf ms' \<and>
    (\<forall>N f. selects ms' N f = (selects ms N f \<and> \<not> names (directive l) N f))"
proof (cases "directive l")
  case None
  then show ?thesis using wf by (subst parse_line_directive) (auto simp: names_def)
next
  case (Some d)
  obtain M sy where d: "d = (M, sy)" by (cases d)
  define p where "p = vec_idx_of same_module ms \<lparr>mod_name = M, all_symbols = (sy = None), symbols = []\<rparr>"
  note P = module_idx [OF wf p_def]
  let ?e = "ms ! p"
  have eq: "parse_line mode True l False ms =
      (if p < length ms
       then case sy of
              None \<Rightarrow> Inr (take p ms @ drop (Suc p) ms)
            | Some f \<Rightarrow>
                if all_symbols ?e then Inr (ms[p := ?e\<lparr>symbols := symbols ?e @ [f]\<rparr>])
                else if f \<in> set (symbols ?e)
                then Inr (ms[p := ?e\<lparr>symbols := take (vec_idx_of (=) (symbols ?e) f) (symbols ?e) @
                       drop (Suc (vec_idx_of (=) (symbols ?e) f)) (symbols ?e)\<rparr>])
                else Inr ms
       else Inr ms)"
    using mode Some d unfolding p_def by (subst parse_line_directive) (simp_all add: Let_def)
  have D: "distinct (map mod_name ms)" using wf by (simp add: modules_wf_def)
  show ?thesis
  proof (cases "p < length ms")
    case False
    then have "\<not> selects ms M f" for f using P(1) by (simp add: selects_def)
    then show ?thesis using False eq wf by (auto simp: names_def Some d)
  next
    case True
    have M: "mod_name ?e = M" "entry_of ms M = Some ?e" using P True by simp_all
    have step: "modules_wf (ms[p := e]) \<and>
        (\<forall>N f. selects (ms[p := e]) N f = (selects ms N f \<and> \<not> names (directive l) N f))"
      if e: "mod_name e = M" "\<not> all_symbols e \<longrightarrow> distinct (symbols e)"
        "\<And>f. (if all_symbols e then f \<notin> set (symbols e) else f \<in> set (symbols e)) =
          (selects ms M f \<and> \<not> names (directive l) M f)" for e
      using e D True M modules_wf_update [OF wf True]
      by (auto simp: selects_def entry_of_update names_def Some d)
    show ?thesis
    proof (cases sy)
      case None
      show ?thesis unfolding eq using True None M D modules_wf_remove [OF wf, of p "Suc p"]
        by (auto simp: selects_def entry_of_remove names_def Some d)
    next
      case sf: (Some f)
      consider (all) "all_symbols ?e" | (one) "\<not> all_symbols ?e" "f \<in> set (symbols ?e)"
        | (none) "\<not> all_symbols ?e" "f \<notin> set (symbols ?e)" by blast
      then show ?thesis
      proof cases
        case all
        then show ?thesis unfolding eq using True sf
          by simp (rule step, auto simp: M selects_def names_def Some d)
      next
        case one
        have "distinct (symbols ?e)" using wf True one by (simp add: modules_wf_def)
        note rm = remove_idx [OF this one(2)]
        show ?thesis unfolding eq using True sf one
          by (simp del: set_append) (rule step, use rm in \<open>auto simp: M selects_def names_def Some d simp del: set_append distinct_append\<close>)
      next
        case none
        then have "\<not> selects ms M f" using M(2) by (simp add: selects_def)
        then show ?thesis unfolding eq using True sf none wf by (auto simp: names_def Some d)
      qed
    qed
  qed
qed

section \<open>Whole files\<close>

lemma parse_lines_add:
  assumes "wl \<or> mode = PLC_SYMBOL_BL_ONLY" "modules_wf ms" "plain_modules ms"
  shows "\<exists>ms'. parse_lines mode wlp ls wl ms = Inr ms' \<and> modules_wf ms' \<and> plain_modules ms' \<and>
    (\<forall>N f. selects ms' N f = (selects ms N f \<or> listed ls N f))"
  using assms(2,3)
proof (induction ls arbitrary: ms)
  case (Cons l ls)
  from parse_add [OF assms(1) Cons.prems] obtain ms1 where
    1: "parse_line mode wlp l wl ms = Inr ms1" "modules_wf ms1" "plain_modules ms1"
      "\<forall>N f. selects ms1 N f = (selects ms N f \<or> names (directive l) N f)" by metis
  from Cons.IH [OF 1(2,3)] 1 show ?case by auto
qed simp

lemma parse_lines_del:
  assumes "modules_wf ms"
  shows "\<exists>ms'. parse_lines PLC_SYMBOL_BL_WL True ls False ms = Inr ms' \<and> modules_wf ms' \<and>
    (\<forall>N f. selects ms' N f = (selects ms N f \<and> \<not> listed ls N f))"
  using assms
proof (induction ls arbitrary: ms)
  case (Cons l ls)
  from parse_del [OF refl Cons.prems] obtain ms1 where
    1: "parse_line PLC_SYMBOL_BL_WL True l False ms = Inr ms1" "modules_wf ms1"
      "\<forall>N f. selects ms1 N f = (selects ms N f \<and> \<not> names (directive l) N f)" by metis
  from Cons.IH [OF 1(2)] 1 show ?case by auto
qed simp

lemma cleanup_eq:
  assumes "mode = PLC_SYMBOL_BL_WL \<or> plain_modules ms"
  shows "cleanup_modules mode ms = filter (\<lambda>e. all_symbols e \<or> symbols e \<noteq> []) ms"
  using assms by (induction ms) (auto simp: cleanup_modules_def need_cleanup_module_def plain_modules_def)

lemma selects_filter:
  assumes "modules_wf ms"
  shows "selects (filter (\<lambda>e. all_symbols e \<or> symbols e \<noteq> []) ms) N f = selects ms N f"
    "modules_wf (filter (\<lambda>e. all_symbols e \<or> symbols e \<noteq> []) ms)"
proof -
  show "modules_wf (filter (\<lambda>e. all_symbols e \<or> symbols e \<noteq> []) ms)"
    using assms by (auto simp: modules_wf_def distinct_map_filter)
  show "selects (filter (\<lambda>e. all_symbols e \<or> symbols e \<noteq> []) ms) N f = selects ms N f"
    using assms
  proof (induction ms)
    case (Cons e ms)
    then have IH: "selects (filter (\<lambda>e. all_symbols e \<or> symbols e \<noteq> []) ms) N f = selects ms N f"
      and new: "mod_name e \<notin> mod_name ` set ms" by (auto simp: modules_wf_def)
    then have "entry_of ms (mod_name e) = None" by (simp add: entry_of_None)
    with IH show ?case by (auto simp: selects_def entry_of_def split: option.splits)
  qed simp
qed

end
