(* ===== verification/Plc_Generate.thy ===== *)
theory Plc_Generate
  imports Plc_Lists
begin

text \<open>
  The generating mode of symbol_config.cpp: \<open>log_symbol\<close> collects the symbols of the blocks that hold
  floating-point operations, \<open>write_symbols_to_file\<close> writes them at exit.
\<close>

section \<open>Names of symbols\<close>

text \<open>The two calls of \<open>drsym_lookup_address\<close> differ in the buffer for the name only.\<close>

definition get_symbol_name :: "sym_env \<Rightarrow> module_data option \<Rightarrow> app_pc \<Rightarrow> string" where
  "get_symbol_name env module intr_pc =
     (case module of
        None \<Rightarrow> []
      | Some md \<Rightarrow>
          (case drsym_lookup_address env md (intr_pc - md_start md) of (sym_error, sy) \<Rightarrow>
             if sym_error = DRSYM_SUCCESS \<or> sym_error = DRSYM_ERROR_LINE_NOT_AVAILABLE
             then (case drsym_lookup_address env md (intr_pc - md_start md) of (sym_error, sy) \<Rightarrow>
                     if sym_error = DRSYM_SUCCESS \<or> sym_error = DRSYM_ERROR_LINE_NOT_AVAILABLE then info_name sy else [])
             else []))"

section \<open>Logging a symbol\<close>

definition vec_at :: "'a list \<Rightarrow> nat \<Rightarrow> 'a cres" where
  "vec_at xs i = (if i < length xs then Inr (xs ! i) else Inl OutOfBounds)"

text \<open>The branch for a module that is not the last one seen.\<close>

definition log_other_module :: "module_entry \<Rightarrow> string \<Rightarrow> sym_state \<Rightarrow> sym_state cres" where
  "log_other_module entry symbolName st =
     (let mv = modules_vector st;
          pos = vec_idx_of same_module mv entry;
          new = (pos = length mv);
          mv = (if new then mv @ [entry] else mv);
          old = (if new then pos else oldModule st)
      in bind_res (vec_at mv pos) (\<lambda>m.
         if vec_idx_of (=) (symbols m) symbolName = length (symbols m)
         then bind_res (vec_at mv old) (\<lambda>o'.
              Inr (st\<lparr>modules_vector := mv[pos := m\<lparr>symbols := symbols m @ [symbolName]\<rparr>],
                      oldModule := old, oldPos := length (symbols o')\<rparr>))
         else Inr (st\<lparr>modules_vector := mv, oldModule := old\<rparr>)))"

definition log_symbol :: "sym_env \<Rightarrow> app_pc option \<Rightarrow> sym_state \<Rightarrow> sym_state cres" where
  "log_symbol env first st =
     (case first of
        None \<Rightarrow> Inr st
      | Some pc \<Rightarrow>
          if pc = 0 then Inr st else
          (case dr_lookup_module env pc of
             None \<Rightarrow> Inr st
           | Some md \<Rightarrow>
               let entry = \<lparr>mod_name = md_name md, all_symbols = False, symbols = []\<rparr>;
                   symbolName = get_symbol_name env (Some md) pc;
                   mv = modules_vector st
               in if symbolName = [] then Inr st
                  else if length mv > oldModule st
                  then bind_res (vec_at mv (oldModule st)) (\<lambda>m.
                       if same_module m entry
                       then bind_res (if length (symbols m) \<le> oldPos st then Inr True
                                      else bind_res (vec_at (symbols m) (oldPos st)) (\<lambda>s. Inr (s \<noteq> symbolName))) (\<lambda>other.
                            if other \<and> vec_idx_of (=) (symbols m) symbolName = length (symbols m)
                            then Inr (st\<lparr>modules_vector := mv[oldModule st := m\<lparr>symbols := symbols m @ [symbolName]\<rparr>],
                                         oldPos := length (symbols m)\<rparr>)
                            else Inr st)
                       else log_other_module entry symbolName st)
                  else log_other_module entry symbolName st))"

fun log_symbols :: "sym_env \<Rightarrow> app_pc option list \<Rightarrow> sym_state \<Rightarrow> sym_state cres" where
  "log_symbols env [] st = Inr st"
| "log_symbols env (b # bs) st = bind_res (log_symbol env b st) (log_symbols env bs)"

section \<open>Writing the file\<close>

text \<open>Decimal output of a stream.\<close>

fun dec_string :: "nat \<Rightarrow> string" where
  "dec_string n = (if n < 10 then [] else dec_string (n div 10)) @ [char_of (48 + n mod 10)]"

declare dec_string.simps [simp del]

definition tab :: string where "tab = [CHR 0x09]"

definition PLC_SYMBOL_FILE_HEADER :: "string list" where
  "PLC_SYMBOL_FILE_HEADER =
     [''# This file has been generated by the Padloc sample to hold symbols used by the given program.'',
      ''# Only the symbols using floating point operations that we may instrument are listed'',
      ''# You can use it as a whitelist, blacklist, and modify it as you wish.'',
      ''# Comments start with the character '#'.'',
      ''# Each line of this file holds a symbol in the following format : '',
      ''#'',
      ''#'' @ tab @ tab @ tab @ ''module!symbol'',
      ''#'',
      ''# Here, a module can designate an executable, a library file... as per DynamoRIO's standards.'',
      ''# A name alone (without a '!') designates the whole module'',
      ''# Note that the whole modules listed here don't mean the program used the whole module, but rather that that module was used'',
      ''#'']"

text \<open>The lines of the file, or nothing in another mode or when the file is not open.\<close>

definition write_symbols_to_file :: "bool \<Rightarrow> sym_state \<Rightarrow> string list option" where
  "write_symbols_to_file file_open st =
     (if st_mode st = PLC_SYMBOL_GENERATE \<and> file_open
      then Some (PLC_SYMBOL_FILE_HEADER @
             [''# This list contains '' @ dec_string (sum_list (map (\<lambda>m. length (symbols m)) (modules_vector st))) @
              '' symbols of interest, split between '' @ dec_string (length (modules_vector st)) @ '' modules''] @
             concat (map (\<lambda>m. mod_name m # map (\<lambda>f. tab @ mod_name m @ ''!'' @ f) (symbols m)) (modules_vector st)))
      else None)"

section \<open>What is logged\<close>

text \<open>The vector as a set of pairs; its well-formedness in the generating mode.\<close>

definition logged :: "module_entry list \<Rightarrow> (string \<times> string) set" where
  "logged mv = (\<Union>m \<in> set mv. Pair (mod_name m) ` set (symbols m))"

definition log_wf :: "sym_state \<Rightarrow> bool" where
  "log_wf st \<longleftrightarrow> modules_wf (modules_vector st) \<and> (\<forall>m \<in> set (modules_vector st). \<not> all_symbols m \<and> symbols m \<noteq> []) \<and>
     (modules_vector st = [] \<and> oldModule st = 0 \<or> oldModule st < length (modules_vector st))"

definition block_symbol :: "sym_env \<Rightarrow> app_pc option \<Rightarrow> (string \<times> string) option" where
  "block_symbol env first =
     (case first of
        None \<Rightarrow> None
      | Some pc \<Rightarrow>
          if pc = 0 then None
          else case dr_lookup_module env pc of
                 None \<Rightarrow> None
               | Some md \<Rightarrow> (let f = get_symbol_name env (Some md) pc in if f = [] then None else Some (md_name md, f)))"

lemma logged_update:
  assumes "p < length mv" "m = mv ! p"
  shows "logged (mv[p := m\<lparr>symbols := symbols m @ [f]\<rparr>]) = insert (mod_name m, f) (logged mv)"
proof -
  have "set (mv[p := x]) = insert x (set (take p mv) \<union> set (drop (Suc p) mv))" for x
    using assms(1) by (simp add: upd_conv_take_nth_drop)
  moreover have "set mv = insert m (set (take p mv) \<union> set (drop (Suc p) mv))"
    using assms id_take_nth_drop [of p mv] by (metis Un_insert_right list.simps(15) set_append)
  ultimately show ?thesis by (auto simp: logged_def)
qed

lemma vec_idx_of_string: "vec_idx_of (=) xs (f :: string) = length xs \<longleftrightarrow> f \<notin> set xs"
  using vec_idx_of_less [of "(=)" xs f] vec_idx_of_le [of "(=)" xs f] by auto

lemma log_other_ok:
  assumes wf: "log_wf st" and e: "entry = \<lparr>mod_name = M, all_symbols = False, symbols = []\<rparr>"
  shows "\<exists>st'. log_other_module entry f st = Inr st' \<and> log_wf st' \<and> st_mode st' = st_mode st \<and>
    logged (modules_vector st') = insert (M, f) (logged (modules_vector st))"
proof -
  let ?mv = "modules_vector st"
  have mw: "modules_wf ?mv" using wf by (simp add: log_wf_def)
  define pos where "pos = vec_idx_of same_module ?mv entry"
  note P = module_idx [OF mw pos_def [unfolded e]]
  show ?thesis
  proof (cases "pos = length ?mv")
    case True
    let ?m = "\<lparr>mod_name = M, all_symbols = False, symbols = [f]\<rparr>"
    have "M \<notin> mod_name ` set ?mv" using P(1) True entry_of_None by auto
    then have "modules_wf (?mv @ [?m])" using mw by (intro modules_wf_snoc) auto
    moreover have "log_other_module entry f st =
        Inr (st\<lparr>modules_vector := ?mv @ [?m], oldModule := pos, oldPos := 0\<rparr>)"
      using True unfolding log_other_module_def Let_def pos_def [symmetric] by (simp add: Let_def vec_at_def e)
    moreover have "logged (?mv @ [?m]) = insert (M, f) (logged ?mv)" by (auto simp: logged_def)
    ultimately show ?thesis using wf True by (auto simp: log_wf_def)
  next
    case False
    then have p: "pos < length ?mv" using vec_idx_of_neq pos_def by metis
    let ?m = "?mv ! pos"
    have m: "mod_name ?m = M" "?m \<in> set ?mv" using P p by simp_all
    have old: "oldModule st < length ?mv" using wf p by (auto simp: log_wf_def)
    show ?thesis
    proof (cases "f \<in> set (symbols ?m)")
      case True
      then have "log_other_module entry f st = Inr (st\<lparr>modules_vector := ?mv, oldModule := oldModule st\<rparr>)"
        using False p unfolding log_other_module_def Let_def pos_def [symmetric]
        by (simp add: Let_def vec_at_def vec_idx_of_string)
      moreover have "(M, f) \<in> logged ?mv" using m True by (auto simp: logged_def)
      ultimately show ?thesis using wf by (auto simp: log_wf_def)
    next
      case new: False
      have "log_other_module entry f st = Inr (st\<lparr>modules_vector := ?mv[pos := ?m\<lparr>symbols := symbols ?m @ [f]\<rparr>],
          oldModule := oldModule st, oldPos := length (symbols (?mv ! oldModule st))\<rparr>)"
        using False p old new unfolding log_other_module_def Let_def pos_def [symmetric]
        by (simp add: Let_def vec_at_def vec_idx_of_string)
      moreover have "modules_wf (?mv[pos := ?m\<lparr>symbols := symbols ?m @ [f]\<rparr>])"
        by (rule modules_wf_update [OF mw p]) (use mw m new in \<open>auto simp: modules_wf_def\<close>)
      moreover have "\<forall>x \<in> set (?mv[pos := ?m\<lparr>symbols := symbols ?m @ [f]\<rparr>]). \<not> all_symbols x \<and> symbols x \<noteq> []"
        using wf m(2) set_update_subset_insert [of ?mv pos "?m\<lparr>symbols := symbols ?m @ [f]\<rparr>"] by (auto simp: log_wf_def)
      ultimately show ?thesis
        using logged_update [OF p refl, of f] m(1) old by (simp add: log_wf_def)
    qed
  qed
qed

lemma log_symbol_ok:
  assumes wf: "log_wf st"
  shows "\<exists>st'. log_symbol env b st = Inr st' \<and> log_wf st' \<and> st_mode st' = st_mode st \<and>
    logged (modules_vector st') = logged (modules_vector st) \<union> set_option (block_symbol env b)"
proof (cases "block_symbol env b")
  case None
  then have "log_symbol env b st = Inr st"
    by (auto simp: log_symbol_def block_symbol_def Let_def split: option.splits if_splits)
  then show ?thesis using wf None by simp
next
  case (Some d)
  obtain pc md where b: "b = Some pc" "pc \<noteq> 0" "dr_lookup_module env pc = Some md"
    and f: "get_symbol_name env (Some md) pc \<noteq> []" and d: "d = (md_name md, get_symbol_name env (Some md) pc)"
    using Some by (auto simp: block_symbol_def Let_def split: option.splits if_splits)
  let ?M = "md_name md" and ?f = "get_symbol_name env (Some md) pc" and ?mv = "modules_vector st"
  let ?e = "\<lparr>mod_name = ?M, all_symbols = False, symbols = []\<rparr>" and ?m = "modules_vector st ! oldModule st"
  from log_other_ok [OF wf refl, of ?M ?f] d Some have other: "\<exists>st'. log_other_module ?e ?f st = Inr st' \<and> log_wf st' \<and>
      st_mode st' = st_mode st \<and> logged (modules_vector st') = logged ?mv \<union> set_option (block_symbol env b)" by simp
  show ?thesis
  proof (cases "oldModule st < length ?mv \<and> same_module ?m ?e")
    case False
    then have "log_symbol env b st = log_other_module ?e ?f st"
      using b f by (auto simp: log_symbol_def Let_def vec_at_def)
    with other show ?thesis by simp
  next
    case True
    then have o: "oldModule st < length ?mv" and m: "mod_name ?m = ?M" by (simp_all add: same_module_def)
    have nm: "length (symbols ?m) \<le> oldPos st \<or> symbols ?m ! oldPos st \<noteq> ?f \<or> ?f \<in> set (symbols ?m)"
      by (metis not_less nth_mem)
    have eq: "log_symbol env b st =
        (if ?f \<notin> set (symbols ?m)
         then Inr (st\<lparr>modules_vector := ?mv[oldModule st := ?m\<lparr>symbols := symbols ?m @ [?f]\<rparr>], oldPos := length (symbols ?m)\<rparr>)
         else Inr st)"
      using True b f nm
      by (cases "length (symbols ?m) \<le> oldPos st") (auto simp: log_symbol_def Let_def vec_at_def vec_idx_of_string)
    show ?thesis
    proof (cases "?f \<in> set (symbols ?m)")
      case True
      then have "d \<in> logged ?mv" using o m d by (auto simp: logged_def intro!: bexI [of _ ?m])
      then show ?thesis using eq True wf Some by auto
    next
      case new: False
      have mw: "modules_wf ?mv" using wf by (simp add: log_wf_def)
      have "modules_wf (?mv[oldModule st := ?m\<lparr>symbols := symbols ?m @ [?f]\<rparr>])"
        by (rule modules_wf_update [OF mw o]) (use mw o new in \<open>auto simp: modules_wf_def\<close>)
      moreover have "\<forall>x \<in> set (?mv[oldModule st := ?m\<lparr>symbols := symbols ?m @ [?f]\<rparr>]). \<not> all_symbols x \<and> symbols x \<noteq> []"
        using wf o set_update_subset_insert [of ?mv "oldModule st" "?m\<lparr>symbols := symbols ?m @ [?f]\<rparr>"] by (auto simp: log_wf_def)
      ultimately show ?thesis
        using eq new logged_update [OF o refl, of ?f] m o d Some by (simp add: log_wf_def)
    qed
  qed
qed

text \<open>C19. Generating the list: logging any sequence of blocks never indexes outside the vectors and leaves
  exactly the named symbols of those blocks, each module once and each of its symbols once,
  although the position of the last symbol that is cached between the calls can be stale.\<close>

theorem log_symbols_collects:
  assumes "log_wf st"
  shows "\<exists>st'. log_symbols env bs st = Inr st' \<and> log_wf st' \<and>
    logged (modules_vector st') = logged (modules_vector st) \<union> (\<Union>b \<in> set bs. set_option (block_symbol env b))"
  using assms
proof (induction bs arbitrary: st)
  case (Cons b bs)
  from log_symbol_ok [OF Cons.prems, of env b] obtain st1 where
    1: "log_symbol env b st = Inr st1" "log_wf st1"
      "logged (modules_vector st1) = logged (modules_vector st) \<union> set_option (block_symbol env b)" by blast
  from Cons.IH [OF 1(2)] 1 show ?case by (auto simp: Un_assoc)
qed simp

definition demo_gen_state :: sym_state where
  "demo_gen_state =
     \<lparr>st_mode = PLC_SYMBOL_GENERATE, modules_vector = [], lookup_vector = [], whitelist_parsed = False,
      whitelist_filename = [], blacklist_filename = [], oldModule = 0, oldPos = 0\<rparr>"

definition demo_gen_env :: sym_env where
  "demo_gen_env =
     \<lparr>dr_lookup_module = (\<lambda>pc. Some \<lparr>md_start = 4096, md_end = 8192, md_name = (if pc < 6000 then ''a'' else ''b''),
        md_contiguous = True, md_segments = []\<rparr>),
      dr_lookup_module_by_name = (\<lambda>n. None), drsym_lookup_symbol = (\<lambda>md s. None),
      drsym_lookup_address = (\<lambda>md off. (DRSYM_SUCCESS, \<lparr>info_name = (if off < 1000 then ''f'' else ''g''), start_offs = 0, end_offs = 0\<rparr>)),
      file_lines = (\<lambda>n. None)\<rparr>"

theorem log_symbols_collects_witness:
  "\<exists>st. log_symbols demo_gen_env [Some 4100, Some 7000, Some 4200, Some 5500] demo_gen_state = Inr st \<and> log_wf st \<and>
     logged (modules_vector st) = {(''a'', ''f''), (''b'', ''g''), (''a'', ''g'')}"
proof -
  have "log_wf demo_gen_state" by (simp add: log_wf_def demo_gen_state_def modules_wf_def)
  from log_symbols_collects [OF this, of demo_gen_env "[Some 4100, Some 7000, Some 4200, Some 5500]"]
  show ?thesis by (auto simp: demo_gen_env_def demo_gen_state_def logged_def block_symbol_def get_symbol_name_def)
qed

section \<open>The file as a list\<close>

lemma trim_line_eq:
  "trim_line line =
     (let s = takeWhile (\<lambda>c. c \<noteq> CHR ''#'') line; s = (if list_all blank s then s else dropWhile blank s)
      in if list_all blank s then s else rev (dropWhile blank (rev s)))"
proof -
  have c: "(case find_char (CHR ''#'') line of Some pos \<Rightarrow> take pos line | None \<Rightarrow> line) = takeWhile (\<lambda>c. c \<noteq> CHR ''#'') line"
    by (cases "CHR ''#'' \<in> set line")
      (auto simp add: find_char_def takeWhile_eq_take [symmetric] eq_commute [of line] takeWhile_eq_all_conv)
  have l: "(case find_first_not_blank s of Some pos \<Rightarrow> drop pos s | None \<Rightarrow> s) = (if list_all blank s then s else dropWhile blank s)" for s
    by (simp add: find_first_not_blank_def dropWhile_eq_drop)
  have r: "(case find_last_not_blank s of Some pos \<Rightarrow> take (pos + 1) s | None \<Rightarrow> s) =
      (if list_all blank s then s else rev (dropWhile blank (rev s)))" for s
  proof (cases "list_all blank s")
    case False
    then have "dropWhile blank (rev s) \<noteq> []" by (simp add: list_all_iff dropWhile_eq_Nil_conv)
    then have "length (takeWhile blank (rev s)) < length s"
      by (metis add_less_same_cancel1 length_0_conv length_append length_rev not_less_zero linorder_neqE_nat
          less_add_same_cancel1 takeWhile_dropWhile_id bot_nat_0.not_eq_extremum)
    then have "take (length s - 1 - length (takeWhile blank (rev s)) + 1) s = rev (drop (length (takeWhile blank (rev s))) (rev s))"
      by (simp add: rev_drop Suc_diff_Suc)
    with False show ?thesis by (simp add: find_last_not_blank_def dropWhile_eq_drop)
  qed (simp add: find_last_not_blank_def)
  show ?thesis unfolding trim_line_def Let_def c l r ..
qed

lemma directive_comment: "directive (CHR ''#'' # s) = None"
  by (simp add: directive_def trim_line_eq)

definition name_ok :: "string \<Rightarrow> bool" where
  "name_ok M \<longleftrightarrow> M \<noteq> [] \<and> CHR ''#'' \<notin> set M \<and> CHR ''!'' \<notin> set M \<and> \<not> blank (hd M) \<and> \<not> blank (last M)"

lemma dropWhile_hd: "s \<noteq> [] \<Longrightarrow> \<not> P (hd s) \<Longrightarrow> dropWhile P s = s"
  by (cases s) simp_all

lemma directive_module:
  assumes "name_ok M"
  shows "directive M = Some (M, None)"
proof -
  have t: "takeWhile (\<lambda>c. c \<noteq> CHR ''#'') M = M" using assms by (auto simp: name_ok_def takeWhile_eq_all_conv)
  have nb: "\<not> list_all blank M" using assms by (auto simp: name_ok_def list_all_iff)
  have "dropWhile blank M = M" "dropWhile blank (rev M) = rev M"
    using assms by (simp_all add: dropWhile_hd name_ok_def hd_rev)
  then have "trim_line M = M" using nb by (simp add: trim_line_eq t)
  then show ?thesis using assms by (simp add: directive_def name_ok_def find_char_def)
qed

lemma directive_symbol:
  assumes M: "name_ok M"
  shows "\<exists>g. directive (tab @ M @ ''!'' @ f) = Some (M, Some g)"
proof -
  let ?f = "takeWhile (\<lambda>c. c \<noteq> CHR ''#'') f"
  have t: "takeWhile (\<lambda>c. c \<noteq> CHR ''#'') (tab @ M @ ''!'' @ f) = tab @ M @ ''!'' @ ?f"
    using M by (auto simp: tab_def name_ok_def takeWhile_append2 takeWhile_append)
  have b: "blank (CHR 0x09)" "\<not> blank (CHR ''!'')" by (simp_all add: blank_def)
  have nb: "\<not> list_all blank (M @ ''!'' @ ?f)" using b by simp
  have d: "dropWhile blank (tab @ M @ ''!'' @ ?f) = M @ ''!'' @ ?f"
    using M b by (simp add: tab_def name_ok_def dropWhile_hd)
  have "\<exists>g. rev (dropWhile blank (rev (M @ ''!'' @ ?f))) = M @ ''!'' @ g"
  proof -
    have "dropWhile blank (rev ?f @ CHR ''!'' # rev M) = dropWhile blank (rev ?f) @ CHR ''!'' # rev M"
      using b(2) by (induction "rev ?f") (auto simp: dropWhile_append3 dropWhile_append)
    then show ?thesis by simp
  qed
  then obtain g where r: "rev (dropWhile blank (rev (M @ ''!'' @ ?f))) = M @ ''!'' @ g" ..
  have nb': "\<not> list_all blank (tab @ M @ ''!'' @ ?f)" using nb by simp
  have g: "trim_line (tab @ M @ ''!'' @ f) = M @ ''!'' @ g"
    unfolding trim_line_eq t Let_def if_not_P [OF nb'] d if_not_P [OF nb] r ..
  have "find_char (CHR ''!'') (M @ ''!'' @ g) = Some (length M)"
    using M by (simp add: find_char_def name_ok_def takeWhile_append2 takeWhile_append)
  then show ?thesis using g by (auto simp: directive_def)
qed



end
