(* ===== verification/Plc_Analyse.thy ===== *)
theory Plc_Analyse
  imports Plc_Client Plc_Generate
begin

text \<open>
  The analysis of the backend (analyse.cpp): the registers that the functions reachable from the
  backend's entry points name are collected in two vectors, written to a file, or read from one.
  The decoder, the address of the client library and its symbols are parameters.
\<close>

section \<open>State\<close>

record an_state =
  NEED_SSE_INVERSE :: bool
  app_pc_vect :: "app_pc list"
  gpr_reg :: "reg_id list"
  float_reg :: "reg_id list"

text \<open>A decoded instruction has its address and its length.\<close>

record bb_instr = app_instr +
  bi_pc :: app_pc
  bi_len :: u64

text \<open>The decoder, the address of the library if it is found, and its symbols with their offsets,
  or nothing when the enumeration fails.\<close>

record an_env =
  decode_as_bb :: "app_pc \<Rightarrow> bb_instr list"
  lib_data :: "app_pc option"
  lib_symbols :: "(string \<times> u64) list option"

section \<open>Instructions\<close>

abbreviation bi_opcode :: "bb_instr \<Rightarrow> opcode" where
  "bi_opcode instr \<equiv> fi_opcode (ai_fp instr)"

definition cbr_names :: "string list" where
  "cbr_names = [''jo'', ''jno'', ''jb'', ''jnb'', ''jz'', ''jnz'', ''jbe'', ''jnbe'', ''js'', ''jns'', ''jp'',
     ''jnp'', ''jl'', ''jnl'', ''jle'', ''jnle'']"

definition opc_is_cbr_arch :: "opcode \<Rightarrow> bool" where
  "opc_is_cbr_arch opc \<longleftrightarrow> opc \<in> set cbr_names \<or> opc \<in> set (map (\<lambda>n. n @ ''_short'') cbr_names) \<or>
     opc \<in> {''loopne'', ''loope'', ''loop'', ''jecxz''}"

definition instr_is_cbr :: "bb_instr \<Rightarrow> bool" where
  "instr_is_cbr instr = opc_is_cbr_arch (bi_opcode instr)"

definition instr_is_ubr :: "bb_instr \<Rightarrow> bool" where
  "instr_is_ubr instr \<longleftrightarrow> bi_opcode instr \<in> {''jmp'', ''jmp_short'', ''jmp_far''}"

definition instr_is_call :: "bb_instr \<Rightarrow> bool" where
  "instr_is_call instr \<longleftrightarrow> bi_opcode instr \<in> {''call'', ''call_far'', ''call_ind'', ''call_far_ind''}"

fun opnd_get_pc :: "opnd \<Rightarrow> app_pc" where
  "opnd_get_pc (OpPc pc) = pc"
| "opnd_get_pc _ = 0"

section \<open>The vectors of registers\<close>

definition add_new :: "reg_id list \<Rightarrow> reg_id \<Rightarrow> reg_id list" where
  "add_new ret reg = (if reg \<in> set ret then ret else ret @ [reg])"

definition get_all_registers :: "an_state \<Rightarrow> reg_id list" where
  "get_all_registers st = foldl add_new (foldl add_new [] (gpr_reg st)) (float_reg st)"

text \<open>The loop of \<open>add_to_vect\<close>: whether to add the register, and the register to remove.\<close>

fun vect_scan :: "reg_id \<Rightarrow> reg_id list \<Rightarrow> (bool \<times> reg_id) cres" where
  "vect_scan reg [] = Inr (True, DR_REG_NULL)"
| "vect_scan reg (temp # vect) =
     (if reg = temp then Inr (False, DR_REG_NULL)
      else bind_res (reg_overlap reg temp) (\<lambda>o1.
        if o1 then Inr (False, DR_REG_NULL)
        else bind_res (reg_overlap temp reg) (\<lambda>o2.
          if o2 then Inr (True, temp) else vect_scan reg vect)))"

definition vect_add :: "reg_id \<Rightarrow> reg_id list \<Rightarrow> reg_id list cres" where
  "vect_add reg vect =
     bind_res (vect_scan reg vect) (\<lambda>(add_reg, to_remove).
       let vect = (if to_remove \<noteq> DR_REG_NULL then removeAll to_remove vect else vect)
       in Inr (if add_reg then vect @ [reg] else vect))"

definition add_to_vect :: "reg_id \<Rightarrow> an_state \<Rightarrow> an_state cres" where
  "add_to_vect reg st =
     (if reg_is_gpr reg
      then bind_res (vect_add reg (gpr_reg st)) (\<lambda>v. Inr (st\<lparr>gpr_reg := v\<rparr>))
      else if reg_is_strictly_xmm reg \<or> reg_is_strictly_ymm reg \<or> reg_is_strictly_zmm reg
      then bind_res (vect_add reg (float_reg st)) (\<lambda>v. Inr (st\<lparr>float_reg := v\<rparr>))
      else Inr st)"

text \<open>The registers \<open>reg1\<close> and \<open>reg2\<close> of an operand.\<close>

fun opnd_regs :: "opnd \<Rightarrow> reg_id \<times> reg_id" where
  "opnd_regs (OpReg r) = (r, DR_REG_NULL)"
| "opnd_regs (OpBaseDisp seg b i sc d) = (b, i)"
| "opnd_regs _ = (DR_REG_NULL, DR_REG_NULL)"

fun fill_opnds :: "opnd list \<Rightarrow> an_state \<Rightarrow> an_state cres" where
  "fill_opnds [] st = Inr st"
| "fill_opnds (operand # ops) st =
     bind_res (add_to_vect (fst (opnd_regs operand)) st) (\<lambda>st.
     bind_res (add_to_vect (snd (opnd_regs operand)) st) (\<lambda>st. fill_opnds ops st))"

definition fill_reg_vect :: "bb_instr \<Rightarrow> an_state \<Rightarrow> an_state cres" where
  "fill_reg_vect instr st = bind_res (fill_opnds (ai_srcs instr) st) (fill_opnds (ai_dsts instr))"

section \<open>Following the code of the backend\<close>

definition skips :: "bb_instr \<Rightarrow> bool" where
  "skips instr \<longleftrightarrow> instr_is_ubr instr \<or> instr_is_cbr instr \<or> bi_opcode instr \<in> {''jmp_ind'', ''jmp_far_ind''}"

text \<open>
  \<open>show_loop\<close> is the loop of \<open>show_instr_of_symbols\<close> over the rest of a decoded block. The recursion
  follows the code that the decoder finds, so it is a partial function: not returning is None.
\<close>

abbreviation call_then ::
  "'a cres option \<Rightarrow> ('a \<Rightarrow> 'b cres option) \<Rightarrow> 'b cres option" where
  "call_then m f \<equiv> Option.bind m (\<lambda>r. case r of Inl e \<Rightarrow> Some (Inl e) | Inr x \<Rightarrow> f x)"

lemma call_then_Inr_iff: "call_then m f = Some (Inr y) \<longleftrightarrow> (\<exists>x. m = Some (Inr x) \<and> f x = Some (Inr y))"
  by (cases m) (auto split: sum.split)

definition after :: "app_pc \<Rightarrow> bb_instr \<Rightarrow> u64" where
  "after start instr = bi_pc instr - start + bi_len instr"

partial_function (option) show_loop ::
  "(app_pc \<Rightarrow> bb_instr list) \<Rightarrow> app_pc \<Rightarrow> bb_instr list \<Rightarrow> an_state \<Rightarrow> an_state cres option" where
  "show_loop decode start instrs st =
     (case instrs of
        [] \<Rightarrow> Some (Inr st)
      | instr # rest \<Rightarrow>
          call_then (Some (fill_reg_vect instr st)) (\<lambda>st.
          call_then
            (if skips instr then show_loop decode start (decode (start + after start instr)) st
             else Some (Inr st)) (\<lambda>st.
          call_then
            (if instr_is_call instr
             then call_then (Some (SRC (app_instr.truncate instr) 0)) (\<lambda>op.
                  call_then
                    (if opnd_get_pc op \<notin> set (app_pc_vect st)
                     then show_loop decode start (decode (start + (opnd_get_pc op - start)))
                            (st\<lparr>app_pc_vect := app_pc_vect st @ [opnd_get_pc op]\<rparr>)
                     else Some (Inr st)) (\<lambda>st.
                  show_loop decode start (decode (start + after start instr)) st))
             else Some (Inr st)) (\<lambda>st.
          show_loop decode start rest st))))"

definition show_instr_of_symbols ::
  "(app_pc \<Rightarrow> bb_instr list) \<Rightarrow> app_pc \<Rightarrow> u64 \<Rightarrow> an_state \<Rightarrow> an_state cres option" where
  "show_instr_of_symbols decode start offset st = show_loop decode start (decode (start + offset)) st"

fun has_prefix :: "string \<Rightarrow> string \<Rightarrow> bool" where
  "has_prefix [] s = True"
| "has_prefix (p # ps) [] = False"
| "has_prefix (p # ps) (c # s) = (p = c \<and> has_prefix ps s)"

fun contains_str :: "string \<Rightarrow> string \<Rightarrow> bool" where
  "contains_str p [] = has_prefix p []"
| "contains_str p (c # s) = (has_prefix p (c # s) \<or> contains_str p s)"

text \<open>A callback returns the new state and whether to go on; \<open>drsym_enumerate_symbols\<close> calls it for one
  symbol after the other and stops when it returns false.\<close>

definition enum_symbols_registers ::
  "an_env \<Rightarrow> string \<Rightarrow> u64 \<Rightarrow> an_state \<Rightarrow> (bool \<times> an_state) cres option" where
  "enum_symbols_registers env name modoffs st =
     (if contains_str ''<>::apply'' name
      then case lib_data env of
             None \<Rightarrow> Some (Inl NullDeref)
           | Some start \<Rightarrow> call_then (show_instr_of_symbols (decode_as_bb env) start modoffs st) (\<lambda>st. Some (Inr (True, st)))
      else Some (Inr (True, st)))"

fun enumerate_symbols ::
  "(string \<Rightarrow> u64 \<Rightarrow> an_state \<Rightarrow> (bool \<times> an_state) cres option) \<Rightarrow> (string \<times> u64) list \<Rightarrow> an_state \<Rightarrow> an_state cres option" where
  "enumerate_symbols callback [] st = Some (Inr st)"
| "enumerate_symbols callback (s # syms) st =
     call_then (callback (fst s) (snd s) st) (\<lambda>(go_on, st).
       if go_on then enumerate_symbols callback syms st else Some (Inr st))"

section \<open>The order of the sources of SSE instructions\<close>

definition first_reg :: "bb_instr \<Rightarrow> reg_id cres" where
  "first_reg instr = bind_res (SRC (app_instr.truncate instr) 0) GET_REG"

fun sse_scan :: "bb_instr list \<Rightarrow> reg_id \<times> reg_id \<Rightarrow> (reg_id \<times> reg_id) cres" where
  "sse_scan [] rs = Inr rs"
| "sse_scan (instr # rest) rs =
     (if bi_opcode instr = ''divpd'' then bind_res (first_reg instr) (\<lambda>r. sse_scan rest (r, snd rs))
      else if bi_opcode instr = ''vdivpd'' then bind_res (first_reg instr) (\<lambda>r. sse_scan rest (fst rs, r))
      else sse_scan rest rs)"

definition analyse_symbol_test_sse_src ::
  "(app_pc \<Rightarrow> bb_instr list) \<Rightarrow> app_pc \<Rightarrow> u64 \<Rightarrow> an_state \<Rightarrow> an_state cres" where
  "analyse_symbol_test_sse_src decode start offset st =
     bind_res (sse_scan (decode (start + offset)) (DR_REG_NULL, DR_REG_NULL)) (\<lambda>(r0, r1).
       Inr (if r0 \<noteq> DR_REG_NULL \<and> r1 \<noteq> DR_REG_NULL \<and> r0 \<noteq> r1 then st\<lparr>NEED_SSE_INVERSE := True\<rparr> else st))"

definition enum_symbols_sse ::
  "an_env \<Rightarrow> string \<Rightarrow> u64 \<Rightarrow> an_state \<Rightarrow> (bool \<times> an_state) cres option" where
  "enum_symbols_sse env name modoffs st =
     (if contains_str ''test_sse_src_order'' name
      then case lib_data env of
             None \<Rightarrow> Some (Inl NullDeref)
           | Some start \<Rightarrow>
               Some (bind_res (analyse_symbol_test_sse_src (decode_as_bb env) start modoffs st) (\<lambda>st. Inr (False, st)))
      else Some (Inr (True, st)))"

section \<open>The file of registers\<close>

definition write_vect :: "reg_id list \<Rightarrow> string \<Rightarrow> string list" where
  "write_vect vect vect_type = vect_type # map (\<lambda>r. dec_string (r mod 65536)) vect"

definition write_reg_to_file :: "an_state \<Rightarrow> string list" where
  "write_reg_to_file st = write_vect (gpr_reg st) ''gpr_reg'' @ write_vect (float_reg st) ''float_reg''"

definition isdigit :: "char \<Rightarrow> bool" where
  "isdigit c \<longleftrightarrow> 48 \<le> (of_char c :: nat) \<and> (of_char c :: nat) \<le> 57"

definition is_number :: "string \<Rightarrow> bool" where
  "is_number str \<longleftrightarrow> str \<noteq> [] \<and> list_all isdigit str"

text \<open>\<open>std::stoi\<close> on a string of digits: it throws when the number does not fit an int.\<close>

definition digits_value :: "string \<Rightarrow> nat" where
  "digits_value str = foldl (\<lambda>n c. 10 * n + (of_char c - 48)) 0 str"

definition stoi :: "string \<Rightarrow> nat cres" where
  "stoi str = (if digits_value str < 2 ^ 31 then Inr (digits_value str) else Inl Throw)"

text \<open>The loop over the lines; the flag of the result is the one the function returns.\<close>

fun read_lines :: "string list \<Rightarrow> bool \<Rightarrow> an_state \<Rightarrow> (bool \<times> an_state) cres" where
  "read_lines [] float_vect st = Inr (False, st)"
| "read_lines (buffer # ls) float_vect st =
     (if buffer = ''gpr_reg'' then read_lines ls False st
      else if buffer = ''float_reg'' then read_lines ls True st
      else if is_number buffer
      then bind_res (stoi buffer) (\<lambda>n.
             read_lines ls float_vect
               (if float_vect then st\<lparr>float_reg := float_reg st @ [n mod 65536]\<rparr>
                else st\<lparr>gpr_reg := gpr_reg st @ [n mod 65536]\<rparr>))
      else Inr (True, st))"

definition read_reg_from_file :: "string list option \<Rightarrow> an_state \<Rightarrow> (bool \<times> an_state) cres" where
  "read_reg_from_file file st = (case file of None \<Rightarrow> Inr (True, st) | Some ls \<Rightarrow> read_lines ls False st)"

end
