(* ===== verification/Plc_Follow.thy ===== *)
theory Plc_Follow
  imports Plc_Analyse
begin

text \<open>
  The analysis of the backend returns, and collects exactly the registers named by the code it reaches.
\<close>

section \<open>The vectors\<close>

definition overlaps :: "reg_id \<Rightarrow> reg_id \<Rightarrow> bool" where
  "overlaps r v \<longleftrightarrow> v = r \<or> reg_overlap r v = Inr True"

definition in_class :: "(reg_id \<Rightarrow> bool) \<Rightarrow> bool" where
  "in_class C \<longleftrightarrow> C = reg_is_gpr \<or> C = is_vector"

definition vect_ok :: "(reg_id \<Rightarrow> bool) \<Rightarrow> reg_id list \<Rightarrow> bool" where
  "vect_ok C vect \<longleftrightarrow> (\<forall>r \<in> set vect. C r) \<and> sorted_wrt (\<lambda>a b. \<not> overlaps b a) vect"

lemma reg_overlap_sym:
  assumes "in_class C" "C r" "C v"
  obtains b where "reg_overlap r v = Inr b" "reg_overlap v r = Inr b"
proof -
  have "reg_is_gpr r \<or> is_vector r" "reg_is_gpr v \<or> is_vector v" using assms by (auto simp: in_class_def)
  then have "reg_fix r = Inr (dr_reg_fixer ! r)" "reg_fix v = Inr (dr_reg_fixer ! v)" by (simp_all add: reg_fix_total)
  then have "\<exists>b. reg_overlap r v = Inr b \<and> reg_overlap v r = Inr b" by (auto simp: reg_overlap_def eq_commute)
  with that show ?thesis by blast
qed

lemma vect_scan_eq:
  assumes "in_class C" "C reg" "\<forall>r \<in> set vect. C r"
  shows "vect_scan reg vect = Inr (\<not> (\<exists>v \<in> set vect. overlaps reg v), DR_REG_NULL)"
  using assms(3)
proof (induction vect)
  case (Cons v vect)
  obtain b where "reg_overlap reg v = Inr b" "reg_overlap v reg = Inr b"
    using reg_overlap_sym [OF assms(1,2), of v] Cons.prems by auto
  with Cons show ?case by (auto simp: overlaps_def)
qed simp

lemma vect_add_eq:
  assumes "in_class C" "C reg" "vect_ok C vect"
  shows "vect_add reg vect = Inr (if \<exists>v \<in> set vect. overlaps reg v then vect else vect @ [reg])"
  using assms by (auto simp: vect_add_def vect_ok_def vect_scan_eq)

lemma vect_ok_snoc: "vect_ok C vect \<Longrightarrow> C reg \<Longrightarrow> \<not> (\<exists>v \<in> set vect. overlaps reg v) \<Longrightarrow> vect_ok C (vect @ [reg])"
  by (auto simp: vect_ok_def sorted_wrt_append)

definition vects_ok :: "an_state \<Rightarrow> bool" where
  "vects_ok st \<longleftrightarrow> vect_ok reg_is_gpr (gpr_reg st) \<and> vect_ok is_vector (float_reg st)"

definition regs_in :: "an_state \<Rightarrow> reg_id set" where
  "regs_in st = set (gpr_reg st) \<union> set (float_reg st)"

definition collected :: "reg_id \<Rightarrow> bool" where
  "collected r \<longleftrightarrow> reg_is_gpr r \<or> is_vector r"

text \<open>From one state to a later one: the vectors only grow, by registers of \<open>R\<close>, and register every one of \<open>R\<close>.\<close>

definition collects :: "reg_id set \<Rightarrow> an_state \<Rightarrow> an_state \<Rightarrow> bool" where
  "collects R st st' \<longleftrightarrow> vects_ok st' \<and> regs_in st \<subseteq> regs_in st' \<and> regs_in st' \<subseteq> regs_in st \<union> (R \<inter> {r. collected r})"

definition covered :: "an_state \<Rightarrow> reg_id set \<Rightarrow> bool" where
  "covered st R \<longleftrightarrow> (\<forall>r \<in> R. collected r \<longrightarrow> (\<exists>v \<in> regs_in st. overlaps r v))"

lemma covered_mono: "covered st R \<Longrightarrow> regs_in st \<subseteq> regs_in st' \<Longrightarrow> covered st' R"
  unfolding covered_def by blast

lemma covered_Un [simp]: "covered st (R \<union> S) \<longleftrightarrow> covered st R \<and> covered st S" "covered st {}"
  unfolding covered_def by blast+

lemma collects_refl: "vects_ok st \<Longrightarrow> collects R st st"
  by (simp add: collects_def)

lemma collects_trans: "collects R st st' \<Longrightarrow> collects S st' st'' \<Longrightarrow> collects (R \<union> S) st st''"
  unfolding collects_def by blast

lemma collects_subset: "collects R st st' \<Longrightarrow> R \<subseteq> S \<Longrightarrow> collects S st st'"
  unfolding collects_def by blast

lemma add_to_vect_ok:
  assumes "vects_ok st"
  obtains st' where "add_to_vect reg st = Inr st'" "collects {reg} st st'" "covered st' {reg}" "app_pc_vect st' = app_pc_vect st"
proof -
  have g: "reg_is_gpr reg \<Longrightarrow> \<not> is_vector reg" using vector_not_gpr(1) by blast
  have o: "overlaps reg reg" by (simp add: overlaps_def)
  consider (gpr) "reg_is_gpr reg" | (simd) "\<not> reg_is_gpr reg" "is_vector reg" | (other) "\<not> reg_is_gpr reg" "\<not> is_vector reg" by blast
  then have "\<exists>st'. add_to_vect reg st = Inr st' \<and> collects {reg} st st' \<and> covered st' {reg} \<and> app_pc_vect st' = app_pc_vect st"
  proof cases
    case gpr
    then show ?thesis
      using assms vect_add_eq [of reg_is_gpr reg "gpr_reg st"] vect_ok_snoc [of reg_is_gpr "gpr_reg st" reg] g o
      by (auto simp: add_to_vect_def in_class_def vects_ok_def collects_def covered_def regs_in_def collected_def)
  next
    case simd
    then show ?thesis
      using assms vect_add_eq [of is_vector reg "float_reg st"] vect_ok_snoc [of is_vector "float_reg st" reg] o
      by (auto simp: add_to_vect_def in_class_def vects_ok_def collects_def covered_def regs_in_def collected_def
          is_vector_def [of reg])
  next
    case other
    then show ?thesis using assms by (auto simp: add_to_vect_def collects_def covered_def collected_def is_vector_def)
  qed
  with that show ?thesis by blast
qed

definition opnds_regs :: "opnd list \<Rightarrow> reg_id set" where
  "opnds_regs ops = (\<Union>op \<in> set ops. {fst (opnd_regs op), snd (opnd_regs op)})"

lemma fill_opnds_ok:
  assumes "vects_ok st"
  shows "\<exists>st'. fill_opnds ops st = Inr st' \<and> collects (opnds_regs ops) st st' \<and> covered st' (opnds_regs ops) \<and>
    app_pc_vect st' = app_pc_vect st"
  using assms
proof (induction ops arbitrary: st)
  case Nil
  then show ?case by (simp add: opnds_regs_def collects_refl)
next
  case (Cons op ops)
  obtain s1 where s1: "add_to_vect (fst (opnd_regs op)) st = Inr s1" "collects {fst (opnd_regs op)} st s1"
    "covered s1 {fst (opnd_regs op)}" "app_pc_vect s1 = app_pc_vect st"
    using Cons.prems by (rule add_to_vect_ok)
  have "vects_ok s1" using s1(2) by (simp add: collects_def)
  then obtain s2 where s2: "add_to_vect (snd (opnd_regs op)) s1 = Inr s2" "collects {snd (opnd_regs op)} s1 s2"
    "covered s2 {snd (opnd_regs op)}" "app_pc_vect s2 = app_pc_vect s1"
    by (rule add_to_vect_ok)
  have "vects_ok s2" using s2(2) by (simp add: collects_def)
  with Cons.IH obtain s3 where s3: "fill_opnds ops s2 = Inr s3" "collects (opnds_regs ops) s2 s3" "covered s3 (opnds_regs ops)"
    "app_pc_vect s3 = app_pc_vect s2" by blast
  have R: "opnds_regs (op # ops) = ({fst (opnd_regs op)} \<union> {snd (opnd_regs op)}) \<union> opnds_regs ops"
    by (auto simp: opnds_regs_def)
  have "collects (opnds_regs (op # ops)) st s3"
    unfolding R by (intro collects_trans [OF _ s3(2)] collects_trans [OF s1(2) s2(2)])
  moreover have "covered s3 (opnds_regs (op # ops))"
    unfolding R covered_Un using covered_mono [OF s1(3)] covered_mono [OF s2(3)] s2(2) s3(2,3) by (auto simp: collects_def)
  ultimately show ?case using s1 s2 s3 by simp
qed

definition instr_regs :: "bb_instr \<Rightarrow> reg_id set" where
  "instr_regs instr = opnds_regs (ai_srcs instr) \<union> opnds_regs (ai_dsts instr)"

lemma fill_reg_vect_ok:
  assumes "vects_ok st"
  obtains st' where "fill_reg_vect instr st = Inr st'" "collects (instr_regs instr) st st'" "covered st' (instr_regs instr)"
    "app_pc_vect st' = app_pc_vect st"
proof -
  obtain s1 where s1: "fill_opnds (ai_srcs instr) st = Inr s1" "collects (opnds_regs (ai_srcs instr)) st s1"
    "covered s1 (opnds_regs (ai_srcs instr))" "app_pc_vect s1 = app_pc_vect st"
    using fill_opnds_ok [OF assms] by blast
  have "vects_ok s1" using s1(2) by (simp add: collects_def)
  from fill_opnds_ok [OF this] obtain s2 where s2: "fill_opnds (ai_dsts instr) s1 = Inr s2"
    "collects (opnds_regs (ai_dsts instr)) s1 s2" "covered s2 (opnds_regs (ai_dsts instr))" "app_pc_vect s2 = app_pc_vect s1"
    by blast
  show ?thesis
  proof (rule that)
    show "fill_reg_vect instr st = Inr s2" using s1(1) s2(1) by (simp add: fill_reg_vect_def)
    show "collects (instr_regs instr) st s2" unfolding instr_regs_def using s1(2) s2(2) by (rule collects_trans)
    show "covered s2 (instr_regs instr)" unfolding instr_regs_def
      using covered_mono [OF s1(3)] s2(2,3) by (simp add: collects_def)
  qed (simp add: s1(4) s2(4))
qed

section \<open>The code that is reached\<close>

text \<open>
  \<open>target\<close> is the address a call goes to, \<open>next_pc\<close> the address after an instruction. \<open>sweeps\<close> goes on behind
  jumps and calls, \<open>reaches\<close> follows the calls as well.
\<close>

definition target :: "bb_instr \<Rightarrow> app_pc" where
  "target instr = opnd_get_pc (hd (ai_srcs instr))"

definition next_pc :: "bb_instr \<Rightarrow> app_pc" where
  "next_pc instr = bi_pc instr + bi_len instr"

definition goes_on :: "bb_instr \<Rightarrow> bool" where
  "goes_on instr \<longleftrightarrow> skips instr \<or> instr_is_call instr"

inductive sweeps :: "(app_pc \<Rightarrow> bb_instr list) \<Rightarrow> app_pc \<Rightarrow> app_pc \<Rightarrow> bool" for decode where
  sweeps_refl: "sweeps decode pc pc"
| sweeps_next: "instr \<in> set (decode pc) \<Longrightarrow> goes_on instr \<Longrightarrow> sweeps decode (next_pc instr) pc' \<Longrightarrow> sweeps decode pc pc'"

inductive reaches :: "(app_pc \<Rightarrow> bb_instr list) \<Rightarrow> app_pc \<Rightarrow> app_pc \<Rightarrow> bool" for decode where
  reaches_refl: "reaches decode pc pc"
| reaches_next: "instr \<in> set (decode pc) \<Longrightarrow> goes_on instr \<Longrightarrow> reaches decode (next_pc instr) pc' \<Longrightarrow> reaches decode pc pc'"
| reaches_call: "instr \<in> set (decode pc) \<Longrightarrow> instr_is_call instr \<Longrightarrow> reaches decode (target instr) pc' \<Longrightarrow> reaches decode pc pc'"

inductive_cases sweeps_cases: "sweeps decode pc pc'"
inductive_cases reaches_cases: "reaches decode pc pc'"

definition found :: "(app_pc \<Rightarrow> bb_instr list) \<Rightarrow> app_pc \<Rightarrow> reg_id set" where
  "found decode pc = (\<Union>pc' \<in> {pc'. reaches decode pc pc'}. \<Union>instr \<in> set (decode pc'). instr_regs instr)"

definition found_from :: "(app_pc \<Rightarrow> bb_instr list) \<Rightarrow> bb_instr \<Rightarrow> reg_id set" where
  "found_from decode instr =
     instr_regs instr \<union> (if goes_on instr then found decode (next_pc instr) else {}) \<union>
     (if instr_is_call instr then found decode (target instr) else {})"

lemma found_from_subset: "instr \<in> set (decode pc) \<Longrightarrow> found_from decode instr \<subseteq> found decode pc"
  unfolding found_from_def found_def
  by (auto intro: reaches_refl reaches_next reaches_call)

definition swept :: "(app_pc \<Rightarrow> bb_instr list) \<Rightarrow> an_state \<Rightarrow> app_pc \<Rightarrow> bool" where
  "swept decode st pc \<longleftrightarrow>
     (\<forall>pc'. sweeps decode pc pc' \<longrightarrow> (\<forall>instr \<in> set (decode pc').
        covered st (instr_regs instr) \<and> (instr_is_call instr \<longrightarrow> target instr \<in> set (app_pc_vect st))))"

definition handled :: "(app_pc \<Rightarrow> bb_instr list) \<Rightarrow> an_state \<Rightarrow> bb_instr \<Rightarrow> bool" where
  "handled decode st instr \<longleftrightarrow>
     covered st (instr_regs instr) \<and> (instr_is_call instr \<longrightarrow> target instr \<in> set (app_pc_vect st)) \<and>
     (goes_on instr \<longrightarrow> swept decode st (next_pc instr))"

lemma swept_handled: "(\<forall>instr \<in> set (decode pc). handled decode st instr) \<Longrightarrow> swept decode st pc"
  unfolding swept_def handled_def by (auto elim: sweeps_cases)

definition grows :: "an_state \<Rightarrow> an_state \<Rightarrow> bool" where
  "grows st st' \<longleftrightarrow> regs_in st \<subseteq> regs_in st' \<and> set (app_pc_vect st) \<subseteq> set (app_pc_vect st')"

lemma swept_grows: "swept decode st pc \<Longrightarrow> grows st st' \<Longrightarrow> swept decode st' pc"
  unfolding swept_def grows_def by (meson covered_mono subsetD)

lemma handled_grows: "handled decode st instr \<Longrightarrow> grows st st' \<Longrightarrow> handled decode st' instr"
  unfolding handled_def using swept_grows by (auto simp: grows_def intro: covered_mono)

text \<open>What a part of the analysis does: it collects, and sweeps every new call target.\<close>

definition follows :: "(app_pc \<Rightarrow> bb_instr list) \<Rightarrow> reg_id set \<Rightarrow> an_state \<Rightarrow> an_state \<Rightarrow> bool" where
  "follows decode R st st' \<longleftrightarrow> collects R st st' \<and> set (app_pc_vect st) \<subseteq> set (app_pc_vect st') \<and>
     (\<forall>a \<in> set (app_pc_vect st') - set (app_pc_vect st). swept decode st' a)"

lemma follows_grows: "follows decode R st st' \<Longrightarrow> grows st st'"
  by (simp add: follows_def grows_def collects_def)

lemma follows_refl: "vects_ok st \<Longrightarrow> follows decode R st st"
  by (simp add: follows_def collects_refl)

lemma follows_vects: "follows decode R st st' \<Longrightarrow> vects_ok st'"
  by (simp add: follows_def collects_def)

lemma follows_trans:
  assumes "follows decode R st st'" "follows decode S st' st''"
  shows "follows decode (R \<union> S) st st''"
proof -
  have "swept decode st'' a" if "a \<in> set (app_pc_vect st'') - set (app_pc_vect st)" for a
    using that assms swept_grows [OF _ follows_grows [OF assms(2)], where decode = decode]
    by (cases "a \<in> set (app_pc_vect st')") (auto simp: follows_def)
  then show ?thesis using assms collects_trans unfolding follows_def by blast
qed

lemma follows_subset: "follows decode R st st' \<Longrightarrow> R \<subseteq> S \<Longrightarrow> follows decode S st st'"
  unfolding follows_def using collects_subset by blast

section \<open>The recursion returns\<close>

text \<open>Documented of the decoder: the instructions of a block lie behind its start, none wraps around
  the address space, and a call has its target among the sources.\<close>

definition decode_ok :: "(app_pc \<Rightarrow> bb_instr list) \<Rightarrow> bool" where
  "decode_ok decode \<longleftrightarrow>
     (\<forall>pc. \<forall>instr \<in> set (decode pc). pc \<le> bi_pc instr \<and> bi_pc instr < next_pc instr \<and>
        (instr_is_call instr \<longrightarrow> ai_srcs instr \<noteq> []))"

definition work :: "((app_pc \<times> bb_instr list \<times> an_state) \<times> app_pc \<times> bb_instr list \<times> an_state) set" where
  "work = inv_image (less_than <*lex*> less_than <*lex*> less_than)
     (\<lambda>(pc, instrs, st). (card (- set (app_pc_vect st)), 2 ^ 64 - unat pc, length instrs))"

lemma wf_work: "wf work"
  by (auto simp: work_def)

lemma unvisited_le:
  assumes "set (app_pc_vect st) \<subseteq> set (app_pc_vect st')"
  shows "card (- set (app_pc_vect st')) \<le> card (- set (app_pc_vect st))"
  by (rule card_mono) (use assms in auto)

lemma work_rest':
  "set (app_pc_vect st) \<subseteq> set (app_pc_vect st') \<Longrightarrow> ((pc, rest, st'), (pc, instr # rest, st)) \<in> work"
  using unvisited_le [of st st'] by (auto simp: work_def)

lemma work_next':
  assumes "set (app_pc_vect st) \<subseteq> set (app_pc_vect st')" "pc < pc'"
  shows "((pc', instrs', st'), (pc, instrs, st)) \<in> work"
proof -
  have "unat pc < unat pc'" "unat pc' < 2 ^ 64"
    using assms(2) unsigned_less [of pc', where ?'a = nat] by (simp_all add: word_less_nat_alt)
  then show ?thesis using unvisited_le [of st st'] assms(1) by (auto simp: work_def)
qed

lemma work_call':
  assumes "set (app_pc_vect st) \<subseteq> set (app_pc_vect st')" "a \<notin> set (app_pc_vect st')"
  shows "((pc', instrs', st'\<lparr>app_pc_vect := app_pc_vect st' @ [a]\<rparr>), (pc, instrs, st)) \<in> work"
proof -
  have "- insert a (set (app_pc_vect st')) \<subset> - set (app_pc_vect st')" using assms(2) by auto
  then have "card (- insert a (set (app_pc_vect st'))) < card (- set (app_pc_vect st'))" by (rule psubset_card_mono [rotated]) simp
  also have "\<dots> \<le> card (- set (app_pc_vect st))" using assms(1) by (rule unvisited_le)
  finally show ?thesis by (auto simp: work_def)
qed

lemma grows_visited: "grows st st' \<Longrightarrow> set (app_pc_vect st) \<subseteq> set (app_pc_vect st')"
  by (simp add: grows_def)

lemmas work_rest = work_rest' [OF grows_visited]
lemmas work_next = work_next' [OF grows_visited]
lemmas work_call = work_call' [OF grows_visited]

definition returns :: "(app_pc \<Rightarrow> bb_instr list) \<Rightarrow> app_pc \<Rightarrow> app_pc \<Rightarrow> an_state \<Rightarrow> bool" where
  "returns decode start pc st \<longleftrightarrow>
     (\<exists>st'. show_loop decode start (decode pc) st = Some (Inr st') \<and> follows decode (found decode pc) st st' \<and> swept decode st' pc)"

text \<open>The body of the loop, as three steps: the registers of the instruction, the code behind a jump, the call.\<close>

definition show_jump :: "(app_pc \<Rightarrow> bb_instr list) \<Rightarrow> app_pc \<Rightarrow> bb_instr \<Rightarrow> an_state \<Rightarrow> an_state cres option" where
  "show_jump decode start instr st =
     (if skips instr then show_loop decode start (decode (next_pc instr)) st else Some (Inr st))"

definition show_target :: "(app_pc \<Rightarrow> bb_instr list) \<Rightarrow> app_pc \<Rightarrow> bb_instr \<Rightarrow> an_state \<Rightarrow> an_state cres option" where
  "show_target decode start instr st =
     (if target instr \<notin> set (app_pc_vect st)
      then show_loop decode start (decode (target instr)) (st\<lparr>app_pc_vect := app_pc_vect st @ [target instr]\<rparr>)
      else Some (Inr st))"

definition show_call :: "(app_pc \<Rightarrow> bb_instr list) \<Rightarrow> app_pc \<Rightarrow> bb_instr \<Rightarrow> an_state \<Rightarrow> an_state cres option" where
  "show_call decode start instr st =
     (if instr_is_call instr
      then call_then (show_target decode start instr st) (show_loop decode start (decode (next_pc instr)))
      else Some (Inr st))"

lemma show_loop_Nil: "show_loop decode start [] st = Some (Inr st)"
  by (subst show_loop.simps) simp

lemma show_loop_Cons:
  assumes "instr_is_call instr \<longrightarrow> ai_srcs instr \<noteq> []"
  shows "show_loop decode start (instr # rest) st =
    call_then (Some (fill_reg_vect instr st)) (\<lambda>st. call_then (show_jump decode start instr st) (\<lambda>st.
      call_then (show_call decode start instr st) (show_loop decode start rest)))"
proof -
  have n: "start + after start instr = next_pc instr" by (simp add: after_def next_pc_def)
  have s: "SRC (app_instr.truncate instr) 0 = Inr (hd (ai_srcs instr))" if "instr_is_call instr"
    using assms that by (simp add: SRC_def app_instr.truncate_def hd_conv_nth)
  have t: "start + (opnd_get_pc (hd (ai_srcs instr)) - start) = target instr" by (simp add: target_def)
  show ?thesis
    by (subst show_loop.simps)
      (simp add: n s show_jump_def show_call_def show_target_def t target_def [symmetric] cong: if_cong)
qed

text \<open>The recursion returns on any vectors, also when they hold numbers that are no registers and the overlap
  test fails.\<close>

definition some_grow :: "an_state cres option \<Rightarrow> an_state \<Rightarrow> bool" where
  "some_grow m st \<longleftrightarrow> (\<exists>r. m = Some r \<and> (\<forall>st'. r = Inr st' \<longrightarrow> set (app_pc_vect st) \<subseteq> set (app_pc_vect st')))"

lemma some_grow_then:
  assumes "some_grow m st" "\<And>st'. set (app_pc_vect st) \<subseteq> set (app_pc_vect st') \<Longrightarrow> some_grow (f st') st'"
  shows "some_grow (call_then m f) st"
proof -
  obtain r where r: "m = Some r" "\<forall>st'. r = Inr st' \<longrightarrow> set (app_pc_vect st) \<subseteq> set (app_pc_vect st')"
    using assms(1) by (auto simp: some_grow_def)
  show ?thesis
  proof (cases r)
    case (Inr st')
    with r assms(2) [of st'] show ?thesis by (auto simp: some_grow_def)
  qed (simp add: r(1) some_grow_def)
qed

lemma fill_opnds_pcs: "fill_opnds ops st = Inr st' \<Longrightarrow> app_pc_vect st' = app_pc_vect st"
  by (induction ops arbitrary: st)
    (fastforce simp: bind_res_Inr_iff add_to_vect_def split: if_splits)+

lemma some_grow_fill: "some_grow (Some (fill_reg_vect instr st)) st"
  by (auto simp: some_grow_def fill_reg_vect_def bind_res_Inr_iff dest!: fill_opnds_pcs)

lemma some_grow_done: "some_grow (Some (Inr st)) st"
  by (simp add: some_grow_def)

lemma show_loop_some:
  assumes "decode_ok decode"
    and "\<forall>instr \<in> set instrs. pc \<le> bi_pc instr \<and> bi_pc instr < next_pc instr \<and> (instr_is_call instr \<longrightarrow> ai_srcs instr \<noteq> [])"
  shows "some_grow (show_loop decode start instrs st) st"
  using assms(2)
proof (induction "(pc, instrs, st)" arbitrary: pc instrs st rule: wf_induct_rule [OF wf_work])
  case (1 pc instrs st)
  have block: "some_grow (show_loop decode start (decode pc') st') st'" if "((pc', decode pc', st'), (pc, instrs, st)) \<in> work" for pc' st'
    using 1(1) [OF that] assms(1) by (auto simp: decode_ok_def)
  show ?case
  proof (cases instrs)
    case (Cons instr rest)
    with 1(2) have i: "pc < next_pc instr" "instr_is_call instr \<longrightarrow> ai_srcs instr \<noteq> []" by auto
    have n: "some_grow (show_loop decode start (decode (next_pc instr)) st') st'"
      if "set (app_pc_vect st) \<subseteq> set (app_pc_vect st')" for st'
      by (rule block [OF work_next' [OF that i(1)]])
    have j: "some_grow (show_jump decode start instr st') st'" if "set (app_pc_vect st) \<subseteq> set (app_pc_vect st')" for st'
      using n [OF that] by (simp add: show_jump_def some_grow_done)
    have t: "some_grow (show_target decode start instr st') st'" if "set (app_pc_vect st) \<subseteq> set (app_pc_vect st')" for st'
      using block [OF work_call' [OF that, of "target instr"]] by (fastforce simp: show_target_def some_grow_def)
    have c: "some_grow (show_call decode start instr st') st'" if "set (app_pc_vect st) \<subseteq> set (app_pc_vect st')" for st'
      unfolding show_call_def using t [OF that] n that by (auto intro!: some_grow_then some_grow_done)
    have r: "some_grow (show_loop decode start rest st') st'" if "set (app_pc_vect st) \<subseteq> set (app_pc_vect st')" for st'
      using 1(1) [of pc rest st'] work_rest' [OF that] 1(2) by (auto simp: Cons)
    show ?thesis unfolding Cons show_loop_Cons [OF i(2)]
      by (intro some_grow_then some_grow_fill j c r) auto
  qed (simp add: show_loop_Nil some_grow_done)
qed

lemma show_block_some:
  assumes "decode_ok decode"
  shows "\<exists>r. show_loop decode start (decode pc) st = Some r"
  using show_loop_some [OF assms, of "decode pc" pc start st] assms by (auto simp: decode_ok_def some_grow_def)

lemma show_jump_ok:
  assumes "vects_ok st" "skips instr \<Longrightarrow> returns decode start (next_pc instr) st"
  obtains st' where "show_jump decode start instr st = Some (Inr st')"
    "follows decode (if goes_on instr then found decode (next_pc instr) else {}) st st'"
    "skips instr \<Longrightarrow> swept decode st' (next_pc instr)"
proof (cases "skips instr")
  case True
  with assms(2) obtain st' where "show_loop decode start (decode (next_pc instr)) st = Some (Inr st')"
    "follows decode (found decode (next_pc instr)) st st'" "swept decode st' (next_pc instr)"
    by (auto simp: returns_def)
  with True show ?thesis by (intro that [of st']) (simp_all add: show_jump_def goes_on_def)
next
  case False
  with assms(1) show ?thesis by (intro that [of st]) (simp_all add: show_jump_def follows_refl)
qed

lemma show_target_ok:
  assumes "vects_ok st"
    and "target instr \<notin> set (app_pc_vect st) \<Longrightarrow>
      returns decode start (target instr) (st\<lparr>app_pc_vect := app_pc_vect st @ [target instr]\<rparr>)"
  obtains st' where "show_target decode start instr st = Some (Inr st')"
    "follows decode (found decode (target instr)) st st'" "target instr \<in> set (app_pc_vect st')"
proof (cases "target instr \<in> set (app_pc_vect st)")
  case True
  with assms(1) show ?thesis by (intro that [of st]) (simp_all add: show_target_def follows_refl)
next
  case False
  let ?st = "st\<lparr>app_pc_vect := app_pc_vect st @ [target instr]\<rparr>"
  from False assms(2) obtain st' where st': "show_loop decode start (decode (target instr)) ?st = Some (Inr st')"
    "follows decode (found decode (target instr)) ?st st'" "swept decode st' (target instr)"
    by (auto simp: returns_def)
  have "follows decode (found decode (target instr)) st st'"
    using st'(2,3) by (auto simp: follows_def collects_def regs_in_def)
  with False st' show ?thesis by (intro that [of st']) (auto simp: show_target_def follows_def)
qed

lemma show_call_ok:
  assumes ok: "vects_ok st"
    and behind: "\<And>st'. instr_is_call instr \<Longrightarrow> grows st st' \<Longrightarrow> vects_ok st' \<Longrightarrow> returns decode start (next_pc instr) st'"
    and tgt: "instr_is_call instr \<Longrightarrow> target instr \<notin> set (app_pc_vect st) \<Longrightarrow>
      returns decode start (target instr) (st\<lparr>app_pc_vect := app_pc_vect st @ [target instr]\<rparr>)"
  obtains st' where "show_call decode start instr st = Some (Inr st')"
    "follows decode ((if goes_on instr then found decode (next_pc instr) else {}) \<union>
       (if instr_is_call instr then found decode (target instr) else {})) st st'"
    "instr_is_call instr \<Longrightarrow> target instr \<in> set (app_pc_vect st') \<and> swept decode st' (next_pc instr)"
proof (cases "instr_is_call instr")
  case True
  obtain s1 where s1: "show_target decode start instr st = Some (Inr s1)"
    "follows decode (found decode (target instr)) st s1" "target instr \<in> set (app_pc_vect s1)"
    using ok tgt [OF True] by (rule show_target_ok)
  from behind [OF True follows_grows [OF s1(2)] follows_vects [OF s1(2)]]
  obtain s2 where s2: "show_loop decode start (decode (next_pc instr)) s1 = Some (Inr s2)"
    "follows decode (found decode (next_pc instr)) s1 s2" "swept decode s2 (next_pc instr)"
    by (auto simp: returns_def)
  have "target instr \<in> set (app_pc_vect s2)" using s1(3) s2(2) by (auto simp: follows_def)
  with True s1(1) s2 follows_trans [OF s1(2) s2(2)] show ?thesis
    by (intro that [of s2]) (simp_all add: show_call_def goes_on_def Un_commute)
next
  case False
  with ok show ?thesis by (intro that [of st]) (simp_all add: show_call_def follows_refl)
qed

lemma follows_instr:
  assumes "collects (instr_regs instr) st s1" "covered s1 (instr_regs instr)" "app_pc_vect s1 = app_pc_vect st"
  shows "follows decode (instr_regs instr) st s1"
  using assms by (simp add: follows_def)

lemma show_loop_returns:
  assumes "decode_ok decode" "vects_ok st"
    and "\<forall>instr \<in> set instrs. pc \<le> bi_pc instr \<and> bi_pc instr < next_pc instr \<and> (instr_is_call instr \<longrightarrow> ai_srcs instr \<noteq> [])"
  shows "\<exists>st'. show_loop decode start instrs st = Some (Inr st') \<and>
    follows decode (\<Union>instr \<in> set instrs. found_from decode instr) st st' \<and> (\<forall>instr \<in> set instrs. handled decode st' instr)"
  using assms(2,3)
proof (induction "(pc, instrs, st)" arbitrary: pc instrs st rule: wf_induct_rule [OF wf_work])
  case (1 pc instrs st)
  have block: "returns decode start pc' st'" if "((pc', decode pc', st'), (pc, instrs, st)) \<in> work" "vects_ok st'" for pc' st'
  proof -
    from 1(1) [OF that] assms(1) obtain s where "show_loop decode start (decode pc') st' = Some (Inr s)"
      "follows decode (\<Union>instr \<in> set (decode pc'). found_from decode instr) st' s" "\<forall>instr \<in> set (decode pc'). handled decode s instr"
      by (auto simp: decode_ok_def)
    then show ?thesis unfolding returns_def
      by (intro exI [of _ s] conjI swept_handled) (auto intro: follows_subset dest: found_from_subset)
  qed
  show ?case
  proof (cases instrs)
    case Nil
    with 1(2) show ?thesis by (simp add: show_loop_Nil follows_refl)
  next
    case (Cons instr rest)
    with 1(3) have i: "pc < next_pc instr" "instr_is_call instr \<longrightarrow> ai_srcs instr \<noteq> []" by auto
    obtain s1 where s1: "fill_reg_vect instr st = Inr s1" "collects (instr_regs instr) st s1" "covered s1 (instr_regs instr)"
      "app_pc_vect s1 = app_pc_vect st" using 1(2) by (rule fill_reg_vect_ok)
    note f1 = follows_instr [OF s1(2-4), of decode]
    have r: "returns decode start (next_pc instr) s1"
      by (rule block [OF work_next [OF follows_grows [OF f1] i(1)] follows_vects [OF f1]])
    obtain s2 where s2: "show_jump decode start instr s1 = Some (Inr s2)"
      "follows decode (if goes_on instr then found decode (next_pc instr) else {}) s1 s2"
      "skips instr \<Longrightarrow> swept decode s2 (next_pc instr)"
      using show_jump_ok [OF follows_vects [OF f1], of instr decode start] r by blast
    note f2 = follows_trans [OF f1 s2(2)]
    have g: "grows s2 st' \<Longrightarrow> grows st st'" for st' using follows_grows [OF f2] by (auto simp: grows_def)
    obtain s3 where s3: "show_call decode start instr s2 = Some (Inr s3)"
      "follows decode ((if goes_on instr then found decode (next_pc instr) else {}) \<union>
         (if instr_is_call instr then found decode (target instr) else {})) s2 s3"
      "instr_is_call instr \<Longrightarrow> target instr \<in> set (app_pc_vect s3) \<and> swept decode s3 (next_pc instr)"
    proof (rule show_call_ok [OF follows_vects [OF f2], of instr decode start])
      show "returns decode start (next_pc instr) st'" if "grows s2 st'" "vects_ok st'" for st'
        by (rule block [OF work_next [OF g [OF that(1)] i(1)] that(2)])
      show "returns decode start (target instr) (s2\<lparr>app_pc_vect := app_pc_vect s2 @ [target instr]\<rparr>)"
        if "target instr \<notin> set (app_pc_vect s2)"
        by (rule block [OF work_call [OF follows_grows [OF f2] that]])
          (use follows_vects [OF f2] in \<open>simp add: vects_ok_def\<close>)
    qed blast
    note f3 = follows_trans [OF f2 s3(2)]
    have h: "handled decode s3 instr"
      unfolding handled_def goes_on_def
      using s3(3) swept_grows [OF s2(3) follows_grows [OF s3(2)]]
        covered_mono [OF s1(3)] follows_grows [OF s2(2)] follows_grows [OF s3(2)] by (auto simp: grows_def)
    obtain s4 where s4: "show_loop decode start rest s3 = Some (Inr s4)"
      "follows decode (\<Union>instr \<in> set rest. found_from decode instr) s3 s4" "\<forall>instr \<in> set rest. handled decode s4 instr"
      using 1(1) [of pc rest s3] work_rest [OF follows_grows [OF f3]] follows_vects [OF f3] 1(3) unfolding Cons by auto
    have "follows decode (\<Union>instr \<in> set instrs. found_from decode instr) st s4"
      by (rule follows_subset [OF follows_trans [OF f3 s4(2)]]) (auto simp: Cons found_from_def split: if_splits)
    then show ?thesis
      using s1(1) s2(1) s3(1) s4(1,3) handled_grows [OF h follows_grows [OF s4(2)]]
      unfolding Cons by (simp add: show_loop_Cons [OF i(2)])
  qed
qed

section \<open>All the entry points\<close>

lemma foldl_add_new: "set (foldl add_new ret xs) = set ret \<union> set xs" "distinct ret \<Longrightarrow> distinct (foldl add_new ret xs)"
  by (induction xs arbitrary: ret) (auto simp: add_new_def)

lemma get_all_registers_set: "set (get_all_registers st) = regs_in st" "distinct (get_all_registers st)"
  by (simp_all add: get_all_registers_def foldl_add_new regs_in_def)

definition closed_vect :: "(app_pc \<Rightarrow> bb_instr list) \<Rightarrow> an_state \<Rightarrow> bool" where
  "closed_vect decode st \<longleftrightarrow> (\<forall>a \<in> set (app_pc_vect st). swept decode st a)"

lemma closed_follows: "closed_vect decode st \<Longrightarrow> follows decode R st st' \<Longrightarrow> closed_vect decode st'"
  unfolding closed_vect_def using swept_grows [OF _ follows_grows] by (fastforce simp: follows_def)

lemma swept_covered:
  assumes "reaches decode pc pc'" "closed_vect decode st" "swept decode st pc" "instr \<in> set (decode pc')"
  shows "covered st (instr_regs instr)"
  using assms
proof (induction rule: reaches.induct)
  case (reaches_refl pc)
  then show ?case using sweeps_refl by (auto simp: swept_def)
next
  case (reaches_next i pc pc')
  then have "swept decode st (next_pc i)" unfolding swept_def by (meson sweeps_next)
  with reaches_next show ?case by blast
next
  case (reaches_call i pc pc')
  then have "target i \<in> set (app_pc_vect st)" using sweeps_refl by (auto simp: swept_def)
  with reaches_call show ?case by (auto simp: closed_vect_def)
qed

lemma swept_found: "closed_vect decode st \<Longrightarrow> swept decode st pc \<Longrightarrow> covered st (found decode pc)"
  using swept_covered unfolding found_def covered_def by (metis (mono_tags, lifting) UN_E mem_Collect_eq)

definition entry_points :: "an_env \<Rightarrow> (string \<times> u64) list \<Rightarrow> u64 set" where
  "entry_points env syms = snd ` {s \<in> set syms. contains_str ''<>::apply'' (fst s)}"

lemma entry_points_simps [simp]:
  "entry_points env [] = {}"
  "entry_points env (s # syms) =
     (if contains_str ''<>::apply'' (fst s) then insert (snd s) (entry_points env syms) else entry_points env syms)"
  by (auto simp: entry_points_def)

lemma enumerate_ok:
  assumes "decode_ok (decode_as_bb env)" "lib_data env = Some start" "vects_ok st"
  shows "\<exists>st'. enumerate_symbols (enum_symbols_registers env) syms st = Some (Inr st') \<and>
    follows (decode_as_bb env) (\<Union>offs \<in> entry_points env syms. found (decode_as_bb env) (start + offs)) st st' \<and>
    (\<forall>offs \<in> entry_points env syms. swept (decode_as_bb env) st' (start + offs))"
  using assms(3)
proof (induction syms arbitrary: st)
  case Nil
  then show ?case by (simp add: follows_refl)
next
  case (Cons s syms)
  let ?d = "decode_as_bb env"
  show ?case
  proof (cases "contains_str ''<>::apply'' (fst s)")
    case False
    with Cons show ?thesis by (simp add: enum_symbols_registers_def [of env "fst s" "snd s" st])
  next
    case True
    obtain s1 where s1: "show_loop ?d start (?d (start + snd s)) st = Some (Inr s1)"
      "follows ?d (\<Union>i \<in> set (?d (start + snd s)). found_from ?d i) st s1" "\<forall>i \<in> set (?d (start + snd s)). handled ?d s1 i"
      using show_loop_returns [OF assms(1) Cons.prems, of "?d (start + snd s)" "start + snd s" start] assms(1)
      by (auto simp: decode_ok_def)
    have f1: "follows ?d (found ?d (start + snd s)) st s1"
      by (rule follows_subset [OF s1(2)]) (auto dest: found_from_subset)
    obtain s2 where s2: "enumerate_symbols (enum_symbols_registers env) syms s1 = Some (Inr s2)"
      "follows ?d (\<Union>offs \<in> entry_points env syms. found ?d (start + offs)) s1 s2"
      "\<forall>offs \<in> entry_points env syms. swept ?d s2 (start + offs)"
      using Cons.IH [OF follows_vects [OF f1]] by blast
    have "swept ?d s2 (start + snd s)" by (rule swept_grows [OF swept_handled [OF s1(3)] follows_grows [OF s2(2)]])
    moreover have "follows ?d (\<Union>offs \<in> entry_points env (s # syms). found ?d (start + offs)) st s2"
      by (rule follows_subset [OF follows_trans [OF f1 s2(2)]]) (auto simp: True)
    ultimately show ?thesis using True s1(1) s2 assms(2) 
      by (simp add: enum_symbols_registers_def [of env "fst s" "snd s" st] show_instr_of_symbols_def)
  qed
qed


text \<open>A recursive function: a load, a call of itself, an addition behind the call, a return.\<close>

definition demo_instr :: "opcode \<Rightarrow> opnd list \<Rightarrow> opnd list \<Rightarrow> app_pc \<Rightarrow> u64 \<Rightarrow> bb_instr" where
  "demo_instr opc srcs dsts pc len =
     \<lparr>ai_fp = \<lparr>fi_opcode = opc, fi_evex = False, fi_src_sizes = []\<rparr>, ai_srcs = srcs, ai_dsts = dsts, ai_any_sse = False,
      bi_pc = pc, bi_len = len\<rparr>"

definition demo_decode :: "app_pc \<Rightarrow> bb_instr list" where
  "demo_decode pc =
     (if pc = 4096 then [demo_instr ''mov_ld'' [OpBaseDisp 0 DR_REG_RBX DR_REG_RCX 1 8] [OpReg DR_REG_RAX] 4096 3,
                         demo_instr ''call'' [OpPc 4096] [OpReg DR_REG_RSP] 4099 5]
      else if pc = 4104 then [demo_instr ''addsd'' [OpReg DR_REG_XMM0] [OpReg DR_REG_XMM0] 4104 4, demo_instr ''ret'' [] [] 4108 1]
      else [])"

definition demo_an_env :: an_env where
  "demo_an_env = \<lparr>decode_as_bb = demo_decode, lib_data = Some 4000, lib_symbols = None\<rparr>"


section \<open>The file\<close>

lemma isdigit_digit: "d < 10 \<Longrightarrow> isdigit (char_of (48 + d :: nat))" "d < 10 \<Longrightarrow> of_char (char_of (48 + d :: nat)) - 48 = d"
  by (simp_all add: isdigit_def)

lemma dec_string_digits: "is_number (dec_string n)" "digits_value (dec_string n) = n"
proof (induction n rule: dec_string.induct)
  case (1 n)
  { case 1
    show ?case using "1.IH"(1)
      by (subst dec_string.simps) (auto simp: is_number_def isdigit_digit)
  next
    case 2
    show ?case using "1.IH"(2)
      by (subst dec_string.simps) (auto simp: digits_value_def isdigit_digit) }
qed

lemma read_numbers:
  assumes "\<forall>r \<in> set vect. r < 65536"
  shows "read_lines (map (\<lambda>r. dec_string (r mod 65536)) vect @ ls) float_vect st =
    read_lines ls float_vect
      (if float_vect then st\<lparr>float_reg := float_reg st @ vect\<rparr> else st\<lparr>gpr_reg := gpr_reg st @ vect\<rparr>)"
  using assms
proof (induction vect arbitrary: st)
  case (Cons r vect)
  have n: "dec_string r \<noteq> ''gpr_reg''" "dec_string r \<noteq> ''float_reg''"
    using dec_string_digits(1) [of r] by (auto simp: is_number_def isdigit_def)
  have "stoi (dec_string r) = Inr r" using Cons.prems by (simp add: stoi_def dec_string_digits)
  with Cons n show ?case by (simp add: dec_string_digits)
qed simp

text \<open>C21. Reading the file that the analysis wrote appends the registers to the two vectors, each to its own.\<close>

theorem registers_file_roundtrip:
  assumes "\<forall>r \<in> set (gpr_reg st) \<union> set (float_reg st). r < 65536"
  shows "read_reg_from_file (Some (write_reg_to_file st)) st0 =
    Inr (False, st0\<lparr>gpr_reg := gpr_reg st0 @ gpr_reg st, float_reg := float_reg st0 @ float_reg st\<rparr>)"
proof -
  have "read_lines (write_reg_to_file st) False st0 =
      read_lines (map (\<lambda>r. dec_string (r mod 65536)) (float_reg st) @ []) True (st0\<lparr>gpr_reg := gpr_reg st0 @ gpr_reg st\<rparr>)"
    using read_numbers [of "gpr_reg st" _ False st0] assms by (simp add: write_reg_to_file_def write_vect_def)
  also have "\<dots> = Inr (False, st0\<lparr>gpr_reg := gpr_reg st0 @ gpr_reg st, float_reg := float_reg st0 @ float_reg st\<rparr>)"
    using assms by (subst read_numbers) simp_all
  finally show ?thesis by (simp add: read_reg_from_file_def)
qed

theorem registers_file_roundtrip_witness:
  "read_reg_from_file (Some (write_reg_to_file
      \<lparr>NEED_SSE_INVERSE = False, app_pc_vect = [], gpr_reg = [DR_REG_RAX, DR_REG_R15], float_reg = [DR_REG_ZMM31]\<rparr>))
     \<lparr>NEED_SSE_INVERSE = True, app_pc_vect = [], gpr_reg = [], float_reg = []\<rparr> =
   Inr (False, \<lparr>NEED_SSE_INVERSE = True, app_pc_vect = [], gpr_reg = [DR_REG_RAX, DR_REG_R15], float_reg = [DR_REG_ZMM31]\<rparr>)"
  by (subst registers_file_roundtrip) (simp_all add: reg_defs)

end
