(* ===== verification/Plc_Lookup.thy ===== *)
theory Plc_Lookup
  imports Plc_Lists
begin

text \<open>
  From the lists to the decision for a basic block. Modules are loaded one after the other, each
  one is looked up in the vector of entries and remembered with the address ranges of its symbols;
  a block is instrumented exactly when the lists say so of the symbol it lies in.
\<close>

section \<open>Modules and their symbols\<close>

definition md_range :: "module_data \<Rightarrow> addr_range" where
  "md_range md = \<lparr>range_start = md_start md, range_end = md_end md\<rparr>"

text \<open>The addresses of a module: its range, or the segments of a module that is not contiguous.\<close>

definition in_module :: "module_data \<Rightarrow> app_pc \<Rightarrow> bool" where
  "in_module md pc \<longleftrightarrow>
     (if md_contiguous md then range_contains (md_range md) pc
      else list_ex (\<lambda>(a, b). range_contains \<lparr>range_start = a, range_end = b\<rparr> pc) (md_segments md))"

definition module_ok :: "module_data \<Rightarrow> bool" where
  "module_ok md \<longleftrightarrow> in_module md (md_start md) \<and> (\<forall>pc. in_module md pc \<longrightarrow> range_contains (md_range md) pc)"

text \<open>Modules that can be told apart, and a lookup by name that finds the module of that name.\<close>

definition modules_ok :: "sym_env \<Rightarrow> module_data set \<Rightarrow> bool" where
  "modules_ok env U \<longleftrightarrow>
     (\<forall>md \<in> U. module_ok md) \<and>
     (\<forall>md \<in> U. \<forall>md' \<in> U. md \<noteq> md' \<longrightarrow>
        md_name md \<noteq> md_name md' \<and> (\<forall>pc. \<not> (range_contains (md_range md) pc \<and> range_contains (md_range md') pc))) \<and>
     (\<forall>n md. dr_lookup_module_by_name env n = Some md \<longrightarrow> md \<in> U \<and> md_name md = n)"

definition resolve :: "sym_env \<Rightarrow> module_data \<Rightarrow> string \<Rightarrow> addr_range option" where
  "resolve env md f =
     (case drsym_lookup_symbol env md (md_name md @ ''!'' @ f) of
        Some modoff \<Rightarrow>
          (case drsym_lookup_address env md modoff of (err, info) \<Rightarrow>
             if err = DRSYM_SUCCESS \<or> err = DRSYM_ERROR_LINE_NOT_AVAILABLE
             then Some \<lparr>range_start = md_start md + start_offs info, range_end = md_start md + end_offs info\<rparr>
             else None)
      | None \<Rightarrow> None)"

definition covers :: "sym_env \<Rightarrow> module_data \<Rightarrow> string \<Rightarrow> app_pc \<Rightarrow> bool" where
  "covers env md f pc \<longleftrightarrow> (case resolve env md f of Some r \<Rightarrow> range_contains r pc | None \<Rightarrow> False)"

text \<open>The address belongs to one symbol of the module.\<close>

definition in_symbol :: "sym_env \<Rightarrow> module_data \<Rightarrow> string \<Rightarrow> app_pc \<Rightarrow> bool" where
  "in_symbol env md f pc \<longleftrightarrow> in_module md pc \<and> (\<forall>g. covers env md g pc \<longleftrightarrow> g = f)"

lemma load_symbols_resolve:
  "load_symbols env md (s # ss) =
     (case resolve env md s of Some r \<Rightarrow> \<lparr>se_name = s, se_range = r\<rparr> # load_symbols env md ss | None \<Rightarrow> load_symbols env md ss)"
  by (auto simp: resolve_def split: option.split prod.split)

lemma load_symbols_covers:
  "list_ex (\<lambda>s. range_contains (se_range s) pc) (load_symbols env md ss) \<longleftrightarrow> (\<exists>g \<in> set ss. covers env md g pc)"
  by (induction ss) (auto simp: covers_def load_symbols_resolve simp del: load_symbols.simps(2) split: option.splits)

section \<open>One lookup entry\<close>

lemma load_entry_module:
  "lookup_entry_contains (load_entry env mode md e) pc PLC_LOOKUP_MODULE = in_module md pc"
  by (auto simp: lookup_entry_contains_def load_entry_def in_module_def md_range_def list_ex_iff case_prod_beta)

lemma load_entry_in_range:
  assumes "module_ok md" "lookup_entry_contains (load_entry env mode md e) pc t"
  shows "range_contains (md_range md) pc"
proof (cases "t = PLC_LOOKUP_MODULE \<or> le_total (load_entry env mode md e) \<and> le_symbols (load_entry env mode md e) = []")
  case True
  then have "lookup_entry_contains (load_entry env mode md e) pc PLC_LOOKUP_MODULE"
    using assms(2) by (auto simp: lookup_entry_contains_def)
  then show ?thesis using assms(1) by (simp add: load_entry_module module_ok_def)
next
  case False
  then show ?thesis using assms(2)
    by (auto simp: lookup_entry_contains_def load_entry_def md_range_def split: if_splits)
qed

lemma load_entry_symbol:
  assumes md: "module_ok md" "in_symbol env md f pc" and e: "mode = PLC_SYMBOL_BL_WL \<or> (all_symbols e \<longrightarrow> symbols e = [])"
  shows "lookup_entry_contains (load_entry env mode md e) pc PLC_LOOKUP_SYMBOL =
    (if all_symbols e then f \<notin> set (symbols e) else f \<in> set (symbols e))"
proof -
  let ?L = "load_entry env mode md e"
  have im: "in_module md pc" "range_contains (md_range md) pc" using md by (auto simp: in_symbol_def module_ok_def)
  have ex: "list_ex (\<lambda>s. range_contains (se_range s) pc) (load_symbols env md (symbols e)) \<longleftrightarrow> f \<in> set (symbols e)"
    using md(2) by (auto simp: load_symbols_covers in_symbol_def)
  show ?thesis
  proof (cases "le_total ?L \<and> le_symbols ?L = []")
    case True
    then have "lookup_entry_contains ?L pc PLC_LOOKUP_SYMBOL = lookup_entry_contains ?L pc PLC_LOOKUP_MODULE"
      by (simp add: lookup_entry_contains_def)
    moreover have "f \<notin> set (symbols e)"
    proof (cases "mode = PLC_SYMBOL_BL_WL")
      case True': True
      with True have "load_symbols env md (symbols e) = []" by (simp add: load_entry_def)
      then show ?thesis using ex by simp
    qed (use True e in \<open>simp add: load_entry_def\<close>)
    ultimately show ?thesis using True im by (simp add: load_entry_module) (simp add: load_entry_def)
  next
    case False
    then show ?thesis
      using im(2) ex by (auto simp: lookup_entry_contains_def load_entry_def md_range_def split: if_splits)
  qed
qed

section \<open>Loading modules\<close>

definition entries :: "sym_env \<Rightarrow> padloc_symbol_mode \<Rightarrow> (module_data \<times> module_entry) list \<Rightarrow> lookup_entry list" where
  "entries env mode L = map (\<lambda>(md, e). load_entry env mode md e) L"

text \<open>
  The loaded modules \<open>L\<close> have the entries the lists gave them; every entry of the lists \<open>ms0\<close> is still
  in the vector \<open>mv\<close> or has been loaded.
\<close>

definition load_inv ::
    "sym_env \<Rightarrow> module_data set \<Rightarrow> module_entry list \<Rightarrow> module_entry list \<Rightarrow> (module_data \<times> module_entry) list \<Rightarrow> bool" where
  "load_inv env U ms0 mv L \<longleftrightarrow>
     modules_ok env U \<and> modules_wf mv \<and> (\<forall>e \<in> set mv. entry_of ms0 (mod_name e) = Some e) \<and>
     (\<forall>(md, e) \<in> set L. md \<in> U \<and> entry_of ms0 (md_name md) = Some e) \<and>
     (\<forall>M e. entry_of ms0 M = Some e \<longrightarrow> e \<in> set mv \<or> (\<exists>md. (md, e) \<in> set L \<and> md_name md = M))"

lemma entry_of_Some: "entry_of ms M = Some e \<Longrightarrow> e \<in> set ms \<and> mod_name e = M"
  by (auto simp: entry_of_def find_Some_iff)

lemma load_inv_entry:
  "load_inv env U ms0 mv L \<Longrightarrow> entry_of ms0 M = Some e \<Longrightarrow> e \<in> set mv \<or> (\<exists>md. (md, e) \<in> set L \<and> md_name md = M)"
  by (simp add: load_inv_def)

lemma find_entries:
  assumes inv: "load_inv env U ms0 mv L" and md: "md \<in> U" "range_contains (md_range md) pc"
  shows "lookup_find (entries env mode L) pc t = None \<longleftrightarrow>
    (\<forall>e. (md, e) \<in> set L \<longrightarrow> \<not> lookup_entry_contains (load_entry env mode md e) pc t)"
proof -
  have "md' = md" if "(md', e) \<in> set L" "lookup_entry_contains (load_entry env mode md' e) pc t" for md' e
  proof -
    have "md' \<in> U" "module_ok md'" using inv that(1) by (auto simp: load_inv_def modules_ok_def)
    moreover from load_entry_in_range [OF this(2) that(2)] have "range_contains (md_range md') pc" .
    ultimately show ?thesis using inv md by (auto simp: load_inv_def modules_ok_def)
  qed
  then show ?thesis by (auto simp: lookup_find_def entries_def find_None_iff)
qed

lemma find_entry_Some:
  "lookup_find (entries env mode L) pc t = Some x \<Longrightarrow>
     \<exists>md e. (md, e) \<in> set L \<and> x = load_entry env mode md e \<and> lookup_entry_contains x pc t"
  by (induction L) (auto simp: lookup_find_def entries_def split: if_splits)

lemma find_start:
  assumes inv: "load_inv env U ms0 mv L" and md: "md \<in> U"
  shows "lookup_find (entries env mode L) (md_start md) PLC_LOOKUP_MODULE = None \<longleftrightarrow> (\<forall>e. (md, e) \<notin> set L)"
proof -
  have ok: "module_ok md" using inv md by (simp add: load_inv_def modules_ok_def)
  then have "range_contains (md_range md) (md_start md)" by (simp add: module_ok_def)
  from find_entries [OF inv md this] ok show ?thesis by (simp add: load_entry_module module_ok_def)
qed

lemma lookup_or_load_ok:
  assumes inv: "load_inv env U ms0 mv L" and md: "md \<in> U"
  shows "\<exists>L'. lookup_or_load_module env mode mv md (entries env mode L) = entries env mode L' \<and>
    load_inv env U ms0 mv L' \<and> set L \<subseteq> set L' \<and> (\<forall>e. entry_of ms0 (md_name md) = Some e \<longrightarrow> (md, e) \<in> set L')"
proof (cases "\<exists>e. (md, e) \<in> set L")
  case True
  then have "lookup_or_load_module env mode mv md (entries env mode L) = entries env mode L"
    using find_start [OF inv md, of mode] by (simp add: lookup_or_load_module_def)
  moreover have "(md, e) \<in> set L" if "entry_of ms0 (md_name md) = Some e" for e
    using True inv that by (auto simp: load_inv_def)
  ultimately show ?thesis using inv by blast
next
  case False
  define p where "p = vec_idx_of same_module mv \<lparr>mod_name = md_name md, all_symbols = False, symbols = []\<rparr>"
  have wf: "modules_wf mv" using inv by (simp add: load_inv_def)
  note P = module_idx [OF wf p_def]
  have ne: "p \<noteq> length mv \<longleftrightarrow> p < length mv" by (simp add: p_def vec_idx_of_neq)
  have code: "lookup_or_load_module env mode mv md (entries env mode L) =
      (if p < length mv then entries env mode (L @ [(md, mv ! p)]) else entries env mode L)"
    using False find_start [OF inv md, of mode]
    unfolding lookup_or_load_module_def p_def [symmetric] Let_def ne by (simp add: entries_def)
  show ?thesis
  proof (cases "p < length mv")
    case True
    have m: "mv ! p \<in> set mv" "mod_name (mv ! p) = md_name md" using True P by simp_all
    then have e: "entry_of ms0 (md_name md) = Some (mv ! p)" using inv by (auto simp: load_inv_def)
    have "\<forall>M e. entry_of ms0 M = Some e \<longrightarrow> e \<in> set mv \<or> (\<exists>md'. (md', e) \<in> set (L @ [(md, mv ! p)]) \<and> md_name md' = M)"
      using inv unfolding load_inv_def by (metis Un_iff set_append)
    with inv md e have "load_inv env U ms0 mv (L @ [(md, mv ! p)])" unfolding load_inv_def by simp
    with code True e show ?thesis by (intro exI [of _ "L @ [(md, mv ! p)]"]) auto
  next
    case no: False
    have "entry_of ms0 (md_name md) = None"
    proof (rule ccontr)
      assume "entry_of ms0 (md_name md) \<noteq> None"
      then obtain e where e: "entry_of ms0 (md_name md) = Some e" by blast
      have "e \<notin> set mv" using P(1) no entry_of_None [of mv "md_name md"] entry_of_Some [OF e] by (metis imageI)
      then obtain md' where "(md', e) \<in> set L" "md_name md' = md_name md" using load_inv_entry [OF inv e] by blast
      moreover from this have "md' = md" using inv md by (auto simp: load_inv_def modules_ok_def)
      ultimately show False using False by blast
    qed
    with code no inv show ?thesis by auto
  qed
qed

lemma load_inv_drop:
  assumes inv: "load_inv env U ms0 (kept @ m # ms) L" and m: "(md, m) \<in> set L" "md_name md = mod_name m"
  shows "load_inv env U ms0 (kept @ ms) L"
proof -
  have "modules_wf (kept @ ms)"
    using inv modules_wf_remove [of "kept @ m # ms" "length kept" "Suc (length kept)"] by (simp add: load_inv_def)
  moreover have "e \<in> set (kept @ ms) \<or> (\<exists>md. (md, e) \<in> set L \<and> md_name md = M)" if "entry_of ms0 M = Some e" for M e
  proof (cases "e = m")
    case True
    then show ?thesis using m entry_of_Some [OF that] by auto
  next
    case False
    then show ?thesis using inv that unfolding load_inv_def by auto
  qed
  ultimately show ?thesis using inv unfolding load_inv_def by auto
qed

lemma load_lookup_loop_ok:
  assumes "load_inv env U ms0 (kept @ ms) L"
  shows "\<exists>mv L'. load_lookup_loop env mode kept ms (entries env mode L) = (mv, entries env mode L') \<and>
    load_inv env U ms0 mv L' \<and> set L \<subseteq> set L' \<and>
    (\<forall>m \<in> set ms. \<forall>md. dr_lookup_module_by_name env (mod_name m) = Some md \<longrightarrow> (md, m) \<in> set L')"
  using assms
proof (induction ms arbitrary: kept L)
  case Nil
  then show ?case by auto
next
  case (Cons m ms)
  show ?case
  proof (cases "dr_lookup_module_by_name env (mod_name m)")
    case None
    with Cons.IH [of "kept @ [m]" L] Cons.prems show ?thesis by simp
  next
    case (Some md)
    have md: "md \<in> U" "md_name md = mod_name m" using Cons.prems Some by (auto simp: load_inv_def modules_ok_def)
    from lookup_or_load_ok [OF Cons.prems md(1), of mode] obtain L1 where
      L1: "lookup_or_load_module env mode (kept @ m # ms) md (entries env mode L) = entries env mode L1"
        "load_inv env U ms0 (kept @ m # ms) L1" "set L \<subseteq> set L1"
        "\<forall>e. entry_of ms0 (md_name md) = Some e \<longrightarrow> (md, e) \<in> set L1" by metis
    have m: "(md, m) \<in> set L1" using L1(2,4) md(2) by (simp add: load_inv_def)
    have "load_inv env U ms0 (kept @ ms) L1" by (rule load_inv_drop [OF L1(2) m md(2)])
    from Cons.IH [OF this] L1(1,3) Some m show ?thesis by fastforce
  qed
qed

section \<open>The client's runs\<close>

definition sel :: "padloc_symbol_mode \<Rightarrow> string list \<Rightarrow> string list \<Rightarrow> string \<Rightarrow> string \<Rightarrow> bool" where
  "sel mode wl bl M f \<longleftrightarrow>
     (if mode = PLC_SYMBOL_WL_ONLY then listed wl M f
      else if mode = PLC_SYMBOL_BL_ONLY then listed bl M f
      else listed wl M f \<and> \<not> listed bl M f)"

lemma selects_Nil: "modules_wf []" "plain_modules []" "\<not> selects [] M f"
  by (simp_all add: modules_wf_def plain_modules_def selects_def entry_of_def)

lemma generate_ok:
  assumes mode: "st_mode st \<in> {PLC_SYMBOL_BL_ONLY, PLC_SYMBOL_WL_ONLY, PLC_SYMBOL_BL_WL}"
    and new: "modules_vector st = []" "lookup_vector st = []"
    and files: "file_lines env (whitelist_filename st) = Some wl" "file_lines env (blacklist_filename st) = Some bl"
  shows "\<exists>st1. symbol_client_mode_manager env st = Inr (load_lookup_from_modules_vector env st1) \<and>
    st_mode st1 = st_mode st \<and> lookup_vector st1 = [] \<and> modules_wf (modules_vector st1) \<and>
    (st_mode st = PLC_SYMBOL_BL_WL \<or> plain_modules (modules_vector st1)) \<and>
    (\<forall>M f. selects (modules_vector st1) M f = sel (st_mode st) wl bl M f)"
proof -
  consider (bl) "st_mode st = PLC_SYMBOL_BL_ONLY" | (wl) "st_mode st = PLC_SYMBOL_WL_ONLY" | (both) "st_mode st = PLC_SYMBOL_BL_WL"
    using mode by auto
  then show ?thesis
  proof cases
    case bl
    from parse_lines_add [OF _ selects_Nil(1,2), of False PLC_SYMBOL_BL_ONLY "whitelist_parsed st" bl] obtain ms where
      "parse_lines PLC_SYMBOL_BL_ONLY (whitelist_parsed st) bl False [] = Inr ms" "modules_wf ms" "plain_modules ms"
      "\<forall>N f. selects ms N f = listed bl N f" using selects_Nil(3) by auto
    then show ?thesis
      using bl new files selects_filter [of ms]
      by (auto simp: symbol_client_mode_manager_def generate_blacklist_from_file_def cleanup_eq sel_def plain_modules_def)
  next
    case wl
    from parse_lines_add [OF _ selects_Nil(1,2), of True PLC_SYMBOL_WL_ONLY "whitelist_parsed st" wl] obtain ms where
      "parse_lines PLC_SYMBOL_WL_ONLY (whitelist_parsed st) wl True [] = Inr ms" "modules_wf ms" "plain_modules ms"
      "\<forall>N f. selects ms N f = listed wl N f" using selects_Nil(3) by auto
    then show ?thesis
      using wl new files selects_filter [of ms]
      by (auto simp: symbol_client_mode_manager_def generate_whitelist_from_file_def generate_whitelist_from_files_def
          cleanup_eq sel_def plain_modules_def)
  next
    case both
    from parse_lines_add [OF _ selects_Nil(1,2), of True PLC_SYMBOL_BL_WL "whitelist_parsed st" wl] obtain ms where
      1: "parse_lines PLC_SYMBOL_BL_WL (whitelist_parsed st) wl True [] = Inr ms" "modules_wf ms"
      "\<forall>N f. selects ms N f = listed wl N f" using selects_Nil(3) by auto
    from parse_lines_del [OF 1(2), of bl] obtain ms' where
      2: "parse_lines PLC_SYMBOL_BL_WL True bl False ms = Inr ms'" "modules_wf ms'"
      "\<forall>N f. selects ms' N f = (selects ms N f \<and> \<not> listed bl N f)" by auto
    from 1 2 show ?thesis
      using both new files selects_filter [of ms']
      by (auto simp: symbol_client_mode_manager_def generate_whitelist_from_files_def cleanup_eq sel_def)
  qed
qed

text \<open>The states the client goes through: the lists are read, then modules are loaded one after the
  other. The last argument collects the modules that have been seen.\<close>

inductive sym_reach :: "sym_env \<Rightarrow> module_data set \<Rightarrow> sym_state \<Rightarrow> sym_state \<Rightarrow> module_data set \<Rightarrow> bool"
  for env :: sym_env and U :: "module_data set" and st0 :: sym_state where
  start: "symbol_client_mode_manager env st0 = Inr st \<Longrightarrow>
    sym_reach env U st0 st {md. dr_lookup_module_by_name env (md_name md) = Some md}"
| load: "sym_reach env U st0 st S \<Longrightarrow> md \<in> U \<Longrightarrow>
    sym_reach env U st0 (snd (should_instrument_module env md st)) (insert md S)"

definition sym_inv ::
    "sym_env \<Rightarrow> module_data set \<Rightarrow> padloc_symbol_mode \<Rightarrow> string list \<Rightarrow> string list \<Rightarrow> sym_state \<Rightarrow> module_data set \<Rightarrow> bool" where
  "sym_inv env U mode wl bl st S \<longleftrightarrow>
     (\<exists>ms0 L. st_mode st = mode \<and> lookup_vector st = entries env mode L \<and> load_inv env U ms0 (modules_vector st) L \<and>
        modules_wf ms0 \<and> (mode = PLC_SYMBOL_BL_WL \<or> plain_modules ms0) \<and>
        (\<forall>M f. selects ms0 M f = sel mode wl bl M f) \<and> S \<subseteq> U \<and>
        (\<forall>md \<in> S. \<forall>e. entry_of ms0 (md_name md) = Some e \<longrightarrow> (md, e) \<in> set L))"

lemma should_instrument_state:
  "snd (should_instrument_module env md st) =
     st\<lparr>lookup_vector := lookup_or_load_module env (st_mode st) (modules_vector st) md (lookup_vector st)\<rparr>"
  by (simp add: should_instrument_module_def Let_def split: option.split)

lemma sym_reach_inv:
  assumes "sym_reach env U st0 st S"
    and mode: "st_mode st0 \<in> {PLC_SYMBOL_BL_ONLY, PLC_SYMBOL_WL_ONLY, PLC_SYMBOL_BL_WL}"
    and new: "modules_vector st0 = []" "lookup_vector st0 = []"
    and files: "file_lines env (whitelist_filename st0) = Some wl" "file_lines env (blacklist_filename st0) = Some bl"
    and U: "modules_ok env U"
  shows "sym_inv env U (st_mode st0) wl bl st S"
  using assms(1)
proof (induction rule: sym_reach.induct)
  case (start st)
  from generate_ok [OF mode new files] obtain st1 where
    1: "symbol_client_mode_manager env st0 = Inr (load_lookup_from_modules_vector env st1)"
      "st_mode st1 = st_mode st0" "lookup_vector st1 = []" "modules_wf (modules_vector st1)"
      "st_mode st0 = PLC_SYMBOL_BL_WL \<or> plain_modules (modules_vector st1)"
      "\<forall>M f. selects (modules_vector st1) M f = sel (st_mode st0) wl bl M f" by metis
  let ?ms = "modules_vector st1"
  have "load_inv env U ?ms ([] @ ?ms) []"
  proof -
    have "entry_of ?ms (mod_name e) = Some e" if "e \<in> set ?ms" for e
      using that entry_of_nth [of ?ms] 1(4) by (auto simp: in_set_conv_nth modules_wf_def)
    then show ?thesis using U 1(4) entry_of_Some by (auto simp: load_inv_def)
  qed
  from load_lookup_loop_ok [OF this, of "st_mode st0"] obtain mv L where
    2: "load_lookup_loop env (st_mode st0) [] ?ms [] = (mv, entries env (st_mode st0) L)" "load_inv env U ?ms mv L"
      "\<forall>m \<in> set ?ms. \<forall>md. dr_lookup_module_by_name env (mod_name m) = Some md \<longrightarrow> (md, m) \<in> set L"
    by (auto simp: entries_def)
  have "st = st1\<lparr>modules_vector := mv, lookup_vector := entries env (st_mode st0) L\<rparr>"
    using start 1(1-3) 2(1) by (simp add: load_lookup_from_modules_vector_def)
  moreover have "{md. dr_lookup_module_by_name env (md_name md) = Some md} \<subseteq> U" using U by (auto simp: modules_ok_def)
  moreover have "\<forall>md. dr_lookup_module_by_name env (md_name md) = Some md \<longrightarrow>
      (\<forall>e. entry_of ?ms (md_name md) = Some e \<longrightarrow> (md, e) \<in> set L)"
    using 2(3) entry_of_Some by metis
  ultimately show ?case using 1 2(2) unfolding sym_inv_def by (intro exI [of _ ?ms] exI [of _ L]) simp
next
  case (load st S md)
  then obtain ms0 L where i: "st_mode st = st_mode st0" "lookup_vector st = entries env (st_mode st0) L"
      "load_inv env U ms0 (modules_vector st) L" "modules_wf ms0" "st_mode st0 = PLC_SYMBOL_BL_WL \<or> plain_modules ms0"
      "\<forall>M f. selects ms0 M f = sel (st_mode st0) wl bl M f" "S \<subseteq> U"
      "\<forall>md \<in> S. \<forall>e. entry_of ms0 (md_name md) = Some e \<longrightarrow> (md, e) \<in> set L"
    by (auto simp: sym_inv_def)
  from lookup_or_load_ok [OF i(3) load.hyps(2), of "st_mode st0"] obtain L' where
    "lookup_or_load_module env (st_mode st0) (modules_vector st) md (entries env (st_mode st0) L) = entries env (st_mode st0) L'"
    "load_inv env U ms0 (modules_vector st) L'" "set L \<subseteq> set L'"
    "\<forall>e. entry_of ms0 (md_name md) = Some e \<longrightarrow> (md, e) \<in> set L'" by metis
  with i load.hyps(2) show ?case
    unfolding sym_inv_def should_instrument_state by (intro exI [of _ ms0] exI [of _ L']) auto
qed

section \<open>The decision\<close>

text \<open>What the lists ask for.\<close>

definition wanted :: "padloc_symbol_mode \<Rightarrow> string list \<Rightarrow> string list \<Rightarrow> string \<Rightarrow> string \<Rightarrow> bool" where
  "wanted mode wl bl M f =
     (case mode of
        PLC_SYMBOL_WL_ONLY \<Rightarrow> listed wl M f
      | PLC_SYMBOL_BL_ONLY \<Rightarrow> \<not> listed bl M f
      | PLC_SYMBOL_BL_WL \<Rightarrow> listed wl M f \<and> \<not> listed bl M f
      | PLC_SYMBOL_NOLOOKUP \<Rightarrow> True
      | _ \<Rightarrow> False)"

abbreviation list_modes :: "padloc_symbol_mode set" where
  "list_modes \<equiv> {PLC_SYMBOL_BL_ONLY, PLC_SYMBOL_WL_ONLY, PLC_SYMBOL_BL_WL}"

lemma wanted_sel: "mode \<in> list_modes \<Longrightarrow> wanted mode wl bl M f = (sel mode wl bl M f \<noteq> (mode = PLC_SYMBOL_BL_ONLY))"
  by (auto simp: wanted_def sel_def)

lemma found_selects:
  assumes inv: "load_inv env U ms0 mv L" and md: "md \<in> U" "\<forall>e. entry_of ms0 (md_name md) = Some e \<longrightarrow> (md, e) \<in> set L"
    and pc: "in_symbol env md f pc" and pl: "mode = PLC_SYMBOL_BL_WL \<or> plain_modules ms0"
  shows "lookup_find (entries env mode L) pc PLC_LOOKUP_SYMBOL \<noteq> None \<longleftrightarrow> selects ms0 (md_name md) f"
proof -
  have ok: "module_ok md" using inv md(1) by (simp add: load_inv_def modules_ok_def)
  then have r: "range_contains (md_range md) pc" using pc by (simp add: module_ok_def in_symbol_def)
  have "(md, e) \<in> set L \<longleftrightarrow> entry_of ms0 (md_name md) = Some e" for e
    using inv md(2) by (auto simp: load_inv_def)
  then have "lookup_find (entries env mode L) pc PLC_LOOKUP_SYMBOL \<noteq> None \<longleftrightarrow>
      (\<exists>e. entry_of ms0 (md_name md) = Some e \<and> lookup_entry_contains (load_entry env mode md e) pc PLC_LOOKUP_SYMBOL)"
    unfolding find_entries [OF inv md(1) r] by blast
  also have "\<dots> \<longleftrightarrow> selects ms0 (md_name md) f"
  proof (cases "entry_of ms0 (md_name md)")
    case (Some e)
    then have "mode = PLC_SYMBOL_BL_WL \<or> (all_symbols e \<longrightarrow> symbols e = [])"
      using pl entry_of_Some by (auto simp: plain_modules_def)
    from load_entry_symbol [OF ok pc this] Some show ?thesis by (simp add: selects_def)
  qed (simp add: selects_def)
  finally show ?thesis .
qed

text \<open>C6. The decision for a block is what the lists say. After the lists have been read and any modules
  have been loaded in any order, a block whose address belongs to a symbol of a module the client
  has seen is instrumented exactly when the symbol (or its whole module) is on the whitelist and
  neither is on the blacklist; the order and the repetition of the lines, and when the module was
  loaded, make no difference.\<close>

theorem block_decision:
  assumes "sym_reach env U st0 st S" "st_mode st0 \<in> list_modes"
    and "modules_vector st0 = []" "lookup_vector st0 = []"
    and "file_lines env (whitelist_filename st0) = Some wl" "file_lines env (blacklist_filename st0) = Some bl"
    and "modules_ok env U" "md \<in> S" "in_symbol env md f pc" "pc \<noteq> 0"
  shows "needs_to_instrument st (Some (Some pc)) = wanted (st_mode st0) wl bl (md_name md) f"
proof -
  from sym_reach_inv [OF assms(1-7)] obtain ms0 L where i: "st_mode st = st_mode st0"
      "lookup_vector st = entries env (st_mode st0) L" "load_inv env U ms0 (modules_vector st) L"
      "st_mode st0 = PLC_SYMBOL_BL_WL \<or> plain_modules ms0" "\<forall>M f. selects ms0 M f = sel (st_mode st0) wl bl M f" "S \<subseteq> U"
      "\<forall>md \<in> S. \<forall>e. entry_of ms0 (md_name md) = Some e \<longrightarrow> (md, e) \<in> set L"
    by (auto simp: sym_inv_def)
  have "lookup_find (lookup_vector st) pc PLC_LOOKUP_SYMBOL \<noteq> None \<longleftrightarrow> sel (st_mode st0) wl bl (md_name md) f"
    using found_selects [OF i(3) _ _ assms(9) i(4)] i assms(8) by auto
  then show ?thesis
    using assms(2,10) i(1) unfolding wanted_sel [OF assms(2)] by (auto simp: needs_to_instrument_def)
qed

text \<open>C7. No wanted block is lost by skipping its module: a module some symbol of which is wanted is
  reported for instrumentation when it is loaded.\<close>

theorem wanted_module_instrumented:
  assumes "sym_reach env U st0 st S" "st_mode st0 \<in> list_modes"
    and "modules_vector st0 = []" "lookup_vector st0 = []"
    and "file_lines env (whitelist_filename st0) = Some wl" "file_lines env (blacklist_filename st0) = Some bl"
    and "modules_ok env U" "md \<in> U" "wanted (st_mode st0) wl bl (md_name md) f"
  shows "fst (should_instrument_module env md st)"
proof -
  from sym_reach_inv [OF sym_reach.load [OF assms(1,8)] assms(2-7)] obtain ms0 L where i: "st_mode st = st_mode st0"
      "lookup_or_load_module env (st_mode st) (modules_vector st) md (lookup_vector st) = entries env (st_mode st0) L"
      "load_inv env U ms0 (modules_vector st) L"
      "st_mode st0 = PLC_SYMBOL_BL_WL \<or> plain_modules ms0" "\<forall>M f. selects ms0 M f = sel (st_mode st0) wl bl M f"
      "\<forall>e. entry_of ms0 (md_name md) = Some e \<longrightarrow> (md, e) \<in> set L"
    by (auto simp: sym_inv_def should_instrument_state)
  have w: "sel (st_mode st0) wl bl (md_name md) f \<noteq> (st_mode st0 = PLC_SYMBOL_BL_ONLY)"
    using assms(9) wanted_sel [OF assms(2)] by simp
  show ?thesis
  proof (cases "lookup_find (entries env (st_mode st0) L) (md_start md) PLC_LOOKUP_MODULE")
    case None
    then have "entry_of ms0 (md_name md) = None" using find_start [OF i(3) assms(8)] i(6) by (cases "entry_of ms0 (md_name md)") auto
    then have "\<not> selects ms0 (md_name md) f" by (simp add: selects_def)
    then have "\<not> sel (st_mode st0) wl bl (md_name md) f" using i(5) by simp
    then show ?thesis using w None i(1,2) by (auto simp: should_instrument_module_def Let_def)
  next
    case (Some x)
    from find_entry_Some [OF this] obtain md' e where x: "(md', e) \<in> set L" "x = load_entry env (st_mode st0) md' e"
        "lookup_entry_contains x (md_start md) PLC_LOOKUP_MODULE" by blast
    have "md' = md"
    proof -
      have U: "md' \<in> U" "module_ok md'" "module_ok md" using i(3) x(1) assms(7,8) by (auto simp: load_inv_def modules_ok_def)
      have "in_module md' (md_start md)" using x(2,3) by (simp add: load_entry_module)
      then have "range_contains (md_range md') (md_start md)" "range_contains (md_range md) (md_start md)"
        using U(2,3) unfolding module_ok_def by blast+
      then show ?thesis using U(1) assms(7,8) unfolding modules_ok_def by blast
    qed
    then have e: "entry_of ms0 (md_name md) = Some e" using i(3) x(1) by (auto simp: load_inv_def)
    have "\<not> le_total x" if "st_mode st0 = PLC_SYMBOL_BL_ONLY"
    proof
      assume "le_total x"
      then have "all_symbols e" using x(2) by (simp add: load_entry_def)
      moreover from this have "symbols e = []" using i(4) that entry_of_Some [OF e] by (auto simp: plain_modules_def)
      ultimately have "selects ms0 (md_name md) f" using e by (simp add: selects_def)
      then show False using w i(5) that by simp
    qed
    then show ?thesis using Some i(1,2) assms(2) by (auto simp: should_instrument_module_def Let_def)
  qed
qed

section \<open>A concrete run\<close>

definition demo_module :: module_data where
  "demo_module = \<lparr>md_start = 4096, md_end = 8192, md_name = ''a.out'', md_contiguous = True, md_segments = []\<rparr>"

text \<open>Two symbols, \<open>f\<close> at offsets 256 to 511 and \<open>g\<close> at 512 to 767; \<open>a.out\<close> is whitelisted and \<open>g\<close> is not wanted.\<close>

definition demo_sym_env :: sym_env where
  "demo_sym_env =
     \<lparr>dr_lookup_module = (\<lambda>pc. Some demo_module), dr_lookup_module_by_name = (\<lambda>n. None),
      drsym_lookup_symbol = (\<lambda>md s. if s = ''a.out!f'' then Some 256 else if s = ''a.out!g'' then Some 512 else None),
      drsym_lookup_address = (\<lambda>md off. (DRSYM_SUCCESS, \<lparr>info_name = [], start_offs = off, end_offs = off + 256\<rparr>)),
      file_lines = (\<lambda>n. Some (if n = ''wl'' then [''# mine'', ''  a.out''] else [''a.out!g # slow'']))\<rparr>"

definition demo_sym_state :: sym_state where
  "demo_sym_state =
     \<lparr>st_mode = PLC_SYMBOL_BL_WL, modules_vector = [], lookup_vector = [], whitelist_parsed = False,
      whitelist_filename = ''wl'', blacklist_filename = ''bl'', oldModule = 0, oldPos = 0\<rparr>"

lemma demo_reach: "\<exists>st. sym_reach demo_sym_env {demo_module} demo_sym_state st {demo_module}"
proof -
  from generate_ok [of demo_sym_state demo_sym_env "[''# mine'', ''  a.out'']" "[''a.out!g # slow'']"]
  obtain st1 where "symbol_client_mode_manager demo_sym_env demo_sym_state = Inr (load_lookup_from_modules_vector demo_sym_env st1)"
    by (auto simp: demo_sym_state_def demo_sym_env_def)
  from sym_reach.load [OF sym_reach.start [OF this], of demo_module "{demo_module}"] show ?thesis
    by (auto simp: demo_sym_env_def)
qed

lemma demo_modules_ok: "modules_ok demo_sym_env {demo_module}"
  by (simp add: modules_ok_def module_ok_def in_module_def demo_module_def md_range_def range_contains_def demo_sym_env_def)

lemma demo_in_symbol: "in_symbol demo_sym_env demo_module ''f'' 4400" "in_symbol demo_sym_env demo_module ''g'' 4700"
  by (auto simp: in_symbol_def in_module_def demo_module_def md_range_def range_contains_def covers_def resolve_def demo_sym_env_def)

lemma demo_directives:
  "directive ''# mine'' = None" "directive ''  a.out'' = Some (''a.out'', None)"
  "directive ''a.out!g # slow'' = Some (''a.out'', Some ''g'')"
  by code_simp+

theorem block_decision_witness:
  "\<exists>st. sym_reach demo_sym_env {demo_module} demo_sym_state st {demo_module} \<and>
     needs_to_instrument st (Some (Some 4400)) \<and> \<not> needs_to_instrument st (Some (Some 4700))"
proof -
  obtain st where r: "sym_reach demo_sym_env {demo_module} demo_sym_state st {demo_module}" using demo_reach by blast
  note d = block_decision [OF r, of "[''# mine'', ''  a.out'']" "[''a.out!g # slow'']" demo_module, OF _ _ _ _ _ demo_modules_ok]
  have "needs_to_instrument st (Some (Some 4400)) = wanted PLC_SYMBOL_BL_WL [''# mine'', ''  a.out''] [''a.out!g # slow''] ''a.out'' ''f''"
    using d [of "''f''" 4400] demo_in_symbol(1) by (simp add: demo_sym_state_def demo_sym_env_def demo_module_def)
  moreover have "needs_to_instrument st (Some (Some 4700)) = wanted PLC_SYMBOL_BL_WL [''# mine'', ''  a.out''] [''a.out!g # slow''] ''a.out'' ''g''"
    using d [of "''g''" 4700] demo_in_symbol(2) by (simp add: demo_sym_state_def demo_sym_env_def demo_module_def)
  ultimately show ?thesis using r by (auto simp: wanted_def names_def demo_directives)
qed

theorem wanted_module_instrumented_witness:
  "\<exists>st. sym_reach demo_sym_env {demo_module} demo_sym_state st {demo_module} \<and>
     fst (should_instrument_module demo_sym_env demo_module st)"
proof -
  obtain st where r: "sym_reach demo_sym_env {demo_module} demo_sym_state st {demo_module}" using demo_reach by blast
  have "fst (should_instrument_module demo_sym_env demo_module st)"
    by (rule wanted_module_instrumented [OF r, of "[''# mine'', ''  a.out'']" "[''a.out!g # slow'']" _ "''f''"])
      (simp_all add: demo_modules_ok, simp_all add: demo_sym_state_def demo_sym_env_def demo_module_def wanted_def names_def demo_directives)
  with r show ?thesis by blast
qed

end
