(* ===== verification/Plc_Arguments.thy ===== *)
theory Plc_Arguments
  imports Plc_Follow Plc_Lookup
begin

text \<open>
  The command line (utils.cpp and the parsers of symbol_config.cpp and analyse.cpp) and the
  managers that run after it.
\<close>

section \<open>State\<close>

datatype padloc_analyse_mode = PLC_ANALYSE_NOT_NEEDED | PLC_ANALYSE_NEEDED

text \<open>The statics of the three files, the file opened for the symbols and the files written so far.\<close>

record pl_state =
  log_level :: nat
  error_count :: nat
  padloc_analyse_mode :: padloc_analyse_mode
  sym_part :: sym_state
  an_part :: an_state
  symbol_file :: "string option"
  written :: "(string \<times> string list) list"

text \<open>The rest of the system: the modules and symbols, the decoder, and the files that can be opened for writing.\<close>

record pl_env =
  env_sym :: sym_env
  env_an :: an_env
  can_write :: "string \<Rightarrow> bool"

definition get_symbol_mode :: "pl_state \<Rightarrow> padloc_symbol_mode" where
  "get_symbol_mode st = st_mode (sym_part st)"

definition set_symbol_mode :: "padloc_symbol_mode \<Rightarrow> pl_state \<Rightarrow> pl_state" where
  "set_symbol_mode mode st = st\<lparr>sym_part := (sym_part st)\<lparr>st_mode := mode\<rparr>\<rparr>"

definition inc_error :: "pl_state \<Rightarrow> pl_state" where
  "inc_error st = st\<lparr>error_count := error_count st + 1\<rparr>"

definition reset_error_count :: "pl_state \<Rightarrow> pl_state" where
  "reset_error_count st = st\<lparr>error_count := 0\<rparr>"

definition UNKNOWN_ARGUMENT :: nat where "UNKNOWN_ARGUMENT = 3"

section \<open>The parsers\<close>

text \<open>A parser gets the argument, its index and the arguments; it returns whether to stop, the index of the last
  argument it took and the state.\<close>

definition loglevel_argument :: "nat \<Rightarrow> string list \<Rightarrow> pl_state \<Rightarrow> (bool \<times> nat \<times> pl_state) cres" where
  "loglevel_argument i argv st =
     (if i < length argv
      then (if \<not> is_number (argv ! i) then Inr (True, i, set_symbol_mode PLC_SYMBOL_HELP st)
            else bind_res (stoi (argv ! i)) (\<lambda>level.
              Inr (False, i, if level \<le> 3 \<and> log_level st < level then st\<lparr>log_level := level\<rparr> else st)))
      else Inr (True, i, set_symbol_mode PLC_SYMBOL_HELP st))"

definition utils_argument_parser :: "string \<Rightarrow> nat \<Rightarrow> string list \<Rightarrow> pl_state \<Rightarrow> (bool \<times> nat \<times> pl_state) cres" where
  "utils_argument_parser arg i argv st =
     (if arg = ''--debug'' \<or> arg = ''-d'' then Inr (False, i, if log_level st < 1 then st\<lparr>log_level := 1\<rparr> else st)
      else if arg = ''--help'' \<or> arg = ''-h'' then Inr (True, i, st)
      else if arg = ''--loglevel'' \<or> arg = ''-l''
      then loglevel_argument (i + 1) argv st
      else Inr (False, i, inc_error st))"

definition WL_argument_detected :: "nat \<Rightarrow> string list \<Rightarrow> pl_state \<Rightarrow> bool \<times> pl_state" where
  "WL_argument_detected i argv st =
     (let st = (if get_symbol_mode st = PLC_SYMBOL_BL_ONLY \<or> get_symbol_mode st = PLC_SYMBOL_BL_WL
                then set_symbol_mode PLC_SYMBOL_BL_WL st else set_symbol_mode PLC_SYMBOL_WL_ONLY st)
      in if i < length argv then (False, st\<lparr>sym_part := (sym_part st)\<lparr>whitelist_filename := argv ! i\<rparr>\<rparr>)
         else (True, set_symbol_mode PLC_SYMBOL_HELP st))"

definition BL_argument_detected :: "nat \<Rightarrow> string list \<Rightarrow> pl_state \<Rightarrow> bool \<times> pl_state" where
  "BL_argument_detected i argv st =
     (let st = (if get_symbol_mode st = PLC_SYMBOL_WL_ONLY \<or> get_symbol_mode st = PLC_SYMBOL_BL_WL
                then set_symbol_mode PLC_SYMBOL_BL_WL st else set_symbol_mode PLC_SYMBOL_BL_ONLY st)
      in if i < length argv then (False, st\<lparr>sym_part := (sym_part st)\<lparr>blacklist_filename := argv ! i\<rparr>\<rparr>)
         else (True, set_symbol_mode PLC_SYMBOL_HELP st))"

definition G_argument_detected :: "pl_env \<Rightarrow> nat \<Rightarrow> string list \<Rightarrow> pl_state \<Rightarrow> bool \<times> pl_state" where
  "G_argument_detected env i argv st =
     (if i < length argv \<and> can_write env (argv ! i) then (False, st\<lparr>symbol_file := Some (argv ! i)\<rparr>)
      else (True, set_symbol_mode PLC_SYMBOL_HELP st))"

definition symbol_should_continue_parsing :: "pl_state \<Rightarrow> bool" where
  "symbol_should_continue_parsing st \<longleftrightarrow> get_symbol_mode st \<noteq> PLC_SYMBOL_GENERATE"

definition symbol_argument_parser :: "pl_env \<Rightarrow> string \<Rightarrow> nat \<Rightarrow> string list \<Rightarrow> pl_state \<Rightarrow> bool \<times> nat \<times> pl_state" where
  "symbol_argument_parser env arg i argv st =
     (if \<not> symbol_should_continue_parsing st then (False, i, st)
      else if arg = ''--no-lookup'' \<or> arg = ''-n'' then (False, i, set_symbol_mode PLC_SYMBOL_NOLOOKUP st)
      else if arg = ''--whitelist'' \<or> arg = ''-w''
      then (case WL_argument_detected (i + 1) argv st of (stop, st) \<Rightarrow> (stop, i + 1, st))
      else if arg = ''--blacklist'' \<or> arg = ''-b''
      then (case BL_argument_detected (i + 1) argv st of (stop, st) \<Rightarrow> (stop, i + 1, st))
      else if arg = ''--generate'' \<or> arg = ''-g''
      then (case G_argument_detected env (i + 1) argv (set_symbol_mode PLC_SYMBOL_GENERATE st) of (stop, st) \<Rightarrow> (stop, i + 1, st))
      else (False, i, inc_error st))"

definition enumerate_library ::
  "an_env \<Rightarrow> (string \<Rightarrow> u64 \<Rightarrow> an_state \<Rightarrow> (bool \<times> an_state) cres option) \<Rightarrow> an_state \<Rightarrow> (bool \<times> an_state) cres option" where
  "enumerate_library env callback st =
     (case lib_symbols env of
        None \<Rightarrow> Some (Inr (False, st))
      | Some syms \<Rightarrow> call_then (enumerate_symbols callback syms st) (\<lambda>st. Some (Inr (True, st))))"

definition AA_argument_detected :: "pl_env \<Rightarrow> string \<Rightarrow> pl_state \<Rightarrow> pl_state cres option" where
  "AA_argument_detected env file_name st =
     (case lib_data (env_an env) of
        None \<Rightarrow> Some (Inl NullDeref)
      | Some start \<Rightarrow>
          call_then (enumerate_library (env_an env) (enum_symbols_registers (env_an env)) (an_part st)) (\<lambda>(success, an).
            Some (Inr (if success \<and> can_write env file_name
                       then st\<lparr>an_part := an, written := written st @ [(file_name, write_reg_to_file an)]\<rparr>
                       else st\<lparr>an_part := an\<rparr>))))"

definition analyse_argument_parser :: "pl_env \<Rightarrow> string \<Rightarrow> nat \<Rightarrow> string list \<Rightarrow> pl_state \<Rightarrow> (bool \<times> nat \<times> pl_state) cres option" where
  "analyse_argument_parser env arg i argv st =
     (if arg = ''--analyse_abort'' \<or> arg = ''-aa''
      then (if i + 1 < length argv
            then call_then (AA_argument_detected env (argv ! (i + 1)) st) (\<lambda>st. Some (Inr (True, i + 1, st)))
            else Some (Inr (True, i + 1, st)))
      else if arg = ''--analyse_file'' \<or> arg = ''-af''
      then (if i + 1 < length argv
            then Some (bind_res (read_reg_from_file (file_lines (env_sym env) (argv ! (i + 1))) (an_part st)) (\<lambda>(stop, an).
                   Inr (stop, i + 1, st\<lparr>padloc_analyse_mode := PLC_ANALYSE_NOT_NEEDED, an_part := an\<rparr>)))
            else Some (Inr (True, i + 1, st)))
      else if arg = ''--analyse_run'' \<or> arg = ''-ar'' then Some (Inr (False, i, st))
      else Some (Inr (False, i, inc_error st)))"

section \<open>The loop\<close>

text \<open>One round of the loop: the three parsers, then the test for an unknown argument.\<close>

definition parse_argument :: "pl_env \<Rightarrow> nat \<Rightarrow> string list \<Rightarrow> pl_state \<Rightarrow> (bool \<times> nat \<times> pl_state) cres option" where
  "parse_argument env i argv st =
     (let st = reset_error_count st; arg = argv ! i in
      call_then (Some (utils_argument_parser arg i argv st)) (\<lambda>(stop, i, st).
        if stop then Some (Inr (True, i, st))
        else case symbol_argument_parser env arg i argv st of (stop, i, st) \<Rightarrow>
          if stop then Some (Inr (True, i, st))
          else call_then (analyse_argument_parser env arg i argv st) (\<lambda>(stop, i, st).
            Some (Inr (stop \<or> error_count st = UNKNOWN_ARGUMENT, i, st)))))"

lemma loglevel_index: "loglevel_argument i argv st = Inr (stop, i', st') \<Longrightarrow> i' = i"
  by (auto simp: loglevel_argument_def bind_res_Inr_iff split: if_splits)

lemma utils_index: "utils_argument_parser arg i argv st = Inr (stop, i', st') \<Longrightarrow> i \<le> i'"
  unfolding utils_argument_parser_def
  by (cases "arg = ''--debug'' \<or> arg = ''-d''"; cases "arg = ''--help'' \<or> arg = ''-h''"; cases "arg = ''--loglevel'' \<or> arg = ''-l''")
    (simp_all, (drule loglevel_index, simp)+)

lemma symbol_index: "symbol_argument_parser env arg i argv st = (stop, i', st') \<Longrightarrow> i \<le> i'"
  unfolding symbol_argument_parser_def by (simp split: if_split_asm prod.splits)

lemma analyse_index: "analyse_argument_parser env arg i argv st = Some (Inr (stop, i', st')) \<Longrightarrow> i \<le> i'"
  unfolding analyse_argument_parser_def
  by (cases "arg = ''--analyse_abort'' \<or> arg = ''-aa''"; cases "arg = ''--analyse_file'' \<or> arg = ''-af''";
      cases "arg = ''--analyse_run'' \<or> arg = ''-ar''"; cases "i + 1 < length argv")
    (simp_all add: bind_res_Inr_iff call_then_Inr_iff, (elim exE conjE; simp split: prod.splits)+)

lemmas parser_index = utils_index symbol_index analyse_index

lemma parse_argument_index:
  assumes "parse_argument env i argv st = Some (Inr (stop, i', st'))"
  shows "i \<le> i'"
proof -
  obtain stop1 i1 s1 where u: "utils_argument_parser (argv ! i) i argv (reset_error_count st) = Inr (stop1, i1, s1)"
    and r: "(if stop1 then Some (Inr (True, i1, s1))
      else case symbol_argument_parser env (argv ! i) i1 argv s1 of (stop, i2, st) \<Rightarrow>
        if stop then Some (Inr (True, i2, st))
        else call_then (analyse_argument_parser env (argv ! i) i2 argv st) (\<lambda>(stop, i, st).
          Some (Inr (stop \<or> error_count st = UNKNOWN_ARGUMENT, i, st)))) = Some (Inr (stop, i', st'))"
    using assms unfolding parse_argument_def Let_def call_then_Inr_iff by auto
  obtain stop2 i2 s2 where v: "symbol_argument_parser env (argv ! i) i1 argv s1 = (stop2, i2, s2)" by (metis prod_cases3)
  show ?thesis
    using r parser_index(1) [OF u] parser_index(2) [OF v]
    by (auto simp: v call_then_Inr_iff split: if_splits dest!: parser_index(3))
qed

function parse_arguments :: "pl_env \<Rightarrow> nat \<Rightarrow> string list \<Rightarrow> pl_state \<Rightarrow> (bool \<times> pl_state) cres option" where
  "parse_arguments env i argv st =
     (if i < length argv
      then (case parse_argument env i argv st of
              None \<Rightarrow> None
            | Some (Inl e) \<Rightarrow> Some (Inl e)
            | Some (Inr (stop, i', st)) \<Rightarrow> if stop then Some (Inr (True, st)) else parse_arguments env (i' + 1) argv st)
      else Some (Inr (False, st)))"
  by pat_completeness auto
termination
  by (relation "measure (\<lambda>(env, i, argv, st). length argv - i)") (auto dest!: parse_argument_index)

declare parse_arguments.simps [simp del]

section \<open>The managers\<close>

definition analyse_mode_manager :: "pl_env \<Rightarrow> pl_state \<Rightarrow> pl_state cres option" where
  "analyse_mode_manager env st =
     (case lib_data (env_an env) of
        None \<Rightarrow> Some (Inl NullDeref)
      | Some start \<Rightarrow>
          call_then
            (case padloc_analyse_mode st of
               PLC_ANALYSE_NEEDED \<Rightarrow>
                 call_then (enumerate_library (env_an env) (enum_symbols_registers (env_an env)) (an_part st)) (\<lambda>(success, an).
                   Some (if success then Inr (st\<lparr>an_part := an\<rparr>) else Inl Assert))
             | PLC_ANALYSE_NOT_NEEDED \<Rightarrow> Some (Inr st)) (\<lambda>st.
          call_then (enumerate_library (env_an env) (enum_symbols_sse (env_an env)) (an_part st)) (\<lambda>(success, an).
            Some (Inr (st\<lparr>an_part := an\<rparr>)))))"

definition arguments_parser :: "pl_env \<Rightarrow> string list \<Rightarrow> pl_state \<Rightarrow> (bool \<times> pl_state) cres option" where
  "arguments_parser env argv st =
     call_then (parse_arguments env 1 argv st) (\<lambda>(stop, st).
       if stop then Some (Inr (True, st))
       else call_then (Some (symbol_client_mode_manager (env_sym env) (sym_part st))) (\<lambda>sy.
            call_then (analyse_mode_manager env (st\<lparr>sym_part := sy\<rparr>)) (\<lambda>st. Some (Inr (False, st)))))"

section \<open>Unknown arguments\<close>

definition utils_names :: "string set" where
  "utils_names = {''--debug'', ''-d'', ''--help'', ''-h'', ''--loglevel'', ''-l''}"

definition symbol_names :: "string set" where
  "symbol_names = {''--no-lookup'', ''-n'', ''--whitelist'', ''-w'', ''--blacklist'', ''-b'', ''--generate'', ''-g''}"

definition analyse_names :: "string set" where
  "analyse_names = {''--analyse_abort'', ''-aa'', ''--analyse_file'', ''-af'', ''--analyse_run'', ''-ar''}"

lemma utils_unknown: "arg \<notin> utils_names \<Longrightarrow> utils_argument_parser arg i argv st = Inr (False, i, inc_error st)"
  by (simp add: utils_names_def utils_argument_parser_def)

lemma symbol_unknown:
  "arg \<notin> symbol_names \<Longrightarrow> symbol_argument_parser env arg i argv st =
     (False, i, if get_symbol_mode st = PLC_SYMBOL_GENERATE then st else inc_error st)"
  by (simp add: symbol_names_def symbol_argument_parser_def symbol_should_continue_parsing_def)

lemma analyse_unknown: "arg \<notin> analyse_names \<Longrightarrow> analyse_argument_parser env arg i argv st = Some (Inr (False, i, inc_error st))"
  by (simp add: analyse_names_def analyse_argument_parser_def)

lemma inc_error_simps [simp]:
  "error_count (inc_error st) = error_count st + 1" "get_symbol_mode (inc_error st) = get_symbol_mode st"
  "error_count (reset_error_count st) = 0" "get_symbol_mode (reset_error_count st) = get_symbol_mode st"
  by (simp_all add: inc_error_def reset_error_count_def get_symbol_mode_def)

lemma parse_unknown:
  assumes "argv ! i \<notin> utils_names \<union> symbol_names \<union> analyse_names"
  shows "parse_argument env i argv st =
    (let st1 = reset_error_count st in
     Some (Inr (get_symbol_mode st \<noteq> PLC_SYMBOL_GENERATE, i,
       if get_symbol_mode st = PLC_SYMBOL_GENERATE then inc_error (inc_error st1) else inc_error (inc_error (inc_error st1)))))"
  using assms
  by (simp add: parse_argument_def Let_def utils_unknown symbol_unknown analyse_unknown UNKNOWN_ARGUMENT_def)

text \<open>C39. An argument that no parser knows stops the parsing, except behind the option that generates the
  list of symbols: from then on unknown arguments are skipped.\<close>

theorem unknown_argument:
  assumes "i < length argv" "argv ! i \<notin> utils_names \<union> symbol_names \<union> analyse_names"
  shows "if get_symbol_mode st = PLC_SYMBOL_GENERATE
    then parse_arguments env i argv st = parse_arguments env (i + 1) argv (st\<lparr>error_count := 2\<rparr>)
    else parse_arguments env i argv st = Some (Inr (True, st\<lparr>error_count := 3\<rparr>))"
  using assms
  by (subst (1 3) parse_arguments.simps)
    (simp add: parse_unknown Let_def inc_error_def reset_error_count_def numeral_2_eq_2)

text \<open>The state at the start of the program.\<close>

definition start_state :: pl_state where
  "start_state =
     \<lparr>log_level = 0, error_count = 0, padloc_analyse_mode = PLC_ANALYSE_NEEDED,
      sym_part = \<lparr>st_mode = PLC_SYMBOL_DEFAULT, modules_vector = [], lookup_vector = [], whitelist_parsed = False,
        whitelist_filename = [], blacklist_filename = [], oldModule = 0, oldPos = 0\<rparr>,
      an_part = \<lparr>NEED_SSE_INVERSE = False, app_pc_vect = [], gpr_reg = [], float_reg = []\<rparr>,
      symbol_file = None, written = []\<rparr>"

definition demo_pl_env :: pl_env where
  "demo_pl_env = \<lparr>env_sym = demo_sym_env, env_an = demo_an_env, can_write = (\<lambda>f. f \<noteq> [])\<rparr>"

theorem unknown_argument_witness:
  "parse_arguments demo_pl_env 1 [''padloc'', ''--verbose''] start_state = Some (Inr (True, start_state\<lparr>error_count := 3\<rparr>)) \<and>
   parse_arguments demo_pl_env 1 [''padloc'', ''--verbose'', ''-d''] (set_symbol_mode PLC_SYMBOL_GENERATE start_state) =
     parse_arguments demo_pl_env 2 [''padloc'', ''--verbose'', ''-d'']
       ((set_symbol_mode PLC_SYMBOL_GENERATE start_state)\<lparr>error_count := 2\<rparr>)"
  using unknown_argument [of 1 "[''padloc'', ''--verbose'']" start_state demo_pl_env]
    unknown_argument [of 1 "[''padloc'', ''--verbose'', ''-d'']" "set_symbol_mode PLC_SYMBOL_GENERATE start_state" demo_pl_env]
  by (simp add: utils_names_def symbol_names_def analyse_names_def start_state_def get_symbol_mode_def set_symbol_mode_def
      numeral_2_eq_2)

section \<open>Well-formed command lines\<close>

datatype client_option =
    Debug | Loglevel nat | No_lookup | Whitelist string | Blacklist string | Generate string | Analyse_run

fun option_args :: "bool \<Rightarrow> client_option \<Rightarrow> string list" where
  "option_args long Debug = [if long then ''--debug'' else ''-d'']"
| "option_args long (Loglevel n) = [if long then ''--loglevel'' else ''-l'', dec_string n]"
| "option_args long No_lookup = [if long then ''--no-lookup'' else ''-n'']"
| "option_args long (Whitelist f) = [if long then ''--whitelist'' else ''-w'', f]"
| "option_args long (Blacklist f) = [if long then ''--blacklist'' else ''-b'', f]"
| "option_args long (Generate f) = [if long then ''--generate'' else ''-g'', f]"
| "option_args long Analyse_run = [if long then ''--analyse_run'' else ''-ar'']"

fun option_ok :: "pl_env \<Rightarrow> client_option \<Rightarrow> bool" where
  "option_ok env (Loglevel n) \<longleftrightarrow> n < 2 ^ 31"
| "option_ok env (Generate f) \<longleftrightarrow> can_write env f"
| "option_ok env _ \<longleftrightarrow> True"

fun is_symbol_option :: "client_option \<Rightarrow> bool" where
  "is_symbol_option No_lookup = True"
| "is_symbol_option (Whitelist f) = True"
| "is_symbol_option (Blacklist f) = True"
| "is_symbol_option (Generate f) = True"
| "is_symbol_option _ = False"

definition with_lists :: "bool \<Rightarrow> bool \<Rightarrow> padloc_symbol_mode" where
  "with_lists w b =
     (if w then if b then PLC_SYMBOL_BL_WL else PLC_SYMBOL_WL_ONLY
      else if b then PLC_SYMBOL_BL_ONLY else PLC_SYMBOL_NOLOOKUP)"

fun option_step :: "client_option \<Rightarrow> pl_state \<Rightarrow> pl_state" where
  "option_step Debug st = st\<lparr>log_level := max (log_level st) 1\<rparr>"
| "option_step (Loglevel n) st = (if n \<le> 3 then st\<lparr>log_level := max (log_level st) n\<rparr> else st)"
| "option_step No_lookup st = set_symbol_mode PLC_SYMBOL_NOLOOKUP st"
| "option_step (Whitelist f) st =
     st\<lparr>sym_part := (sym_part st)\<lparr>st_mode := with_lists True (get_symbol_mode st \<in> {PLC_SYMBOL_BL_ONLY, PLC_SYMBOL_BL_WL}),
          whitelist_filename := f\<rparr>\<rparr>"
| "option_step (Blacklist f) st =
     st\<lparr>sym_part := (sym_part st)\<lparr>st_mode := with_lists (get_symbol_mode st \<in> {PLC_SYMBOL_WL_ONLY, PLC_SYMBOL_BL_WL}) True,
          blacklist_filename := f\<rparr>\<rparr>"
| "option_step (Generate f) st = (set_symbol_mode PLC_SYMBOL_GENERATE st)\<lparr>symbol_file := Some f\<rparr>"
| "option_step Analyse_run st = st"

lemma arguments_at:
  assumes "drop i argv = x # xs"
  shows "i < length argv" "argv ! i = x" "drop (Suc i) argv = xs"
proof -
  show i: "i < length argv" using assms by (metis drop_all linorder_not_le list.distinct(1))
  show "argv ! i = x" "drop (Suc i) argv = xs" using Cons_nth_drop_Suc [OF i] assms by auto
qed

lemma argument_at:
  assumes "drop i argv = x # y # xs"
  shows "Suc i < length argv" "argv ! Suc i = y" "drop (Suc (Suc i)) argv = xs"
  using arguments_at [OF arguments_at(3) [OF assms]] by simp_all

lemmas known_names = utils_names_def symbol_names_def analyse_names_def

lemma with_lists_modes:
  "with_lists True (m = PLC_SYMBOL_BL_ONLY \<or> m = PLC_SYMBOL_BL_WL) =
     (if m = PLC_SYMBOL_BL_ONLY \<or> m = PLC_SYMBOL_BL_WL then PLC_SYMBOL_BL_WL else PLC_SYMBOL_WL_ONLY)"
  "with_lists (m = PLC_SYMBOL_WL_ONLY \<or> m = PLC_SYMBOL_BL_WL) True =
     (if m = PLC_SYMBOL_WL_ONLY \<or> m = PLC_SYMBOL_BL_WL then PLC_SYMBOL_BL_WL else PLC_SYMBOL_BL_ONLY)"
  by (simp_all add: with_lists_def)

lemma parse_utils_option:
  assumes "arg \<in> utils_names" "argv ! i = arg"
    and "utils_argument_parser arg i argv (reset_error_count st) = Inr (False, i', st')" "error_count st' = 0"
  shows "parse_argument env i argv st =
    Some (Inr (False, i', st'\<lparr>error_count := if get_symbol_mode st' = PLC_SYMBOL_GENERATE then 1 else 2\<rparr>))"
proof -
  have "arg \<notin> symbol_names" "arg \<notin> analyse_names" using assms(1) by (auto simp: known_names)
  then show ?thesis using assms(2-4)
    by (simp add: parse_argument_def symbol_unknown analyse_unknown UNKNOWN_ARGUMENT_def inc_error_def)
qed

lemma parse_symbol_option:
  assumes "arg \<in> symbol_names" "argv ! i = arg"
    and "symbol_argument_parser env arg i argv (inc_error (reset_error_count st)) = (False, i', st')" "error_count st' = 1"
  shows "parse_argument env i argv st = Some (Inr (False, i', st'\<lparr>error_count := 2\<rparr>))"
proof -
  have "arg \<notin> utils_names" "arg \<notin> analyse_names" using assms(1) by (auto simp: known_names)
  then show ?thesis using assms(2-4)
    by (simp add: parse_argument_def utils_unknown analyse_unknown UNKNOWN_ARGUMENT_def inc_error_def numeral_2_eq_2)
qed

lemma parse_analyse_run:
  assumes "argv ! i = ''--analyse_run'' \<or> argv ! i = ''-ar''"
  shows "parse_argument env i argv st =
    Some (Inr (False, i, st\<lparr>error_count := if get_symbol_mode st = PLC_SYMBOL_GENERATE then 1 else 2\<rparr>))"
proof -
  have "argv ! i \<notin> utils_names" "argv ! i \<notin> symbol_names" using assms by (auto simp: known_names)
  moreover have "analyse_argument_parser env (argv ! i) i argv st = Some (Inr (False, i, st))" for st
    using assms by (auto simp: analyse_argument_parser_def)
  ultimately show ?thesis
    by (simp add: parse_argument_def Let_def utils_unknown symbol_unknown UNKNOWN_ARGUMENT_def inc_error_def reset_error_count_def
        get_symbol_mode_def numeral_2_eq_2)
qed

text \<open>The error count after an option does not matter: the next round resets it.\<close>

lemma parse_option:
  assumes at: "drop i argv = option_args long opt @ rest" and ok: "option_ok env opt"
    and g: "is_symbol_option opt \<Longrightarrow> get_symbol_mode st \<noteq> PLC_SYMBOL_GENERATE"
  obtains e where "parse_argument env i argv st =
    Some (Inr (False, i + length (option_args long opt) - 1, (option_step opt st)\<lparr>error_count := e\<rparr>))"
proof (cases "is_symbol_option opt")
  case True
  then have g: "get_symbol_mode (inc_error (reset_error_count st)) \<noteq> PLC_SYMBOL_GENERATE" using g by simp
  let ?arg = "hd (option_args long opt)" and ?i = "i + length (option_args long opt) - 1"
  have a: "argv ! i = ?arg" using at by (cases opt) (auto intro: arguments_at(2))
  have n: "?arg \<in> symbol_names" using True by (cases opt; cases long) (auto simp: known_names)
  have "symbol_argument_parser env ?arg i argv (inc_error (reset_error_count st)) =
      (False, ?i, (option_step opt st)\<lparr>error_count := 1\<rparr>)"
    using True at ok g
    by (cases opt; cases long)
      (auto simp: symbol_argument_parser_def symbol_should_continue_parsing_def WL_argument_detected_def BL_argument_detected_def
        G_argument_detected_def argument_at with_lists_modes inc_error_def reset_error_count_def set_symbol_mode_def
        get_symbol_mode_def)
  from parse_symbol_option [OF n a this] that [of 2] show ?thesis by simp
next
  case False
  then consider (u) "\<exists>n. opt = Loglevel n \<or> opt = Debug" | (r) "opt = Analyse_run" by (cases opt) auto
  then show ?thesis
  proof cases
    case u
    let ?arg = "hd (option_args long opt)" and ?i = "i + length (option_args long opt) - 1"
    have a: "argv ! i = ?arg" using at u by (auto intro: arguments_at(2))
    have n: "?arg \<in> utils_names" using u by (cases long) (auto simp: known_names)
    have "utils_argument_parser ?arg i argv (reset_error_count st) = Inr (False, ?i, (option_step opt st)\<lparr>error_count := 0\<rparr>)"
      using u at ok
      by (elim exE disjE; cases long)
        (auto simp: utils_argument_parser_def loglevel_argument_def argument_at dec_string_digits stoi_def reset_error_count_def
          max_def)
    from parse_utils_option [OF n a this] that show ?thesis by simp
  next
    case r
    with at have "argv ! i = ''--analyse_run'' \<or> argv ! i = ''-ar''" by (auto dest: arguments_at(2) split: if_splits)
    from parse_analyse_run [OF this, of env st] that r show ?thesis by simp
  qed
qed

fun generate_last :: "client_option list \<Rightarrow> bool" where
  "generate_last [] \<longleftrightarrow> True"
| "generate_last (Generate f # opts) \<longleftrightarrow> list_all (\<lambda>opt. \<not> is_symbol_option opt) opts"
| "generate_last (opt # opts) \<longleftrightarrow> generate_last opts"

lemma option_step_error [simp]: "option_step opt (st\<lparr>error_count := e\<rparr>) = (option_step opt st)\<lparr>error_count := e\<rparr>"
  by (cases opt) (simp_all add: set_symbol_mode_def get_symbol_mode_def)

lemma option_step_mode: "\<not> is_symbol_option opt \<Longrightarrow> get_symbol_mode (option_step opt st) = get_symbol_mode st"
  by (cases opt) (simp_all add: get_symbol_mode_def)

lemma option_step_generate:
  "get_symbol_mode (option_step opt st) = PLC_SYMBOL_GENERATE \<Longrightarrow>
     get_symbol_mode st = PLC_SYMBOL_GENERATE \<and> \<not> is_symbol_option opt \<or> (\<exists>f. opt = Generate f)"
  by (cases opt) (auto simp: set_symbol_mode_def get_symbol_mode_def with_lists_def split: if_splits)

lemma generate_last_Cons:
  assumes "generate_last (opt # opts)" "get_symbol_mode st = PLC_SYMBOL_GENERATE \<Longrightarrow> list_all (\<lambda>opt. \<not> is_symbol_option opt) (opt # opts)"
  shows "generate_last opts"
    "get_symbol_mode (option_step opt st) = PLC_SYMBOL_GENERATE \<Longrightarrow> list_all (\<lambda>opt. \<not> is_symbol_option opt) opts"
proof -
  have "list_all (\<lambda>opt. \<not> is_symbol_option opt) opts \<Longrightarrow> generate_last opts" for opts
    by (induction opts rule: generate_last.induct) auto
  then show "generate_last opts" using assms(1) by (cases opt) auto
  show "list_all (\<lambda>opt. \<not> is_symbol_option opt) opts" if "get_symbol_mode (option_step opt st) = PLC_SYMBOL_GENERATE"
    using option_step_generate [OF that] assms by auto
qed

lemma option_args_length: "0 < length (option_args long opt)"
  by (cases opt) simp_all

lemma parse_options:
  assumes "drop i argv = concat (map (\<lambda>(long, opt). option_args long opt) opts)" "list_all (\<lambda>(long, opt). option_ok env opt) opts"
    and "generate_last (map snd opts)"
    and "get_symbol_mode st = PLC_SYMBOL_GENERATE \<Longrightarrow> list_all (\<lambda>opt. \<not> is_symbol_option opt) (map snd opts)"
  shows "\<exists>e. parse_arguments env i argv st = Some (Inr (False, (fold option_step (map snd opts) st)\<lparr>error_count := e\<rparr>))"
  using assms
proof (induction opts arbitrary: i st)
  case Nil
  then have "\<not> i < length argv" by simp
  then show ?case by (intro exI [of _ "error_count st"]) (simp add: parse_arguments.simps)
next
  case (Cons o1 opts)
  obtain long opt where o1: "o1 = (long, opt)" by fastforce
  let ?n = "length (option_args long opt)"
  have at: "drop i argv = option_args long opt @ concat (map (\<lambda>(long, opt). option_args long opt) opts)"
    using Cons.prems(1) by (simp add: o1)
  have i: "i < length argv" using at option_args_length [of long opt] by (metis append_is_Nil_conv drop_all length_0_conv not_less less_numeral_extra(3))
  obtain e where e: "parse_argument env i argv st = Some (Inr (False, i + ?n - 1, (option_step opt st)\<lparr>error_count := e\<rparr>))"
    using parse_option [OF at, of env st] Cons.prems(2-4) by (auto simp: o1)
  have "drop (i + ?n) argv = concat (map (\<lambda>(long, opt). option_args long opt) opts)"
    using at by (metis add.commute append_eq_conv_conj drop_drop)
  from Cons.IH [OF this, of "(option_step opt st)\<lparr>error_count := e\<rparr>"] Cons.prems(2-4)
    generate_last_Cons [of opt "map snd opts" st]
  obtain e' where "parse_arguments env (i + ?n) argv ((option_step opt st)\<lparr>error_count := e\<rparr>) =
      Some (Inr (False, (fold option_step (map snd opts) ((option_step opt st)\<lparr>error_count := e\<rparr>))\<lparr>error_count := e'\<rparr>))"
    by (auto simp: o1 get_symbol_mode_def)
  moreover have "(fold option_step os (st\<lparr>error_count := e\<rparr>))\<lparr>error_count := e'\<rparr> = (fold option_step os st)\<lparr>error_count := e'\<rparr>"
    for os and st :: pl_state by (induction os arbitrary: st) simp_all
  moreover have "i + ?n - 1 + 1 = i + ?n" using option_args_length [of long opt] by simp
  ultimately have "parse_arguments env i argv st =
      Some (Inr (False, (fold option_step (map snd (o1 # opts)) st)\<lparr>error_count := e'\<rparr>))"
    using i e by (subst parse_arguments.simps) (simp add: o1)
  then show ?case ..
qed

text \<open>What the options ask for: the last \<open>-n\<close> forgets the lists before it.\<close>

fun raises :: "client_option \<Rightarrow> nat" where
  "raises Debug = 1"
| "raises (Loglevel n) = (if n \<le> 3 then n else 0)"
| "raises _ = 0"

definition wanted_mode :: "client_option list \<Rightarrow> padloc_symbol_mode" where
  "wanted_mode opts =
     (let recent = takeWhile (\<lambda>opt. opt \<noteq> No_lookup) (rev opts) in
      if \<exists>f. Generate f \<in> set opts then PLC_SYMBOL_GENERATE
      else with_lists (\<exists>f. Whitelist f \<in> set recent) (\<exists>f. Blacklist f \<in> set recent))"

fun whitelist_names :: "client_option list \<Rightarrow> string list" where
  "whitelist_names [] = []"
| "whitelist_names (Whitelist f # opts) = f # whitelist_names opts"
| "whitelist_names (opt # opts) = whitelist_names opts"

fun blacklist_names :: "client_option list \<Rightarrow> string list" where
  "blacklist_names [] = []"
| "blacklist_names (Blacklist f # opts) = f # blacklist_names opts"
| "blacklist_names (opt # opts) = blacklist_names opts"

lemma fold_log_level:
  "log_level (fold option_step opts st) = Max (insert (log_level st) (raises ` set opts))"
proof (induction opts arbitrary: st)
  case (Cons opt opts)
  have "log_level (option_step opt st) = max (log_level st) (raises opt)"
    by (cases opt) (simp_all add: set_symbol_mode_def)
  with Cons show ?case by (cases "opts = []") (simp_all add: max.assoc)
qed simp

lemma fold_filenames:
  "whitelist_filename (sym_part (fold option_step opts st)) = last (whitelist_filename (sym_part st) # whitelist_names opts)"
  "blacklist_filename (sym_part (fold option_step opts st)) = last (blacklist_filename (sym_part st) # blacklist_names opts)"
proof (induction opts arbitrary: st)
  case (Cons opt opts)
  { case 1 show ?case using Cons.IH(1) by (cases opt) (simp_all add: set_symbol_mode_def)
  next
    case 2 show ?case using Cons.IH(2) by (cases opt) (simp_all add: set_symbol_mode_def) }
qed simp_all

lemma generate_last_snoc:
  "generate_last (opts @ [opt]) \<Longrightarrow> generate_last opts \<and> (is_symbol_option opt \<longrightarrow> \<not> (\<exists>f. Generate f \<in> set opts))"
  by (induction opts rule: generate_last.induct) (auto simp: list_all_iff)

lemma with_lists_inject:
  "with_lists w b \<in> {PLC_SYMBOL_BL_ONLY, PLC_SYMBOL_BL_WL} \<longleftrightarrow> b" "with_lists w b \<in> {PLC_SYMBOL_WL_ONLY, PLC_SYMBOL_BL_WL} \<longleftrightarrow> w"
  by (simp_all add: with_lists_def)

lemma fold_mode:
  assumes "get_symbol_mode st = PLC_SYMBOL_NOLOOKUP" "generate_last opts"
  shows "get_symbol_mode (fold option_step opts st) = wanted_mode opts"
  using assms(2)
proof (induction opts rule: rev_induct)
  case Nil
  then show ?case using assms(1) by (simp add: wanted_mode_def with_lists_def)
next
  case (snoc opt opts)
  from snoc generate_last_snoc [OF snoc.prems] have "get_symbol_mode (fold option_step opts st) = wanted_mode opts"
    "is_symbol_option opt \<longrightarrow> \<not> (\<exists>f. Generate f \<in> set opts)" by simp_all
  then show ?case
    using with_lists_inject
    by (cases opt) (auto simp: wanted_mode_def Let_def get_symbol_mode_def set_symbol_mode_def with_lists_def)
qed



section \<open>The parser returns\<close>

lemma call_then_some: "\<exists>r. m = Some r \<Longrightarrow> (\<And>x. \<exists>r. f x = Some r) \<Longrightarrow> \<exists>r. call_then m f = Some r"
  by (auto split: sum.split)

lemma enumerate_symbols_some:
  assumes "\<And>name offs st. \<exists>r. callback name offs st = Some r"
  shows "\<exists>r. enumerate_symbols callback syms st = Some r"
proof (induction syms arbitrary: st)
  case (Cons s syms)
  obtain r where r: "callback (fst s) (snd s) st = Some r" using assms by blast
  show ?case
  proof (cases r)
    case (Inr x)
    with r Cons.IH show ?thesis by (cases x; cases "fst x") auto
  qed (simp add: r)
qed simp

lemma registers_some:
  assumes "decode_ok (decode_as_bb env)"
  shows "\<exists>r. enum_symbols_registers env name offs st = Some r"
  unfolding enum_symbols_registers_def show_instr_of_symbols_def
  by (cases "lib_data env") (auto intro!: call_then_some show_block_some [OF assms])

lemma sse_some: "\<exists>r. enum_symbols_sse env name offs st = Some r"
  by (simp add: enum_symbols_sse_def split: option.split)

lemma enumerate_library_some:
  "(\<And>name offs st. \<exists>r. callback name offs st = Some r) \<Longrightarrow> \<exists>r. enumerate_library env callback st = Some r"
  unfolding enumerate_library_def
  by (cases "lib_symbols env") (auto intro!: call_then_some enumerate_symbols_some)

lemma AA_some: "decode_ok (decode_as_bb (env_an env)) \<Longrightarrow> \<exists>r. AA_argument_detected env f st = Some r"
  unfolding AA_argument_detected_def
  by (cases "lib_data (env_an env)") (auto intro!: call_then_some enumerate_library_some registers_some)

lemma parse_argument_some:
  assumes "decode_ok (decode_as_bb (env_an env))"
  shows "\<exists>r. parse_argument env i argv st = Some r"
proof -
  have "\<exists>r. analyse_argument_parser env arg i argv st = Some r" for arg i st
    unfolding analyse_argument_parser_def by (simp add: call_then_some AA_some [OF assms])
  then show ?thesis unfolding parse_argument_def Let_def
    by (intro call_then_some) (auto intro!: call_then_some split: prod.split)
qed

text \<open>C23. Reading the command line and preparing the client returns, for any arguments and any files, as long as the
  decoder moves forward: no arrangement of calls and jumps in the backend keeps the analysis busy for ever.\<close>

theorem arguments_parser_returns:
  assumes "decode_ok (decode_as_bb (env_an env))"
  shows "\<exists>r. arguments_parser env argv st = Some r"
proof -
  have p: "\<exists>r. parse_arguments env i argv st = Some r" for i st
    using assms
  proof (induction env i argv st rule: parse_arguments.induct)
    case (1 env i argv st)
    obtain r where r: "parse_argument env i argv st = Some r" using parse_argument_some [OF 1(2)] by blast
    show ?case
      using 1(1) [OF _ r] 1(2) by (subst parse_arguments.simps) (auto simp: r split: sum.split prod.split)
  qed
  have m: "\<exists>r. analyse_mode_manager env st = Some r" for st
  proof (cases "lib_data (env_an env)")
    case (Some a)
    have e: "\<exists>r. enumerate_library (env_an env) (enum_symbols_registers (env_an env)) an = Some r"
      "\<exists>r. enumerate_library (env_an env) (enum_symbols_sse (env_an env)) an = Some r" for an
      by (rule enumerate_library_some, rule registers_some sse_some, rule assms)
        (rule enumerate_library_some, rule sse_some)
    show ?thesis unfolding analyse_mode_manager_def Some option.case
      by (intro call_then_some; cases "padloc_analyse_mode st") (auto intro!: call_then_some e split: prod.split)
  qed (simp add: analyse_mode_manager_def)
  show ?thesis unfolding arguments_parser_def
  proof (rule call_then_some [OF p])
    fix x :: "bool \<times> pl_state"
    show "\<exists>r. (case x of (stop, st) \<Rightarrow> if stop then Some (Inr (True, st))
       else call_then (Some (symbol_client_mode_manager (env_sym env) (sym_part st))) (\<lambda>sy.
            call_then (analyse_mode_manager env (st\<lparr>sym_part := sy\<rparr>)) (\<lambda>st. Some (Inr (False, st))))) = Some r"
      by (cases x; cases "symbol_client_mode_manager (env_sym env) (sym_part (snd x))") (auto intro!: call_then_some m)
  qed
qed

theorem arguments_parser_returns_witness:
  "\<exists>r. arguments_parser demo_pl_env [''padloc'', ''-aa'', ''regs.txt''] start_state = Some r"
  by (rule arguments_parser_returns)
    (auto simp: demo_pl_env_def demo_an_env_def decode_ok_def demo_decode_def demo_instr_def next_pc_def instr_is_call_def)

end
