(* ===== verification/Drmgr_Events.thy ===== *)
theory Drmgr_Events
  imports Plc_Prelude
begin

text \<open>
  The lists of callbacks of ext/drmgr/drmgr.c: a growing array whose entries are marked invalid when a
  callback is removed, kept sorted by numeric priority, with named before and after constraints.
\<close>

section \<open>Data\<close>

text \<open>The callbacks of an entry, \<open>pe_cb\<close>, are written by the caller of \<open>priority_event_add\<close>: None before.
  A slot of the array that was never written is None.\<close>

record 'c pri_entry =
  pe_valid :: bool
  pe_priority :: int
  pe_name :: string
  pe_cb :: "'c option"

record 'c cb_list =
  cbs :: "'c pri_entry option list"
  num_def :: nat
  num_valid :: nat
  has_lazy :: bool
  lazy_registered :: bool

text \<open>\<open>dp_sized\<close>: the size field is at least that of the struct. A NULL pointer is None.\<close>

record drmgr_priority =
  dp_sized :: bool
  dp_name :: "string option"
  dp_before :: "string option"
  dp_after :: "string option"
  dp_priority :: int

definition default_priority :: drmgr_priority where
  "default_priority = \<lparr>dp_sized = True, dp_name = Some ''__DEFAULT__'', dp_before = None, dp_after = None, dp_priority = 0\<rparr>"

definition EVENTS_INITIAL_SZ :: nat where "EVENTS_INITIAL_SZ = 10"

abbreviation capacity :: "'c cb_list \<Rightarrow> nat" where
  "capacity l \<equiv> length (cbs l)"

section \<open>The array\<close>

definition cblist_init :: "bool \<Rightarrow> 'c cb_list" where
  "cblist_init lazy =
     \<lparr>cbs = replicate EVENTS_INITIAL_SZ None, num_def = 0, num_valid = 0, has_lazy = lazy, lazy_registered = False\<rparr>"

definition cblist_get_pri :: "'c cb_list \<Rightarrow> nat \<Rightarrow> 'c pri_entry cres" where
  "cblist_get_pri l idx =
     (if idx < capacity l then case cbs l ! idx of None \<Rightarrow> Inl Uninit | Some e \<Rightarrow> Inr e else Inl OutOfBounds)"

text \<open>The index to write to, or None for \<open>-1\<close>. The two copies that shift while growing, and the \<open>memmove\<close>
  that shifts in place, which moves one slot more than there are entries.\<close>

definition cblist_grow :: "'c cb_list \<Rightarrow> nat \<Rightarrow> 'c cb_list cres" where
  "cblist_grow l insert_at =
     (let orig_num = num_def l; l1 = l\<lparr>num_def := orig_num + 1\<rparr>; new_cap = 2 * capacity l in
      if num_def l1 \<ge> capacity l
      then (if orig_num \<le> capacity l \<and> orig_num + 1 \<le> new_cap
            then Inr (l1\<lparr>cbs := take insert_at (cbs l) @ [None] @ take (orig_num - insert_at) (drop insert_at (cbs l)) @
                              replicate (new_cap - (orig_num + 1)) None\<rparr>)
            else Inl OutOfBounds)
      else if insert_at = orig_num then Inr l1
      else let n = num_def l1 - insert_at in
           if insert_at + 1 + n \<le> capacity l
           then Inr (l1\<lparr>cbs := take (insert_at + 1) (cbs l) @ take n (drop insert_at (cbs l)) @ drop (insert_at + 1 + n) (cbs l)\<rparr>)
           else Inl OutOfBounds)"

definition cblist_shift_and_resize :: "'c cb_list \<Rightarrow> nat \<Rightarrow> (nat option \<times> 'c cb_list) cres" where
  "cblist_shift_and_resize l insert_at =
     (if insert_at > num_def l then Inr (None, l)
      else bind_res (if insert_at < num_def l then bind_res (cblist_get_pri l insert_at) (\<lambda>pri. Inr (\<not> pe_valid pri)) else Inr False) (\<lambda>free.
           if free then Inr (Some insert_at, l)
           else bind_res (if insert_at > 0 then bind_res (cblist_get_pri l (insert_at - 1)) (\<lambda>pri. Inr (\<not> pe_valid pri)) else Inr False) (\<lambda>free.
                if free then Inr (Some (insert_at - 1), l)
                else bind_res (cblist_grow l insert_at) (\<lambda>l. Inr (Some insert_at, l)))))"

section \<open>Adding a callback\<close>

definition defined :: "'c cb_list \<Rightarrow> 'c pri_entry option list cres" where
  "defined l = (if num_def l \<le> capacity l then Inr (take (num_def l) (cbs l)) else Inl OutOfBounds)"

text \<open>Whether a valid entry has the name; a loop that stops at the first one.\<close>

fun name_taken :: "string \<Rightarrow> 'c pri_entry option list \<Rightarrow> bool cres" where
  "name_taken n [] = Inr False"
| "name_taken n (None # es) = Inl Uninit"
| "name_taken n (Some pri # es) = (if pe_valid pri \<and> n = pe_name pri then Inr True else name_taken n es)"

text \<open>The loop that looks for the place: None is the return of \<open>-1\<close>, otherwise the index where it stops with
  \<open>past_after\<close> and \<open>found_before\<close>.\<close>

fun find_place :: "drmgr_priority \<Rightarrow> nat \<Rightarrow> bool \<Rightarrow> bool \<Rightarrow> 'c pri_entry option list \<Rightarrow> (nat \<times> bool \<times> bool) option cres" where
  "find_place new_pri i past_after found_before [] = Inr (Some (i, past_after, found_before))"
| "find_place new_pri i past_after found_before (None # es) = Inl Uninit"
| "find_place new_pri i past_after found_before (Some pri # es) =
     (if \<not> pe_valid pri then find_place new_pri (i + 1) past_after found_before es
      else if pe_priority pri > dp_priority new_pri then Inr (Some (i, past_after, found_before))
      else if dp_before new_pri = Some (pe_name pri)
      then (if pe_priority pri < dp_priority new_pri then Inr None else Inr (Some (i, past_after, True)))
      else find_place new_pri (i + 1) (past_after \<or> dp_after new_pri = Some (pe_name pri)) found_before es)"

definition write_pri :: "'c cb_list \<Rightarrow> nat \<Rightarrow> string \<Rightarrow> int \<Rightarrow> 'c cb_list cres" where
  "write_pri l i n p =
     (if i < capacity l
      then Inr (l\<lparr>cbs := (cbs l)[i := Some \<lparr>pe_valid = True, pe_priority = p, pe_name = n,
                                           pe_cb = (case cbs l ! i of None \<Rightarrow> None | Some e \<Rightarrow> pe_cb e)\<rparr>],
                 num_valid := num_valid l + 1,
                 lazy_registered := lazy_registered l \<or> num_valid l = 0 \<and> has_lazy l\<rparr>)
      else Inl OutOfBounds)"

definition priority_event_add :: "'c cb_list \<Rightarrow> drmgr_priority option \<Rightarrow> (nat option \<times> 'c cb_list) cres" where
  "priority_event_add l priority =
     (let new_pri = (case priority of None \<Rightarrow> default_priority | Some p \<Rightarrow> p) in
      case dp_name new_pri of
        None \<Rightarrow> Inr (None, l)
      | Some n \<Rightarrow>
          if \<not> dp_sized new_pri then Inr (None, l)
          else bind_res (defined l) (\<lambda>es.
               bind_res (if priority \<noteq> None then name_taken n es else Inr False) (\<lambda>taken.
               if taken then Inr (None, l)
               else bind_res (find_place new_pri 0 (dp_after new_pri = None) (dp_before new_pri = None) es) (\<lambda>r.
                    case r of
                      None \<Rightarrow> Inr (None, l)
                    | Some (i, past_after, found_before) \<Rightarrow>
                        if \<not> past_after then Inr (None, l)
                        else bind_res (if found_before then Inr True else name_taken (the (dp_before new_pri)) (drop i es)) (\<lambda>found.
                             if \<not> found then Inr (None, l)
                             else bind_res (cblist_shift_and_resize l i) (\<lambda>(idx, l).
                                  case idx of
                                    None \<Rightarrow> Inr (None, l)
                                  | Some i \<Rightarrow> bind_res (write_pri l i n (dp_priority new_pri)) (\<lambda>l. Inr (Some i, l))))))))"

section \<open>Removing a callback\<close>

text \<open>\<open>drmgr_generic_event_remove\<close> and \<open>drmgr_bb_cb_remove\<close> mark the first valid entry that matches; the second one
  also drops it from the array when it is the last one (\<open>shrink\<close>).\<close>

fun find_entry :: "('c \<Rightarrow> bool) \<Rightarrow> nat \<Rightarrow> 'c pri_entry option list \<Rightarrow> nat option cres" where
  "find_entry m i [] = Inr None"
| "find_entry m i (None # es) = Inl Uninit"
| "find_entry m i (Some e # es) =
     (if \<not> pe_valid e then find_entry m (i + 1) es
      else case pe_cb e of None \<Rightarrow> Inl Uninit | Some c \<Rightarrow> if m c then Inr (Some i) else find_entry m (i + 1) es)"

definition invalidate :: "'c cb_list \<Rightarrow> bool \<Rightarrow> nat \<Rightarrow> 'c cb_list" where
  "invalidate l shrink i =
     l\<lparr>cbs := (cbs l)[i := map_option (\<lambda>e. e\<lparr>pe_valid := False\<rparr>) (cbs l ! i)],
       num_valid := num_valid l - 1,
       lazy_registered := lazy_registered l \<and> \<not> (num_valid l - 1 = 0 \<and> has_lazy l),
       num_def := (if shrink \<and> i = num_def l - 1 then num_def l - 1 else num_def l)\<rparr>"

definition event_remove :: "'c cb_list \<Rightarrow> bool \<Rightarrow> ('c \<Rightarrow> bool) \<Rightarrow> (bool \<times> 'c cb_list) cres" where
  "event_remove l shrink m =
     bind_res (defined l) (\<lambda>es. bind_res (find_entry m 0 es) (\<lambda>r.
       case r of None \<Rightarrow> Inr (False, l) | Some i \<Rightarrow> Inr (True, invalidate l shrink i)))"

definition event_add :: "'c cb_list \<Rightarrow> drmgr_priority option \<Rightarrow> 'c \<Rightarrow> (bool \<times> 'c cb_list) cres" where
  "event_add l priority c =
     bind_res (priority_event_add l priority) (\<lambda>(idx, l).
       case idx of
         None \<Rightarrow> Inr (False, l)
       | Some i \<Rightarrow> if i < capacity l then Inr (True, l\<lparr>cbs := (cbs l)[i := map_option (\<lambda>e. e\<lparr>pe_cb := Some c\<rparr>) (cbs l ! i)]\<rparr>)
                   else Inl OutOfBounds)"

end
