(* ===== verification/Drmgr_Order.thy ===== *)
theory Drmgr_Order
  imports Drmgr_Events
begin

text \<open>
  The order of callbacks: \<open>priority_event_add\<close> puts a callback where its priority and its before and after
  requests allow, and refuses it exactly when there is no such place.
\<close>

section \<open>The callbacks that are delivered\<close>

definition entries :: "'c cb_list \<Rightarrow> 'c pri_entry list" where
  "entries l = map the (take (num_def l) (cbs l))"

definition live :: "'c cb_list \<Rightarrow> 'c pri_entry list" where
  "live l = filter pe_valid (entries l)"

definition cblist_ok :: "'c cb_list \<Rightarrow> bool" where
  "cblist_ok l \<longleftrightarrow>
     num_def l < capacity l \<and> None \<notin> set (take (num_def l) (cbs l)) \<and> num_valid l = length (live l) \<and>
     sorted (map pe_priority (live l)) \<and> lazy_registered l = (has_lazy l \<and> live l \<noteq> [])"

lemma map_Some_the: "None \<notin> set xs \<Longrightarrow> map Some (map the xs) = xs"
  by (induction xs) auto

lemma entries_Some: "cblist_ok l \<Longrightarrow> take (num_def l) (cbs l) = map Some (entries l)"
  unfolding cblist_ok_def entries_def using map_Some_the by metis

lemma entries_length: "cblist_ok l \<Longrightarrow> length (entries l) = num_def l"
  by (simp add: entries_def cblist_ok_def)

lemma defined_eq: "cblist_ok l \<Longrightarrow> defined l = Inr (map Some (entries l))"
  using entries_Some [of l] by (simp add: defined_def cblist_ok_def)

lemma cblist_ok_init: "cblist_ok (cblist_init lazy)"
  by (simp add: cblist_ok_def cblist_init_def live_def entries_def EVENTS_INITIAL_SZ_def)

section \<open>The place\<close>

lemma name_taken_eq: "name_taken n (map Some es) = Inr (n \<in> pe_name ` set (filter pe_valid es))"
  by (induction es) auto

text \<open>The loop of \<open>priority_event_add\<close> on the valid entries alone.\<close>

fun valid_place :: "drmgr_priority \<Rightarrow> bool \<Rightarrow> bool \<Rightarrow> 'c pri_entry list \<Rightarrow> (nat \<times> bool \<times> bool) option" where
  "valid_place np pa fb [] = Some (0, pa, fb)"
| "valid_place np pa fb (v # vs) =
     (if pe_priority v > dp_priority np then Some (0, pa, fb)
      else if dp_before np = Some (pe_name v) then (if pe_priority v < dp_priority np then None else Some (0, pa, True))
      else map_option (\<lambda>(n, r). (Suc n, r)) (valid_place np (pa \<or> dp_after np = Some (pe_name v)) fb vs))"

text \<open>The index in the array of the valid entry with a number.\<close>

fun slot_of :: "'c pri_entry list \<Rightarrow> nat \<Rightarrow> nat" where
  "slot_of [] n = 0"
| "slot_of (e # es) n = (if pe_valid e then (case n of 0 \<Rightarrow> 0 | Suc m \<Rightarrow> Suc (slot_of es m)) else Suc (slot_of es n))"

lemma find_place_eq:
  "find_place np i pa fb (map Some es) =
     Inr (map_option (\<lambda>(n, r). (i + slot_of es n, r)) (valid_place np pa fb (filter pe_valid es)))"
proof (induction es arbitrary: i pa)
  case (Cons e es)
  have "map_option (\<lambda>(n, r). (Suc i + slot_of es n, r)) x = map_option (\<lambda>(n, r). (i + Suc (slot_of es n), r)) x"
    for x :: "(nat \<times> bool \<times> bool) option" by simp
  with Cons show ?case by (simp add: option.map_comp comp_def split_def)
qed simp

lemma slot_of_le: "n \<le> length (filter pe_valid es) \<Longrightarrow> slot_of es n \<le> length es"
  by (induction es n rule: slot_of.induct) (auto split: nat.splits)

lemma slot_of_split:
  "n \<le> length (filter pe_valid es) \<Longrightarrow> filter pe_valid (take (slot_of es n) es) = take n (filter pe_valid es) \<and>
     filter pe_valid (drop (slot_of es n) es) = drop n (filter pe_valid es)"
  by (induction es n rule: slot_of.induct) (auto split: nat.splits)

text \<open>What a place must satisfy, and the whole decision of \<open>priority_event_add\<close>.\<close>

definition fits :: "drmgr_priority \<Rightarrow> 'c pri_entry list \<Rightarrow> 'c pri_entry list \<Rightarrow> bool" where
  "fits np xs ys \<longleftrightarrow>
     (\<forall>e \<in> set xs. pe_priority e \<le> dp_priority np) \<and> (\<forall>e \<in> set ys. dp_priority np \<le> pe_priority e) \<and>
     (\<forall>b. dp_before np = Some b \<longrightarrow> b \<notin> pe_name ` set xs \<and> b \<in> pe_name ` set ys) \<and>
     (\<forall>a. dp_after np = Some a \<longrightarrow> a \<in> pe_name ` set xs)"

definition place :: "drmgr_priority \<Rightarrow> 'c pri_entry list \<Rightarrow> nat option" where
  "place np vs =
     (case valid_place np (dp_after np = None) (dp_before np = None) vs of
        None \<Rightarrow> None
      | Some (n, pa, fb) \<Rightarrow> if pa \<and> (fb \<or> the (dp_before np) \<in> pe_name ` set (drop n vs)) then Some n else None)"

lemma valid_place_Some:
  assumes "valid_place np pa fb vs = Some (n, pa', fb')"
  shows "n \<le> length vs \<and> (\<forall>v \<in> set (take n vs). pe_priority v \<le> dp_priority np \<and> dp_before np \<noteq> Some (pe_name v)) \<and>
    (pa' \<longleftrightarrow> pa \<or> (\<exists>v \<in> set (take n vs). dp_after np = Some (pe_name v))) \<and>
    (n < length vs \<longrightarrow> (pe_priority (vs ! n) > dp_priority np \<and> fb' = fb) \<or>
       (dp_before np = Some (pe_name (vs ! n)) \<and> pe_priority (vs ! n) = dp_priority np \<and> fb')) \<and>
    (n = length vs \<longrightarrow> fb' = fb)"
  using assms
proof (induction vs arbitrary: pa n)
  case (Cons v vs)
  show ?case
  proof (cases "pe_priority v > dp_priority np \<or> dp_before np = Some (pe_name v)")
    case True
    with Cons.prems show ?thesis by (auto split: if_splits)
  next
    case False
    with Cons.prems obtain m where "n = Suc m" "valid_place np (pa \<or> dp_after np = Some (pe_name v)) fb vs = Some (m, pa', fb')"
      by auto
    with Cons.IH [OF this(2)] False show ?thesis by auto
  qed
qed simp

lemma valid_place_None:
  "valid_place np pa fb vs = None \<Longrightarrow> \<exists>v \<in> set vs. dp_before np = Some (pe_name v) \<and> pe_priority v < dp_priority np"
  by (induction vs arbitrary: pa) (auto split: if_splits)

lemma sorted_drop_ge:
  assumes "sorted (map pe_priority vs)" "n < length vs" "v \<in> set (drop n vs)"
  shows "pe_priority (vs ! n) \<le> pe_priority v"
proof -
  have "sorted (map pe_priority (drop n vs))" using assms(1) by (simp add: drop_map [symmetric] sorted_wrt_drop)
  moreover have "drop n vs = vs ! n # drop (Suc n) vs" using assms(2) by (rule Cons_nth_drop_Suc [symmetric])
  ultimately show ?thesis using assms(3) by auto
qed

lemma in_drop_less: "v \<in> set (drop n vs) \<Longrightarrow> n < length vs"
  by (cases "n < length vs") simp_all

lemma place_fits:
  assumes "place np vs = Some n" "sorted (map pe_priority vs)"
  shows "n \<le> length vs" "fits np (take n vs) (drop n vs)"
    "dp_before np = None \<Longrightarrow> \<forall>v \<in> set (drop n vs). dp_priority np < pe_priority v"
proof -
  obtain pa fb where v: "valid_place np (dp_after np = None) (dp_before np = None) vs = Some (n, pa, fb)"
    and c: "pa" "fb \<or> the (dp_before np) \<in> pe_name ` set (drop n vs)"
    using assms(1) by (auto simp: place_def split: option.splits if_splits)
  note s = valid_place_Some [OF v]
  show n: "n \<le> length vs" using s by blast
  have ge: "dp_priority np \<le> pe_priority v" if "v \<in> set (drop n vs)" for v
  proof -
    have "n < length vs" using that by (rule in_drop_less)
    with s sorted_drop_ge [OF assms(2) this that] show ?thesis by auto
  qed
  have b: "b \<in> pe_name ` set (drop n vs)" if "dp_before np = Some b" for b
  proof (cases "n < length vs \<and> dp_before np = Some (pe_name (vs ! n))")
    case True
    then have "vs ! n \<in> set (drop n vs)" by (metis Cons_nth_drop_Suc list.set_intros(1))
    with True that show ?thesis by auto
  next
    case False
    with s that n have "\<not> fb" by (cases "n = length vs") simp_all
    with c(2) that show ?thesis by simp
  qed
  show "fits np (take n vs) (drop n vs)"
    unfolding fits_def using s ge b c(1) by (auto simp: image_iff)
  show "\<forall>v \<in> set (drop n vs). dp_priority np < pe_priority v" if "dp_before np = None"
  proof
    fix v assume v: "v \<in> set (drop n vs)"
    then have l: "n < length vs" by (rule in_drop_less)
    with s that have "dp_priority np < pe_priority (vs ! n)" by simp
    with sorted_drop_ge [OF assms(2) l v] show "dp_priority np < pe_priority v" by simp
  qed
qed

lemma place_complete:
  assumes "fits np xs ys" "sorted (map pe_priority (xs @ ys))"
  shows "place np (xs @ ys) \<noteq> None"
proof -
  have nb: "\<not> (dp_before np = Some (pe_name v) \<and> pe_priority v < dp_priority np)" if "v \<in> set (xs @ ys)" for v
    using assms(1) that by (force simp: fits_def)
  then obtain n pa fb where v: "valid_place np (dp_after np = None) (dp_before np = None) (xs @ ys) = Some (n, pa, fb)"
    by (metis prod_cases3 valid_place_None option.exhaust)
  note s = valid_place_Some [OF v]
  have n: "length xs \<le> n"
  proof (rule ccontr)
    assume "\<not> length xs \<le> n"
    then have "(xs @ ys) ! n \<in> set xs" "n < length (xs @ ys)" by (simp_all add: nth_append)
    with s assms(1) show False by (fastforce simp: fits_def)
  qed
  have "set xs \<subseteq> set (take n (xs @ ys))" using n by auto
  then have "pa" using s assms(1) by (cases "dp_after np") (auto simp: fits_def image_iff)
  moreover have "fb \<or> the (dp_before np) \<in> pe_name ` set (drop n (xs @ ys))"
  proof (cases "dp_before np")
    case (Some b)
    then obtain y where y: "y \<in> set ys" "pe_name y = b" using assms(1) by (auto simp: fits_def)
    then have "y \<in> set (take n (xs @ ys)) \<or> y \<in> set (drop n (xs @ ys))" by (metis Un_iff append_take_drop_id set_append)
    with s Some y show ?thesis by auto
  qed (use s in \<open>cases "n = length (xs @ ys)"; simp\<close>)
  ultimately show ?thesis by (simp add: place_def v)
qed

section \<open>Making room\<close>

lemma nth_entries: "cblist_ok l \<Longrightarrow> i < num_def l \<Longrightarrow> cbs l ! i = Some (entries l ! i)"
  using arg_cong [OF entries_Some, of l "\<lambda>xs. xs ! i"] entries_length [of l] by simp

text \<open>The entries once the new one is written: it replaces an invalid one at or before the place, or is inserted there.\<close>

definition inserted :: "'c pri_entry list \<Rightarrow> nat \<Rightarrow> 'c pri_entry \<Rightarrow> 'c pri_entry list" where
  "inserted es i e =
     (if i < length es \<and> \<not> pe_valid (es ! i) then es[i := e]
      else if i > 0 \<and> \<not> pe_valid (es ! (i - 1)) then es[i - 1 := e]
      else take i es @ [e] @ drop i es)"

definition inserted_at :: "'c pri_entry list \<Rightarrow> nat \<Rightarrow> nat" where
  "inserted_at es i = (if \<not> (i < length es \<and> \<not> pe_valid (es ! i)) \<and> i > 0 \<and> \<not> pe_valid (es ! (i - 1)) then i - 1 else i)"

lemma filter_update_invalid:
  assumes "j < length es" "\<not> pe_valid (es ! j)"
  shows "filter pe_valid (drop j es) = filter pe_valid (drop (Suc j) es)"
    "filter pe_valid (take (Suc j) es) = filter pe_valid (take j es)"
  using assms by (simp_all add: Cons_nth_drop_Suc [symmetric] take_Suc_conv_app_nth)

lemma filter_inserted:
  assumes "i \<le> length es"
  shows "inserted_at es i < length (inserted es i e)" "inserted es i e ! inserted_at es i = e"
    "filter pe_valid (take (inserted_at es i) (inserted es i e)) = filter pe_valid (take i es)"
    "filter pe_valid (drop (Suc (inserted_at es i)) (inserted es i e)) = filter pe_valid (drop i es)"
proof -
  consider (at) "i < length es \<and> \<not> pe_valid (es ! i)"
    | (below) j where "\<not> (i < length es \<and> \<not> pe_valid (es ! i))" "i = Suc j" "\<not> pe_valid (es ! j)"
    | (new) "\<not> (i < length es \<and> \<not> pe_valid (es ! i))" "\<not> (i > 0 \<and> \<not> pe_valid (es ! (i - 1)))"
    by (cases i) auto
  then have "inserted_at es i < length (inserted es i e) \<and> inserted es i e ! inserted_at es i = e \<and>
    filter pe_valid (take (inserted_at es i) (inserted es i e)) = filter pe_valid (take i es) \<and>
    filter pe_valid (drop (Suc (inserted_at es i)) (inserted es i e)) = filter pe_valid (drop i es)"
  proof cases
    case at
    then show ?thesis using filter_update_invalid [of i es] by (simp add: inserted_def inserted_at_def)
  next
    case below
    then have "inserted es i e = es[j := e]" "inserted_at es i = j" by (auto simp: inserted_def inserted_at_def)
    with below assms filter_update_invalid [of j es] show ?thesis by simp
  next
    case new
    have "inserted es i e = take i es @ [e] @ drop i es"
      unfolding inserted_def if_not_P [OF new(1)] if_not_P [OF new(2)] by simp
    moreover have "inserted_at es i = i" using new by (auto simp: inserted_at_def)
    ultimately show ?thesis using assms by (simp add: nth_append)
  qed
  then show "inserted_at es i < length (inserted es i e)" "inserted es i e ! inserted_at es i = e"
    "filter pe_valid (take (inserted_at es i) (inserted es i e)) = filter pe_valid (take i es)"
    "filter pe_valid (drop (Suc (inserted_at es i)) (inserted es i e)) = filter pe_valid (drop i es)" by blast+
qed

lemma filter_split_at:
  "j < length es \<Longrightarrow> filter P es = filter P (take j es) @ filter P [es ! j] @ filter P (drop (Suc j) es)"
  by (subst (1) id_take_nth_drop [of j es]) simp_all

lemma cblist_grow_ok:
  assumes ok: "cblist_ok l" and i: "i \<le> num_def l"
  shows "\<exists>cs. cblist_grow l i = Inr (l\<lparr>num_def := num_def l + 1, cbs := cs\<rparr>) \<and> num_def l + 1 < length cs \<and>
    (\<forall>e. take (num_def l + 1) (cs[i := Some e]) = map Some (take i (entries l) @ [e] @ drop i (entries l)))"
proof -
  let ?n = "num_def l" and ?c = "capacity l"
  have n: "?n < ?c" using ok by (simp add: cblist_ok_def)
  have t: "map Some (take i (entries l)) = take i (cbs l)" "map Some (drop i (entries l)) = take (?n - i) (drop i (cbs l))"
    using i unfolding take_map [symmetric] drop_map [symmetric] entries_Some [OF ok, symmetric] by (simp_all add: drop_take min_def)
  consider (grow) "?n + 1 \<ge> ?c" | (last) "?n + 1 < ?c" "i = ?n" | (move) "?n + 1 < ?c" "i < ?n" using i by linarith
  then show ?thesis
  proof cases
    case grow
    let ?cs = "take i (cbs l) @ [None] @ take (?n - i) (drop i (cbs l)) @ replicate (2 * ?c - (?n + 1)) None"
    have "cblist_grow l i = Inr (l\<lparr>num_def := ?n + 1, cbs := ?cs\<rparr>)" using grow n by (simp add: cblist_grow_def Let_def)
    moreover have "?n + 1 < length ?cs" using grow n i by simp
    moreover have "take (?n + 1) (?cs[i := Some e]) = map Some (take i (entries l) @ [e] @ drop i (entries l))" for e
      using i n by (simp add: list_update_append t Suc_diff_le)
    ultimately show ?thesis by blast
  next
    case last
    then have "cblist_grow l i = Inr (l\<lparr>num_def := ?n + 1, cbs := cbs l\<rparr>)" by (simp add: cblist_grow_def Let_def)
    moreover have "take (?n + 1) ((cbs l)[i := Some e]) = map Some (take i (entries l) @ [e] @ drop i (entries l))" for e
      using last n by (simp add: entries_Some [OF ok] take_Suc_conv_app_nth entries_length [OF ok])
    ultimately show ?thesis using last(1) by blast
  next
    case move
    let ?cs = "take (i + 1) (cbs l) @ take (?n + 1 - i) (drop i (cbs l)) @ drop (i + 1 + (?n + 1 - i)) (cbs l)"
    have "cblist_grow l i = Inr (l\<lparr>num_def := ?n + 1, cbs := ?cs\<rparr>)" using move by (simp add: cblist_grow_def Let_def)
    moreover have "?n + 1 < length ?cs" using move by simp
    moreover have "take (?n + 1) (?cs[i := Some e]) = map Some (take i (entries l) @ [e] @ drop i (entries l))" for e
      using move less_imp_le [OF move(2)] by (simp add: list_update_append take_Suc_conv_app_nth t Suc_diff_le)
    ultimately show ?thesis by blast
  qed
qed

lemma cblist_shift_ok:
  assumes ok: "cblist_ok l" and i: "i \<le> num_def l"
  obtains j l' where "cblist_shift_and_resize l i = Inr (Some j, l')" "j = inserted_at (entries l) i" "num_def l' < capacity l'"
    "\<And>e. take (num_def l') ((cbs l')[j := Some e]) = map Some (inserted (entries l) i e)"
    "num_valid l' = num_valid l" "has_lazy l' = has_lazy l" "lazy_registered l' = lazy_registered l"
proof -
  have len: "length (entries l) = num_def l" by (rule entries_length [OF ok])
  have n: "num_def l < capacity l" using ok by (simp add: cblist_ok_def)
  have get: "cblist_get_pri l k = Inr (entries l ! k)" if "k < num_def l" for k
    using nth_entries [OF ok that] that n by (simp add: cblist_get_pri_def)
  have upd: "take (num_def l) ((cbs l)[k := Some e]) = map Some ((entries l)[k := e])" for k e
    by (simp add: take_update_swap entries_Some [OF ok] map_update)
  consider (at) "i < num_def l \<and> \<not> pe_valid (entries l ! i)"
    | (below) "\<not> (i < num_def l \<and> \<not> pe_valid (entries l ! i))" "i > 0 \<and> \<not> pe_valid (entries l ! (i - 1))"
    | (new) "\<not> (i < num_def l \<and> \<not> pe_valid (entries l ! i))" "\<not> (i > 0 \<and> \<not> pe_valid (entries l ! (i - 1)))" by blast
  then show ?thesis
  proof cases
    case at
    then show ?thesis using n get by (intro that [of i l]) (simp_all add: cblist_shift_and_resize_def upd inserted_def inserted_at_def len)
  next
    case below
    then show ?thesis using n get i
      by (intro that [of "i - 1" l]) (auto simp: cblist_shift_and_resize_def upd inserted_def inserted_at_def len)
  next
    case new
    obtain cs where cs: "cblist_grow l i = Inr (l\<lparr>num_def := num_def l + 1, cbs := cs\<rparr>)" "num_def l + 1 < length cs"
      "\<And>e. take (num_def l + 1) (cs[i := Some e]) = map Some (take i (entries l) @ [e] @ drop i (entries l))"
      using cblist_grow_ok [OF ok i] by blast
    show ?thesis
    proof (rule that [of i "l\<lparr>num_def := num_def l + 1, cbs := cs\<rparr>"])
      show "cblist_shift_and_resize l i = Inr (Some i, l\<lparr>num_def := num_def l + 1, cbs := cs\<rparr>)"
      proof -
        have a: "(if i < num_def l then bind_res (cblist_get_pri l i) (\<lambda>pri. Inr (\<not> pe_valid pri)) else Inr False) = Inr False"
          using new(1) get by simp
        have b: "(if i > 0 then bind_res (cblist_get_pri l (i - 1)) (\<lambda>pri. Inr (\<not> pe_valid pri)) else Inr False) = Inr False"
          using new(2) get i by (cases i) simp_all
        show ?thesis unfolding cblist_shift_and_resize_def a b using i by (simp add: cs(1))
      qed
    qed (use new i cs in \<open>auto simp: inserted_def inserted_at_def len\<close>)
  qed
qed

section \<open>Adding\<close>

lemma priority_event_add_eval:
  assumes ok: "cblist_ok l" and np: "np = (case priority of None \<Rightarrow> default_priority | Some p \<Rightarrow> p)"
    and "dp_sized np" "dp_name np = Some n"
  shows "priority_event_add l priority =
    (if priority \<noteq> None \<and> n \<in> pe_name ` set (live l) then Inr (None, l)
     else case place np (live l) of
            None \<Rightarrow> Inr (None, l)
          | Some k \<Rightarrow> bind_res (cblist_shift_and_resize l (slot_of (entries l) k)) (\<lambda>(idx, l).
              case idx of
                None \<Rightarrow> Inr (None, l)
              | Some i \<Rightarrow> bind_res (write_pri l i n (dp_priority np)) (\<lambda>l. Inr (Some i, l))))"
proof -
  have d: "name_taken b (drop (slot_of (entries l) k) (map Some (entries l))) = Inr (b \<in> pe_name ` set (drop k (live l)))"
    if "k \<le> length (live l)" for b k
    using slot_of_split [of k "entries l"] that by (simp add: drop_map name_taken_eq live_def)
  show ?thesis
  proof (cases "valid_place np (dp_after np = None) (dp_before np = None) (live l)")
    case None
    then show ?thesis using assms(3,4)
      by (simp add: priority_event_add_def np [symmetric] defined_eq [OF ok] name_taken_eq find_place_eq live_def place_def)
  next
    case (Some r)
    obtain k pa fb where r: "r = (k, pa, fb)" by (metis prod_cases3)
    have "k \<le> length (live l)" using valid_place_Some [of np _ _ "live l"] Some r by blast
    from d [OF this, of "the (dp_before np)"] Some r assms(3,4) show ?thesis
      by (simp add: priority_event_add_def np [symmetric] defined_eq [OF ok] name_taken_eq find_place_eq live_def [symmetric] place_def)
  qed
qed

lemma write_ok:
  assumes ok: "cblist_ok l" and k: "place np (live l) = Some k"
  obtains j l' e where "bind_res (cblist_shift_and_resize l (slot_of (entries l) k)) (\<lambda>(idx, l). case idx of None \<Rightarrow> Inr (None, l)
      | Some i \<Rightarrow> bind_res (write_pri l i n (dp_priority np)) (\<lambda>l. Inr (Some i, l))) = Inr (Some j, l')"
    "cblist_ok l'" "live l' = take k (live l) @ [e] @ drop k (live l)"
    "filter pe_valid (take j (entries l')) = take k (live l)" "filter pe_valid (drop (Suc j) (entries l')) = drop k (live l)" "pe_name e = n" "pe_priority e = dp_priority np" "pe_valid e"
    "j < num_def l'" "cbs l' ! j = Some e"
proof -
  have srt: "sorted (map pe_priority (live l))" using ok by (simp add: cblist_ok_def)
  note p = place_fits [OF k srt]
  have sl: "slot_of (entries l) k \<le> num_def l"
    using slot_of_le [of k "entries l"] p(1) entries_length [OF ok] by (simp add: live_def)
  obtain j l1 where l1: "cblist_shift_and_resize l (slot_of (entries l) k) = Inr (Some j, l1)" "j = inserted_at (entries l) (slot_of (entries l) k)" "num_def l1 < capacity l1"
    "\<And>e. take (num_def l1) ((cbs l1)[j := Some e]) = map Some (inserted (entries l) (slot_of (entries l) k) e)"
    "num_valid l1 = num_valid l" "has_lazy l1 = has_lazy l" "lazy_registered l1 = lazy_registered l"
    using cblist_shift_ok [OF ok sl] by blast
  define e where "e = \<lparr>pe_valid = True, pe_priority = dp_priority np, pe_name = n,
      pe_cb = (case cbs l1 ! j of None \<Rightarrow> None | Some e \<Rightarrow> pe_cb e)\<rparr>"
  define l' where "l' = l1\<lparr>cbs := (cbs l1)[j := Some e], num_valid := num_valid l1 + 1,
      lazy_registered := lazy_registered l1 \<or> num_valid l1 = 0 \<and> has_lazy l1\<rparr>"
  have t: "take (num_def l') (cbs l') = map Some (inserted (entries l) (slot_of (entries l) k) e)"
    using l1(4) by (simp add: l'_def)
  have es: "entries l' = inserted (entries l) (slot_of (entries l) k) e" by (simp add: entries_def [of l'] t comp_def)
  note ins = filter_inserted [of "slot_of (entries l) k" "entries l" e, unfolded entries_length [OF ok], OF sl, folded l1(2) es]
  have j: "j < num_def l'" using ins(1) arg_cong [OF t, of length] by (auto simp: es)
  then have w: "write_pri l1 j n (dp_priority np) = Inr l'" using l1(3) by (simp add: write_pri_def l'_def e_def)
  have tk: "filter pe_valid (take j (entries l')) = take k (live l)" "filter pe_valid (drop (Suc j) (entries l')) = drop k (live l)"
    using ins(3,4) slot_of_split [of k "entries l"] p(1) by (simp_all add: live_def)
  have v: "live l' = take k (live l) @ [e] @ drop k (live l)"
    using filter_split_at [OF ins(1), of pe_valid] unfolding live_def [symmetric] tk ins(2) by (simp add: e_def)
  have "sorted (map pe_priority (take k (live l) @ [e] @ drop k (live l)))"
    using srt p(2) unfolding fits_def
    by (auto simp: sorted_append take_map [symmetric] drop_map [symmetric] e_def sorted_wrt_take sorted_wrt_drop
        dest: in_set_takeD in_set_dropD) (auto simp: take_map drop_map intro: order_trans)
  moreover have "num_def l' < capacity l'" "num_valid l' = num_valid l + 1" "has_lazy l' = has_lazy l"
    "lazy_registered l' = (lazy_registered l \<or> num_valid l = 0 \<and> has_lazy l)"
    using l1(3,5-7) by (simp_all add: l'_def)
  ultimately have "cblist_ok l'"
    using ok p(1) unfolding cblist_ok_def t v by (auto simp: min_def)
  then show ?thesis using l1(1,3) j w v tk by (intro that [of j l' e]) (auto simp: e_def l'_def)
qed

lemma priority_event_add_spec:
  assumes ok: "cblist_ok l" and np: "np = (case priority of None \<Rightarrow> default_priority | Some p \<Rightarrow> p)"
    and "dp_sized np" "dp_name np = Some n"
  shows "if (priority \<noteq> None \<and> n \<in> pe_name ` set (live l)) \<or> (\<nexists>xs ys. live l = xs @ ys \<and> fits np xs ys)
    then priority_event_add l priority = Inr (None, l)
    else \<exists>j l' xs ys e. priority_event_add l priority = Inr (Some j, l') \<and> cblist_ok l' \<and>
      live l = xs @ ys \<and> live l' = xs @ [e] @ ys \<and> fits np xs ys \<and>
      (dp_before np = None \<longrightarrow> (\<forall>y \<in> set ys. dp_priority np < pe_priority y)) \<and>
      pe_name e = n \<and> pe_priority e = dp_priority np \<and> pe_valid e \<and> j < num_def l' \<and> cbs l' ! j = Some e \<and>
      filter pe_valid (take j (entries l')) = xs \<and> filter pe_valid (drop (Suc j) (entries l')) = ys"
proof -
  have srt: "sorted (map pe_priority (live l))" using ok by (simp add: cblist_ok_def)
  have pl: "place np (live l) = None \<longleftrightarrow> (\<nexists>xs ys. live l = xs @ ys \<and> fits np xs ys)"
    using place_complete [of np] place_fits(2) [OF _ srt, of np] srt
    by (metis append_take_drop_id not_None_eq)
  show ?thesis
  proof (cases "place np (live l)")
    case None
    then show ?thesis using pl by (simp add: priority_event_add_eval [OF assms])
  next
    case (Some k)
    obtain j l' e where w: "bind_res (cblist_shift_and_resize l (slot_of (entries l) k)) (\<lambda>(idx, l). case idx of None \<Rightarrow> Inr (None, l)
      | Some i \<Rightarrow> bind_res (write_pri l i n (dp_priority np)) (\<lambda>l. Inr (Some i, l))) = Inr (Some j, l')"
      "cblist_ok l'" "live l' = take k (live l) @ [e] @ drop k (live l)"
      "filter pe_valid (take j (entries l')) = take k (live l)" "filter pe_valid (drop (Suc j) (entries l')) = drop k (live l)" "pe_name e = n" "pe_priority e = dp_priority np" "pe_valid e"
      "j < num_def l'" "cbs l' ! j = Some e" using write_ok [OF ok Some] by blast
    show ?thesis
    proof (cases "priority \<noteq> None \<and> n \<in> pe_name ` set (live l)")
      case True
      then show ?thesis by (simp add: priority_event_add_eval [OF assms])
    next
      case False
      then have "priority_event_add l priority = Inr (Some j, l')"
        unfolding priority_event_add_eval [OF assms] Some option.case w(1) by (rule if_not_P)
      then have "\<exists>j l' xs ys e. priority_event_add l priority = Inr (Some j, l') \<and> cblist_ok l' \<and>
        live l = xs @ ys \<and> live l' = xs @ [e] @ ys \<and> fits np xs ys \<and>
        (dp_before np = None \<longrightarrow> (\<forall>y \<in> set ys. dp_priority np < pe_priority y)) \<and>
        pe_name e = n \<and> pe_priority e = dp_priority np \<and> pe_valid e \<and> j < num_def l' \<and> cbs l' ! j = Some e \<and>
        filter pe_valid (take j (entries l')) = xs \<and> filter pe_valid (drop (Suc j) (entries l')) = ys"
        using w(2-10) place_fits(2,3) [OF Some srt]
        by (intro exI [of _ j] exI [of _ l'] exI [of _ "take k (live l)"] exI [of _ "drop k (live l)"] exI [of _ e] conjI impI) simp_all
      moreover have "\<not> ((priority \<noteq> None \<and> n \<in> pe_name ` set (live l)) \<or> (\<nexists>xs ys. live l = xs @ ys \<and> fits np xs ys))"
        using False Some pl by simp
      ultimately show ?thesis by (simp only: if_False)
    qed
  qed
qed

section \<open>Adding and removing\<close>

definition deliver :: "'c cb_list \<Rightarrow> 'c list" where
  "deliver l = map (the \<circ> pe_cb) (live l)"

definition events_ok :: "'c cb_list \<Rightarrow> bool" where
  "events_ok l \<longleftrightarrow> cblist_ok l \<and> (\<forall>e \<in> set (live l). pe_cb e \<noteq> None)"

lemma events_ok_init: "events_ok (cblist_init lazy)" "deliver (cblist_init lazy) = []"
  by (simp_all add: events_ok_def cblist_ok_init) (simp_all add: deliver_def live_def entries_def cblist_init_def)

text \<open>Changing one entry of the array.\<close>

lemma change_entry:
  fixes l :: "'c cb_list"
  assumes "cblist_ok l" "j < num_def l" "cbs l' = (cbs l)[j := Some e']" "num_def l' = num_def l"
  shows "entries l' = (entries l)[j := e']" "None \<notin> set (take (num_def l') (cbs l'))"
    "live l' = filter pe_valid (take j (entries l)) @ filter pe_valid [e'] @ filter pe_valid (drop (Suc j) (entries l))"
proof -
  have t: "take (num_def l') (cbs l') = map Some ((entries l)[j := e'])"
    using entries_Some [OF assms(1)] by (simp add: assms(3,4) take_update_swap map_update)
  show e: "entries l' = (entries l)[j := e']" by (simp add: entries_def [of l'] t comp_def)
  show "None \<notin> set (take (num_def l') (cbs l'))" unfolding t by auto
  have "j < length (entries l)" using assms(2) entries_length [OF assms(1)] by simp
  then show "live l' = filter pe_valid (take j (entries l)) @ filter pe_valid [e'] @ filter pe_valid (drop (Suc j) (entries l))"
    using filter_split_at [of j "(entries l)[j := e']" pe_valid] by (simp add: live_def e)
qed

lemma event_add_ok:
  assumes ok: "events_ok l" and np: "np = (case priority of None \<Rightarrow> default_priority | Some p \<Rightarrow> p)"
    and "dp_sized np" "dp_name np = Some n"
  shows "if (priority \<noteq> None \<and> n \<in> pe_name ` set (live l)) \<or> (\<nexists>xs ys. live l = xs @ ys \<and> fits np xs ys)
    then event_add l priority c = Inr (False, l)
    else \<exists>l' xs ys e. event_add l priority c = Inr (True, l') \<and> events_ok l' \<and>
      live l = xs @ ys \<and> live l' = xs @ [e] @ ys \<and> fits np xs ys \<and>
      (dp_before np = None \<longrightarrow> (\<forall>y \<in> set ys. dp_priority np < pe_priority y)) \<and>
      pe_name e = n \<and> pe_priority e = dp_priority np \<and> pe_cb e = Some c"
proof (cases "(priority \<noteq> None \<and> n \<in> pe_name ` set (live l)) \<or> (\<nexists>xs ys. live l = xs @ ys \<and> fits np xs ys)")
  case True
  have "priority_event_add l priority = Inr (None, l)"
    using priority_event_add_spec [of l np priority n] assms unfolding if_P [OF True] by (simp add: events_ok_def)
  with True show ?thesis by (simp add: event_add_def)
next
  case False
  have "cblist_ok l" using ok by (simp add: events_ok_def)
  from priority_event_add_spec [OF this np assms(3,4), unfolded if_not_P [OF False]]
  obtain j l1 xs ys e where a: "priority_event_add l priority = Inr (Some j, l1)" "cblist_ok l1"
    "live l = xs @ ys" "live l1 = xs @ [e] @ ys" "fits np xs ys"
    "dp_before np = None \<longrightarrow> (\<forall>y \<in> set ys. dp_priority np < pe_priority y)" "pe_name e = n" "pe_priority e = dp_priority np"
    "pe_valid e" "j < num_def l1" "cbs l1 ! j = Some e" "filter pe_valid (take j (entries l1)) = xs"
    "filter pe_valid (drop (Suc j) (entries l1)) = ys"
    by (elim exE conjE) (rule that)
  let ?e = "e\<lparr>pe_cb := Some c\<rparr>" and ?l = "l1\<lparr>cbs := (cbs l1)[j := Some (e\<lparr>pe_cb := Some c\<rparr>)]\<rparr>"
  have ev: "event_add l priority c = Inr (True, ?l)" using a(1,2,10,11) by (simp add: event_add_def cblist_ok_def)
  note ce = change_entry [of l1 j ?l ?e, OF a(2,10), simplified]
  have lv: "live ?l = xs @ [?e] @ ys" using ce(3) a(9,12,13) by simp
  have "events_ok ?l" using ok a(2-4) ce(2) lv unfolding events_ok_def cblist_ok_def by auto
  with ev lv a False show ?thesis unfolding if_not_P [OF False]
    by (intro exI [of _ ?l] exI [of _ xs] exI [of _ ys] exI [of _ ?e]) simp
qed

lemma find_entry_eq:
  assumes "\<forall>e \<in> set es. pe_valid e \<longrightarrow> pe_cb e \<noteq> None"
  shows "\<exists>r. find_entry m i (map Some es) = Inr r \<and>
    (case r of None \<Rightarrow> \<forall>e \<in> set es. pe_valid e \<longrightarrow> \<not> m (the (pe_cb e))
     | Some k \<Rightarrow> i \<le> k \<and> k - i < length es \<and> pe_valid (es ! (k - i)) \<and> m (the (pe_cb (es ! (k - i)))) \<and>
         (\<forall>e \<in> set (take (k - i) es). pe_valid e \<longrightarrow> \<not> m (the (pe_cb e))))"
  using assms
proof (induction es arbitrary: i)
  case (Cons e es)
  from Cons.IH [of "i + 1"] Cons.prems obtain r where r: "find_entry m (i + 1) (map Some es) = Inr r"
    "case r of None \<Rightarrow> \<forall>e \<in> set es. pe_valid e \<longrightarrow> \<not> m (the (pe_cb e))
     | Some k \<Rightarrow> i + 1 \<le> k \<and> k - (i + 1) < length es \<and> pe_valid (es ! (k - (i + 1))) \<and> m (the (pe_cb (es ! (k - (i + 1))))) \<and>
         (\<forall>e \<in> set (take (k - (i + 1)) es). pe_valid e \<longrightarrow> \<not> m (the (pe_cb e)))" by auto
  show ?case
  proof (cases "pe_valid e \<and> m (the (pe_cb e))")
    case True
    with Cons.prems show ?thesis by auto
  next
    case False
    then have "find_entry m i (map Some (e # es)) = Inr r" using Cons.prems r(1) by auto
    with r(2) False show ?thesis by (auto split: option.splits simp: Suc_diff_Suc nth_Cons' take_Cons')
  qed
qed simp

lemma invalidate_live:
  assumes ok: "cblist_ok l" and j: "j < num_def l" and v: "pe_valid (entries l ! j)"
  defines "xs \<equiv> filter pe_valid (take j (entries l))" and "ys \<equiv> filter pe_valid (drop (Suc j) (entries l))"
  shows "live l = xs @ [entries l ! j] @ ys" "live (invalidate l shrink j) = xs @ ys" "cblist_ok (invalidate l shrink j)"
proof -
  let ?l = "invalidate l shrink j"
  have len: "length (entries l) = num_def l" by (rule entries_length [OF ok])
  show lv: "live l = xs @ [entries l ! j] @ ys"
    using filter_split_at [of j "entries l" pe_valid] j v by (simp add: live_def xs_def ys_def len)
  have cb: "cbs ?l = (cbs l)[j := Some ((entries l ! j)\<lparr>pe_valid := False\<rparr>)]"
    using nth_entries [OF ok j] by (simp add: invalidate_def)
  have m: "live ?l = xs @ ys \<and> None \<notin> set (take (num_def ?l) (cbs ?l))"
  proof (cases "shrink \<and> j = num_def l - 1")
    case True
    then have n: "num_def ?l = j" by (simp add: invalidate_def)
    have "take j (cbs ?l) = map Some (take j (entries l))"
      using arg_cong [OF entries_Some [OF ok], of "take j"] j by (simp add: cb take_map min_def)
    moreover have "ys = []" using True j by (simp add: ys_def len)
    ultimately show ?thesis by (auto simp: live_def entries_def [of ?l] n xs_def comp_def)
  next
    case False
    then have "num_def ?l = num_def l" by (auto simp: invalidate_def)
    from change_entry [OF ok j cb this] show ?thesis by (simp add: xs_def ys_def)
  qed
  then show lv': "live ?l = xs @ ys" by simp
  have "sorted (map pe_priority (xs @ ys))"
    using ok lv by (auto simp: cblist_ok_def sorted_append)
  moreover have "num_def ?l < capacity ?l" "num_valid ?l = num_valid l - 1" "has_lazy ?l = has_lazy l"
    "lazy_registered ?l = (lazy_registered l \<and> \<not> (num_valid l - 1 = 0 \<and> has_lazy l))"
    using ok j by (auto simp: invalidate_def cblist_ok_def)
  ultimately show "cblist_ok ?l" using m ok lv unfolding cblist_ok_def by auto
qed

lemma event_remove_ok:
  assumes ok: "events_ok l"
  shows "if \<exists>c \<in> set (deliver l). m c
    then \<exists>l' xs e ys. event_remove l shrink m = Inr (True, l') \<and> events_ok l' \<and> live l = xs @ [e] @ ys \<and> live l' = xs @ ys \<and>
      m (the (pe_cb e)) \<and> (\<forall>x \<in> set xs. \<not> m (the (pe_cb x)))
    else event_remove l shrink m = Inr (False, l)"
proof -
  have c: "cblist_ok l" using ok by (simp add: events_ok_def)
  have "\<forall>e \<in> set (entries l). pe_valid e \<longrightarrow> pe_cb e \<noteq> None" using ok by (simp add: events_ok_def live_def)
  from find_entry_eq [OF this, of m 0] obtain r where r: "find_entry m 0 (map Some (entries l)) = Inr r"
    "case r of None \<Rightarrow> \<forall>e \<in> set (entries l). pe_valid e \<longrightarrow> \<not> m (the (pe_cb e))
     | Some k \<Rightarrow> 0 \<le> k \<and> k - 0 < length (entries l) \<and> pe_valid (entries l ! (k - 0)) \<and> m (the (pe_cb (entries l ! (k - 0)))) \<and>
         (\<forall>e \<in> set (take (k - 0) (entries l)). pe_valid e \<longrightarrow> \<not> m (the (pe_cb e)))" by blast
  show ?thesis
  proof (cases r)
    case None
    with r c show ?thesis by (auto simp: event_remove_def defined_eq deliver_def live_def)
  next
    case (Some k)
    with r(2) have k: "k < num_def l" "pe_valid (entries l ! k)" "m (the (pe_cb (entries l ! k)))"
      "\<forall>e \<in> set (take k (entries l)). pe_valid e \<longrightarrow> \<not> m (the (pe_cb e))" by (simp_all add: entries_length [OF c])
    note iv = invalidate_live [OF c k(1,2)]
    have ev: "event_remove l shrink m = Inr (True, invalidate l shrink k)" using r(1) Some c by (simp add: event_remove_def defined_eq)
    have "events_ok (invalidate l shrink k)" using ok iv(1) iv(2,3) [of shrink] by (auto simp: events_ok_def)
    moreover have "\<exists>c \<in> set (deliver l). m c" using k(3) unfolding deliver_def iv(1) by simp
    ultimately show ?thesis using ev iv(1) iv(2) [of shrink] k(3,4) by fastforce
  qed
qed

section \<open>The interface\<close>

text \<open>
  What the rest of drmgr relies on: a callback that is accepted joins the others without changing their order, a
  refused one changes nothing, and removing takes out the first match. Delivered callbacks are those accepted and
  not removed since.
\<close>

datatype 'c cb_op = Add "drmgr_priority option" 'c | Remove 'c

locale event_list =
  fixes inv :: "'l \<Rightarrow> bool" and delivered :: "'l \<Rightarrow> 'c list"
    and add :: "'l \<Rightarrow> drmgr_priority option \<Rightarrow> 'c \<Rightarrow> (bool \<times> 'l) cres"
    and remove :: "'l \<Rightarrow> 'c \<Rightarrow> (bool \<times> 'l) cres"
  assumes add: "inv l \<Longrightarrow> \<exists>b l'. add l p c = Inr (b, l') \<and> inv l' \<and>
      (if b then \<exists>xs ys. delivered l = xs @ ys \<and> delivered l' = xs @ [c] @ ys else l' = l)"
    and remove: "inv l \<Longrightarrow> \<exists>l'. remove l c = Inr (c \<in> set (delivered l), l') \<and> inv l' \<and> delivered l' = remove1 c (delivered l)"
begin

fun run :: "'c cb_op list \<Rightarrow> 'l \<Rightarrow> (bool list \<times> 'l) cres" where
  "run [] l = Inr ([], l)"
| "run (Add p c # ops) l = bind_res (add l p c) (\<lambda>(b, l). bind_res (run ops l) (\<lambda>(bs, l). Inr (b # bs, l)))"
| "run (Remove c # ops) l = bind_res (remove l c) (\<lambda>(b, l). bind_res (run ops l) (\<lambda>(bs, l). Inr (b # bs, l)))"

fun balance :: "'c cb_op list \<Rightarrow> bool list \<Rightarrow> 'c multiset \<Rightarrow> 'c multiset" where
  "balance (Add p c # ops) (b # bs) M = balance ops bs (if b then add_mset c M else M)"
| "balance (Remove c # ops) (b # bs) M = balance ops bs (M - {#c#})"
| "balance _ _ M = M"

lemma run_ok:
  assumes "inv l"
  shows "\<exists>bs l'. run ops l = Inr (bs, l') \<and> inv l' \<and> length bs = length ops \<and>
    mset (delivered l') = balance ops bs (mset (delivered l))"
  using assms
proof (induction ops arbitrary: l)
  case (Cons op ops)
  show ?case
  proof (cases op)
    case (Add p c)
    obtain b l1 where l1: "add l p c = Inr (b, l1)" "inv l1"
      "if b then \<exists>xs ys. delivered l = xs @ ys \<and> delivered l1 = xs @ [c] @ ys else l1 = l"
      using add [OF Cons.prems, of p c] by blast
    have "mset (delivered l1) = (if b then add_mset c (mset (delivered l)) else mset (delivered l))"
      using l1(3) by (auto split: if_splits)
    with Cons.IH [OF l1(2)] l1(1) Add show ?thesis by auto
  next
    case (Remove c)
    with Cons.IH remove [OF Cons.prems, of c] show ?thesis by (fastforce)
  qed
qed simp

end

lemma event_add_total:
  assumes "events_ok l"
  shows "\<exists>b l'. event_add l p c = Inr (b, l') \<and> events_ok l' \<and>
    (if b then \<exists>xs ys. deliver l = xs @ ys \<and> deliver l' = xs @ [c] @ ys else l' = l)"
proof -
  let ?np = "case p of None \<Rightarrow> default_priority | Some p \<Rightarrow> p"
  show ?thesis
  proof (cases "\<exists>n. dp_sized ?np \<and> dp_name ?np = Some n")
    case False
    then have "priority_event_add l p = Inr (None, l)"
      by (auto simp: priority_event_add_def Let_def split: option.splits)
    with assms show ?thesis by (auto simp: event_add_def)
  next
    case True
    then obtain n where n: "dp_sized ?np" "dp_name ?np = Some n" by blast
    show ?thesis
    proof (cases "(p \<noteq> None \<and> n \<in> pe_name ` set (live l)) \<or> (\<nexists>xs ys. live l = xs @ ys \<and> fits ?np xs ys)")
      case True
      from event_add_ok [OF assms refl n, of c, unfolded if_P [OF True]] assms show ?thesis by auto
    next
      case False
      from event_add_ok [OF assms refl n, of c, unfolded if_not_P [OF False]]
      obtain l' xs ys e where "event_add l p c = Inr (True, l')" "events_ok l'" "live l = xs @ ys" "live l' = xs @ [e] @ ys" "pe_cb e = Some c"
        by (elim exE conjE) (rule that)
      then show ?thesis by (intro exI [of _ True] exI [of _ l']) (auto simp: deliver_def)
    qed
  qed
qed

lemma remove1_first:
  assumes "\<forall>x \<in> set xs. f e \<noteq> f x"
  shows "map f (xs @ ys) = remove1 (f e) (map f (xs @ [e] @ ys))"
  using assms by (induction xs) auto

lemma event_remove_total:
  assumes "events_ok l"
  shows "\<exists>l'. event_remove l shrink ((=) c) = Inr (c \<in> set (deliver l), l') \<and> events_ok l' \<and> deliver l' = remove1 c (deliver l)"
proof (cases "c \<in> set (deliver l)")
  case True
  then have ex: "\<exists>c' \<in> set (deliver l). c = c'" by blast
  from event_remove_ok [OF assms, of "(=) c" shrink, unfolded if_P [OF ex]]
  obtain l' xs e ys where e: "event_remove l shrink ((=) c) = Inr (True, l')" "events_ok l'" "live l = xs @ [e] @ ys" "live l' = xs @ ys"
    "c = the (pe_cb e)" "\<forall>x \<in> set xs. c \<noteq> the (pe_cb x)" by (elim exE conjE) (rule that)
  have "deliver l' = remove1 c (deliver l)"
    using remove1_first [of xs "the \<circ> pe_cb" e ys] e(5,6) unfolding deliver_def e(3,4) by auto
  with e(1,2) True show ?thesis by auto
next
  case False
  then have ex: "\<not> (\<exists>c' \<in> set (deliver l). c = c')" by blast
  from event_remove_ok [OF assms, of "(=) c" shrink, unfolded if_not_P [OF ex]] False assms show ?thesis
    by (simp add: remove1_idem)
qed

text \<open>The two ways of removing: the lists of block events shrink, the others do not.\<close>

interpretation block_events: event_list events_ok deliver event_add "\<lambda>l c. event_remove l True ((=) c)"
  by unfold_locales (rule event_add_total event_remove_total; assumption)+

interpretation generic_events: event_list events_ok deliver event_add "\<lambda>l c. event_remove l False ((=) c)"
  by unfold_locales (rule event_add_total event_remove_total; assumption)+

section \<open>Properties\<close>

text \<open>C12. A callback is added exactly when its name is free and some place among the registered ones respects
  the numeric priorities and the before and after requests; it goes to such a place, behind those of equal
  priority if nothing is asked for. Otherwise nothing changes.\<close>

theorem event_add_correct:
  assumes "events_ok l" "np = (case priority of None \<Rightarrow> default_priority | Some p \<Rightarrow> p)" "dp_sized np" "dp_name np = Some n"
  shows "if (priority \<noteq> None \<and> n \<in> pe_name ` set (live l)) \<or> (\<nexists>xs ys. live l = xs @ ys \<and> fits np xs ys)
    then event_add l priority c = Inr (False, l)
    else \<exists>l' xs ys e. event_add l priority c = Inr (True, l') \<and> events_ok l' \<and>
      live l = xs @ ys \<and> live l' = xs @ [e] @ ys \<and> fits np xs ys \<and>
      (dp_before np = None \<longrightarrow> (\<forall>y \<in> set ys. dp_priority np < pe_priority y)) \<and>
      pe_name e = n \<and> pe_priority e = dp_priority np \<and> pe_cb e = Some c"
  by (rule event_add_ok [OF assms])

theorem event_add_correct_witness:
  "\<exists>l' e. event_add (cblist_init False) (Some \<lparr>dp_sized = True, dp_name = Some ''a'', dp_before = None, dp_after = None, dp_priority = 7\<rparr>)
      (5 :: nat) = Inr (True, l') \<and> live l' = [e] \<and> pe_name e = ''a'' \<and> pe_priority e = 7 \<and> pe_cb e = Some 5"
proof -
  let ?p = "\<lparr>dp_sized = True, dp_name = Some ''a'', dp_before = None, dp_after = None, dp_priority = 7\<rparr> :: drmgr_priority"
  have lv: "live (cblist_init False :: nat cb_list) = []" by (simp add: live_def entries_def cblist_init_def)
  have f: "\<not> ((Some ?p \<noteq> None \<and> ''a'' \<in> pe_name ` set (live (cblist_init False :: nat cb_list))) \<or>
      (\<nexists>xs ys. live (cblist_init False :: nat cb_list) = xs @ ys \<and> fits ?p xs ys))"
    by (simp add: lv fits_def)
  show ?thesis
    using event_add_correct [of "cblist_init False :: nat cb_list" ?p "Some ?p" "''a''" "5 :: nat", unfolded if_not_P [OF f]]
    by (auto simp: lv events_ok_init)
qed

text \<open>The lists that registering and unregistering can produce.\<close>

inductive cb_reach :: "'c cb_list \<Rightarrow> bool" where
  reach_init: "cb_reach (cblist_init lazy)"
| reach_add: "cb_reach l \<Longrightarrow> event_add l p c = Inr (b, l') \<Longrightarrow> cb_reach l'"
| reach_remove: "cb_reach l \<Longrightarrow> event_remove l shrink m = Inr (b, l') \<Longrightarrow> cb_reach l'"

lemma cb_reach_ok: "cb_reach l \<Longrightarrow> events_ok l"
proof (induction rule: cb_reach.induct)
  case (reach_init lazy)
  then show ?case by (rule events_ok_init)
next
  case (reach_add l p c b l')
  then show ?case using event_add_total [of l p c] by auto
next
  case (reach_remove l shrink m b l')
  then show ?case using event_remove_ok [of l m shrink] by (auto split: if_splits)
qed

text \<open>C29. Whatever callbacks are registered and unregistered, in any order: no operation reads an entry that was never
  written or touches memory outside the array, the callbacks are delivered in the order of their priorities,
  their number is the count the list keeps, and an event that is registered lazily is registered exactly
  while there are callbacks for it.\<close>

theorem callback_lists_invariant:
  assumes "cb_reach l"
  shows "(\<exists>r. event_add l p c = Inr r) \<and> (\<exists>r. event_remove l shrink m = Inr r) \<and> num_def l < capacity l \<and>
    sorted (map pe_priority (live l)) \<and> num_valid l = length (deliver l) \<and> lazy_registered l = (has_lazy l \<and> deliver l \<noteq> [])"
proof -
  have ok: "events_ok l" by (rule cb_reach_ok [OF assms])
  then have "\<exists>r. event_add l p c = Inr r" using event_add_total [of l p c] by auto
  moreover have "\<exists>r. event_remove l shrink m = Inr r" using event_remove_ok [OF ok, of m shrink] by (auto split: if_splits)
  ultimately show ?thesis using ok by (simp add: events_ok_def cblist_ok_def deliver_def)
qed

theorem callback_lists_invariant_witness:
  "\<exists>r. event_remove (cblist_init True :: nat cb_list) True ((=) 3) = Inr r"
  using callback_lists_invariant [OF reach_init, of True None 0 True "(=) (3 :: nat)"] by blast

text \<open>C30. After any sequence of registrations and removals of block callbacks, the callbacks delivered are those accepted
  and not removed since, each as often as it was accepted.\<close>

theorem block_callbacks_balance:
  "\<exists>bs l. block_events.run ops (cblist_init lazy) = Inr (bs, l) \<and> length bs = length ops \<and> events_ok l \<and>
     mset (deliver l) = block_events.balance ops bs {#}"
  using block_events.run_ok [OF events_ok_init(1), of ops lazy] by (auto simp: events_ok_init(2))

end
