(* ===== verification/Drmgr_Blocks.thy ===== *)
theory Drmgr_Blocks
  imports Drmgr_Order
begin

text \<open>
  The block events of ext/drmgr/drmgr.c: registering callbacks for the four passes, and the delivery of a block
  to them with the user data that the callbacks of one component share.
\<close>

section \<open>State\<close>

text \<open>
  The union of an entry: \<open>cb0\<close> is \<open>xform_cb\<close>, \<open>pair.analysis_cb\<close>, \<open>app2app_ex_cb\<close>, \<open>pair_ex.analysis_ex_cb\<close> or
  \<open>instru2instru_ex_cb\<close>, \<open>cb1\<close> is \<open>pair.insertion_cb\<close> or \<open>pair_ex.insertion_ex_cb\<close> (unused, 0 here, in the other cases).
\<close>

record bb_cb =
  has_quartet :: bool
  cb0 :: ptr
  cb1 :: ptr

datatype bb_list = App2app | Instrumentation | Instru2instru

instantiation bb_list :: enum
begin

definition enum_bb_list :: "bb_list list" where "enum_bb_list = [App2app, Instrumentation, Instru2instru]"
definition enum_all_bb_list :: "(bb_list \<Rightarrow> bool) \<Rightarrow> bool" where "enum_all_bb_list P = (P App2app \<and> P Instrumentation \<and> P Instru2instru)"
definition enum_ex_bb_list :: "(bb_list \<Rightarrow> bool) \<Rightarrow> bool" where "enum_ex_bb_list P = (P App2app \<or> P Instrumentation \<or> P Instru2instru)"

instance
proof
  have u: "(UNIV :: bb_list set) = {App2app, Instrumentation, Instru2instru}" by (auto intro: bb_list.exhaust)
  show "(UNIV :: bb_list set) = set enum_class.enum" by (simp add: u enum_bb_list_def)
  show "distinct (enum_class.enum :: bb_list list)" by (simp add: enum_bb_list_def)
  show "enum_class.enum_all P = Ball (UNIV :: bb_list set) P" for P by (simp add: u enum_all_bb_list_def)
  show "enum_class.enum_ex P = Bex (UNIV :: bb_list set) P" for P by (simp add: u enum_ex_bb_list_def)
qed

end

record bb_state =
  lists :: "bb_list \<Rightarrow> bb_cb cb_list"
  bb_event_count :: nat
  pair_count :: nat
  quartet_count :: nat
  bb_registered :: bool

definition drmgr_bb_init :: bb_state where
  "drmgr_bb_init =
     \<lparr>lists = (\<lambda>w. cblist_init False), bb_event_count = 0, pair_count = 0, quartet_count = 0, bb_registered = False\<rparr>"

section \<open>Registering\<close>

definition drmgr_bb_cb_add ::
  "bb_list \<Rightarrow> ptr \<Rightarrow> ptr \<Rightarrow> ptr \<Rightarrow> ptr \<Rightarrow> ptr \<Rightarrow> ptr \<Rightarrow> drmgr_priority option \<Rightarrow> bb_state \<Rightarrow> (bool \<times> bb_state) cres" where
  "drmgr_bb_cb_add w xform_func analysis_func insertion_func app2app_ex_func analysis_ex_func instru2instru_ex_func priority st =
     (let new_e = (if app2app_ex_func \<noteq> 0 then \<lparr>has_quartet = True, cb0 = app2app_ex_func, cb1 = 0\<rparr>
                   else if analysis_ex_func \<noteq> 0 then \<lparr>has_quartet = True, cb0 = analysis_ex_func, cb1 = insertion_func\<rparr>
                   else if instru2instru_ex_func \<noteq> 0 then \<lparr>has_quartet = True, cb0 = instru2instru_ex_func, cb1 = 0\<rparr>
                   else if xform_func \<noteq> 0 then \<lparr>has_quartet = False, cb0 = xform_func, cb1 = 0\<rparr>
                   else \<lparr>has_quartet = False, cb0 = analysis_func, cb1 = insertion_func\<rparr>)
      in bind_res (event_add (lists st w) priority new_e) (\<lambda>(ok, l).
           Inr (ok, if ok
                    then st\<lparr>lists := (lists st)(w := l), bb_registered := bb_registered st \<or> bb_event_count st = 0,
                            bb_event_count := bb_event_count st + 1,
                            quartet_count := (if has_quartet new_e then quartet_count st + 1 else quartet_count st),
                            pair_count := (if \<not> has_quartet new_e \<and> xform_func = 0 then pair_count st + 1 else pair_count st)\<rparr>
                    else st\<lparr>lists := (lists st)(w := l)\<rparr>)))"

definition drmgr_register_bb_app2app_event :: "ptr \<Rightarrow> drmgr_priority option \<Rightarrow> bb_state \<Rightarrow> (bool \<times> bb_state) cres" where
  "drmgr_register_bb_app2app_event func priority st =
     (if func = 0 then Inr (False, st) else drmgr_bb_cb_add App2app func 0 0 0 0 0 priority st)"

definition drmgr_register_bb_instrumentation_event ::
  "ptr \<Rightarrow> ptr \<Rightarrow> drmgr_priority option \<Rightarrow> bb_state \<Rightarrow> (bool \<times> bb_state) cres" where
  "drmgr_register_bb_instrumentation_event analysis_func insertion_func priority st =
     (if analysis_func = 0 \<and> insertion_func = 0 then Inr (False, st)
      else drmgr_bb_cb_add Instrumentation 0 analysis_func insertion_func 0 0 0 priority st)"

definition drmgr_register_bb_instru2instru_event :: "ptr \<Rightarrow> drmgr_priority option \<Rightarrow> bb_state \<Rightarrow> (bool \<times> bb_state) cres" where
  "drmgr_register_bb_instru2instru_event func priority st =
     (if func = 0 then Inr (False, st) else drmgr_bb_cb_add Instru2instru func 0 0 0 0 0 priority st)"

text \<open>One of the three steps of the function below.\<close>

definition when_set :: "ptr \<Rightarrow> (bb_state \<Rightarrow> (bool \<times> bb_state) cres) \<Rightarrow> bool \<Rightarrow> bb_state \<Rightarrow> (bool \<times> bb_state) cres" where
  "when_set func step ok st = (if func \<noteq> 0 then bind_res (step st) (\<lambda>(b, st). Inr (b \<and> ok, st)) else Inr (ok, st))"

definition drmgr_register_bb_instrumentation_ex_event ::
  "ptr \<Rightarrow> ptr \<Rightarrow> ptr \<Rightarrow> ptr \<Rightarrow> drmgr_priority option \<Rightarrow> bb_state \<Rightarrow> (bool \<times> bb_state) cres" where
  "drmgr_register_bb_instrumentation_ex_event app2app_func analysis_func insertion_func instru2instru_func priority st =
     (if (app2app_func = 0 \<and> analysis_func = 0 \<and> insertion_func = 0 \<and> instru2instru_func = 0) \<or>
         (analysis_func = 0 \<and> insertion_func \<noteq> 0)
      then Inr (False, st)
      else bind_res (when_set app2app_func (drmgr_bb_cb_add App2app 0 0 0 app2app_func 0 0 priority) True st) (\<lambda>(ok, st).
           bind_res (when_set analysis_func (drmgr_bb_cb_add Instrumentation 0 0 insertion_func 0 analysis_func 0 priority) ok st) (\<lambda>(ok, st).
           when_set instru2instru_func (drmgr_bb_cb_add Instru2instru 0 0 0 0 0 instru2instru_func priority) ok st)))"

section \<open>Unregistering\<close>

definition bb_matches :: "ptr \<Rightarrow> ptr \<Rightarrow> ptr \<Rightarrow> ptr \<Rightarrow> ptr \<Rightarrow> ptr \<Rightarrow> bb_cb \<Rightarrow> bool" where
  "bb_matches xform_func analysis_func insertion_func app2app_ex_func analysis_ex_func instru2instru_ex_func e \<longleftrightarrow>
     (xform_func \<noteq> 0 \<and> xform_func = cb0 e) \<or> (analysis_func \<noteq> 0 \<and> analysis_func = cb0 e) \<or>
     (insertion_func \<noteq> 0 \<and> insertion_func = cb1 e) \<or> (app2app_ex_func \<noteq> 0 \<and> app2app_ex_func = cb0 e) \<or>
     (analysis_ex_func \<noteq> 0 \<and> analysis_ex_func = cb0 e) \<or> (instru2instru_ex_func \<noteq> 0 \<and> instru2instru_ex_func = cb0 e)"

definition drmgr_bb_cb_remove ::
  "bb_list \<Rightarrow> ptr \<Rightarrow> ptr \<Rightarrow> ptr \<Rightarrow> ptr \<Rightarrow> ptr \<Rightarrow> ptr \<Rightarrow> bb_state \<Rightarrow> (bool \<times> bb_state) cres" where
  "drmgr_bb_cb_remove w xform_func analysis_func insertion_func app2app_ex_func analysis_ex_func instru2instru_ex_func st =
     (let l = lists st w in
      bind_res (defined l) (\<lambda>es.
      bind_res (find_entry (bb_matches xform_func analysis_func insertion_func app2app_ex_func analysis_ex_func instru2instru_ex_func) 0 es) (\<lambda>r.
        case r of
          None \<Rightarrow> Inr (False, st)
        | Some i \<Rightarrow>
            bind_res (cblist_get_pri l i) (\<lambda>e.
            let quartet = has_quartet (the (pe_cb e)) in
            Inr (True, st\<lparr>lists := (lists st)(w := invalidate l True i),
                          quartet_count := (if quartet then quartet_count st - 1 else quartet_count st),
                          pair_count := (if \<not> quartet \<and> xform_func = 0 then pair_count st - 1 else pair_count st),
                          bb_event_count := bb_event_count st - 1,
                          bb_registered := bb_registered st \<and> bb_event_count st - 1 \<noteq> 0\<rparr>)))))"

definition drmgr_unregister_bb_app2app_event :: "ptr \<Rightarrow> bb_state \<Rightarrow> (bool \<times> bb_state) cres" where
  "drmgr_unregister_bb_app2app_event func st = (if func = 0 then Inr (False, st) else drmgr_bb_cb_remove App2app func 0 0 0 0 0 st)"

definition drmgr_unregister_bb_instrumentation_event :: "ptr \<Rightarrow> bb_state \<Rightarrow> (bool \<times> bb_state) cres" where
  "drmgr_unregister_bb_instrumentation_event func st = (if func = 0 then Inr (False, st) else drmgr_bb_cb_remove Instrumentation 0 func 0 0 0 0 st)"

definition drmgr_unregister_bb_insertion_event :: "ptr \<Rightarrow> bb_state \<Rightarrow> (bool \<times> bb_state) cres" where
  "drmgr_unregister_bb_insertion_event func st = (if func = 0 then Inr (False, st) else drmgr_bb_cb_remove Instrumentation 0 0 func 0 0 0 st)"

definition drmgr_unregister_bb_instru2instru_event :: "ptr \<Rightarrow> bb_state \<Rightarrow> (bool \<times> bb_state) cres" where
  "drmgr_unregister_bb_instru2instru_event func st = (if func = 0 then Inr (False, st) else drmgr_bb_cb_remove Instru2instru func 0 0 0 0 0 st)"

definition drmgr_unregister_bb_instrumentation_ex_event ::
  "ptr \<Rightarrow> ptr \<Rightarrow> ptr \<Rightarrow> ptr \<Rightarrow> bb_state \<Rightarrow> (bool \<times> bb_state) cres" where
  "drmgr_unregister_bb_instrumentation_ex_event app2app_func analysis_func insertion_func instru2instru_func st =
     (if (app2app_func = 0 \<and> analysis_func = 0 \<and> insertion_func = 0 \<and> instru2instru_func = 0) \<or>
         (analysis_func = 0 \<and> insertion_func \<noteq> 0)
      then Inr (False, st)
      else bind_res (when_set app2app_func (drmgr_bb_cb_remove App2app 0 0 0 app2app_func 0 0) True st) (\<lambda>(ok, st).
           bind_res (when_set analysis_func (drmgr_bb_cb_remove Instrumentation 0 0 0 0 analysis_func 0) ok st) (\<lambda>(ok, st).
           when_set instru2instru_func (drmgr_bb_cb_remove Instru2instru 0 0 0 0 0 instru2instru_func) ok st)))"

section \<open>Delivering a block\<close>

text \<open>
  The calls of the callbacks, with the user data they get: None is data that no callback has written.
  \<open>stores f\<close> is what the callback \<open>f\<close> writes to its OUT parameter.
\<close>

datatype bb_call =
    Xform ptr | App2app_ex ptr | Analysis ptr | Analysis_ex ptr "ptr option"
  | Insertion ptr nat "ptr option" | Insertion_ex ptr nat "ptr option" | Instru_ex ptr "ptr option"

definition read_data :: "ptr option list \<Rightarrow> nat \<Rightarrow> ptr option cres" where
  "read_data data i = (if i < length data then Inr (data ! i) else Inl OutOfBounds)"

definition write_data :: "ptr option list \<Rightarrow> nat \<Rightarrow> ptr \<Rightarrow> ptr option list cres" where
  "write_data data i v = (if i < length data then Inr (data[i := Some v]) else Inl OutOfBounds)"

text \<open>Pass 1. The accumulator is the list of calls so far.\<close>

fun app2app_pass :: "(ptr \<Rightarrow> ptr) \<Rightarrow> nat \<Rightarrow> ptr option list \<Rightarrow> bb_cb list \<Rightarrow> (bb_call list \<times> ptr option list) cres" where
  "app2app_pass stores q data [] = Inr ([], data)"
| "app2app_pass stores q data (e # es) =
     (if has_quartet e
      then bind_res (write_data data q (stores (cb0 e))) (\<lambda>data.
           bind_res (app2app_pass stores (q + 1) data es) (\<lambda>(calls, data). Inr (App2app_ex (cb0 e) # calls, data)))
      else bind_res (app2app_pass stores q data es) (\<lambda>(calls, data). Inr (Xform (cb0 e) # calls, data)))"

text \<open>Pass 2 writes the data of the pairs.\<close>

fun analysis_pass ::
  "(ptr \<Rightarrow> ptr) \<Rightarrow> ptr option list \<Rightarrow> nat \<Rightarrow> nat \<Rightarrow> ptr option list \<Rightarrow> bb_cb list \<Rightarrow> (bb_call list \<times> ptr option list) cres" where
  "analysis_pass stores qdata q p pdata [] = Inr ([], pdata)"
| "analysis_pass stores qdata q p pdata (e # es) =
     (if has_quartet e
      then bind_res (read_data qdata q) (\<lambda>d.
           bind_res (analysis_pass stores qdata (q + 1) p pdata es) (\<lambda>(calls, pdata). Inr (Analysis_ex (cb0 e) d # calls, pdata)))
      else if cb0 e = 0
      then bind_res (write_data pdata p 0) (\<lambda>pdata. analysis_pass stores qdata q (p + 1) pdata es)
      else bind_res (write_data pdata p (stores (cb0 e))) (\<lambda>pdata.
           bind_res (analysis_pass stores qdata q (p + 1) pdata es) (\<lambda>(calls, pdata). Inr (Analysis (cb0 e) # calls, pdata))))"

text \<open>Pass 3, for one instruction. The insertion callback of a quartet is called without a test for NULL.\<close>

fun insertion_pass :: "nat \<Rightarrow> ptr option list \<Rightarrow> ptr option list \<Rightarrow> nat \<Rightarrow> nat \<Rightarrow> bb_cb list \<Rightarrow> bb_call list cres" where
  "insertion_pass inst qdata pdata q p [] = Inr []"
| "insertion_pass inst qdata pdata q p (e # es) =
     (if has_quartet e
      then if cb1 e = 0 then Inl NullDeref
           else bind_res (read_data qdata q) (\<lambda>d.
                bind_res (insertion_pass inst qdata pdata (q + 1) p es) (\<lambda>calls. Inr (Insertion_ex (cb1 e) inst d # calls)))
      else if cb1 e \<noteq> 0
      then bind_res (read_data pdata p) (\<lambda>d.
           bind_res (insertion_pass inst qdata pdata q (p + 1) es) (\<lambda>calls. Inr (Insertion (cb1 e) inst d # calls)))
      else insertion_pass inst qdata pdata q (p + 1) es)"

fun insertion_all :: "ptr option list \<Rightarrow> ptr option list \<Rightarrow> bb_cb list \<Rightarrow> nat list \<Rightarrow> bb_call list cres" where
  "insertion_all qdata pdata es [] = Inr []"
| "insertion_all qdata pdata es (inst # insts) =
     bind_res (insertion_pass inst qdata pdata 0 0 es) (\<lambda>calls.
     bind_res (insertion_all qdata pdata es insts) (\<lambda>rest. Inr (calls @ rest)))"

text \<open>Pass 4.\<close>

fun instru_pass :: "ptr option list \<Rightarrow> nat \<Rightarrow> bb_cb list \<Rightarrow> bb_call list cres" where
  "instru_pass qdata q [] = Inr []"
| "instru_pass qdata q (e # es) =
     (if has_quartet e
      then bind_res (read_data qdata q) (\<lambda>d. bind_res (instru_pass qdata (q + 1) es) (\<lambda>calls. Inr (Instru_ex (cb0 e) d # calls)))
      else bind_res (instru_pass qdata q es) (\<lambda>calls. Inr (Xform (cb0 e) # calls)))"

text \<open>The block is given by its number of instructions; it does not change during the insertion pass except by
  instructions that this pass does not visit.\<close>

definition drmgr_bb_event :: "(ptr \<Rightarrow> ptr) \<Rightarrow> nat \<Rightarrow> bb_state \<Rightarrow> bb_call list cres" where
  "drmgr_bb_event stores ninstrs st =
     (let iter_app2app = deliver (lists st App2app); iter_insert = deliver (lists st Instrumentation);
          iter_instru = deliver (lists st Instru2instru);
          pair_data = replicate (pair_count st) None; quartet_data = replicate (quartet_count st) None in
      bind_res (app2app_pass stores 0 quartet_data iter_app2app) (\<lambda>(calls1, qdata).
      bind_res (analysis_pass stores qdata 0 0 pair_data iter_insert) (\<lambda>(calls2, pdata).
      bind_res (insertion_all qdata pdata iter_insert [0..<ninstrs]) (\<lambda>calls3.
      bind_res (instru_pass qdata 0 iter_instru) (\<lambda>calls4. Inr (calls1 @ calls2 @ calls3 @ calls4))))))"

end
