(* ===== verification/Drmgr_Data.thy ===== *)
theory Drmgr_Data
  imports Drmgr_Blocks
begin

text \<open>
  The user data of the block callbacks: which callback gets whose data, and when the delivery is safe.
\<close>

section \<open>What the passes compute\<close>

abbreviation quartets :: "bb_cb list \<Rightarrow> bb_cb list" where
  "quartets es \<equiv> filter has_quartet es"

abbreviation pairs :: "bb_cb list \<Rightarrow> bb_cb list" where
  "pairs es \<equiv> filter (\<lambda>e. \<not> has_quartet e) es"

definition pair_value :: "(ptr \<Rightarrow> ptr) \<Rightarrow> bb_cb \<Rightarrow> ptr option" where
  "pair_value stores e = Some (if cb0 e = 0 then 0 else stores (cb0 e))"

lemma app2app_pass_ok:
  assumes "q + length (quartets es) \<le> length data"
  shows "\<exists>calls. app2app_pass stores q data es =
    Inr (calls, take q data @ map (Some \<circ> stores \<circ> cb0) (quartets es) @ drop (q + length (quartets es)) data)"
  using assms
proof (induction es arbitrary: q data)
  case (Cons e es)
  show ?case
  proof (cases "has_quartet e")
    case True
    with Cons.prems Cons.IH [of "q + 1" "data[q := Some (stores (cb0 e))]"] show ?thesis
      by (auto simp: write_data_def take_Suc_conv_app_nth)
  next
    case False
    with Cons.prems Cons.IH [of q data] show ?thesis by auto
  qed
qed simp

fun analysis_calls :: "bb_call list \<Rightarrow> (ptr \<times> ptr option) list" where
  "analysis_calls [] = []"
| "analysis_calls (Analysis_ex f d # calls) = (f, d) # analysis_calls calls"
| "analysis_calls (c # calls) = analysis_calls calls"

fun insertion_calls :: "nat \<Rightarrow> bb_call list \<Rightarrow> (ptr \<times> ptr option) list" where
  "insertion_calls i [] = []"
| "insertion_calls i (Insertion_ex f j d # calls) = (if j = i then (f, d) # insertion_calls i calls else insertion_calls i calls)"
| "insertion_calls i (c # calls) = insertion_calls i calls"

fun pair_calls :: "nat \<Rightarrow> bb_call list \<Rightarrow> (ptr \<times> ptr option) list" where
  "pair_calls i [] = []"
| "pair_calls i (Insertion f j d # calls) = (if j = i then (f, d) # pair_calls i calls else pair_calls i calls)"
| "pair_calls i (c # calls) = pair_calls i calls"

fun instru_calls :: "bb_call list \<Rightarrow> (ptr \<times> ptr option) list" where
  "instru_calls [] = []"
| "instru_calls (Instru_ex f d # calls) = (f, d) # instru_calls calls"
| "instru_calls (c # calls) = instru_calls calls"

lemma calls_append [simp]:
  "analysis_calls (xs @ ys) = analysis_calls xs @ analysis_calls ys"
  "insertion_calls i (xs @ ys) = insertion_calls i xs @ insertion_calls i ys"
  "pair_calls i (xs @ ys) = pair_calls i xs @ pair_calls i ys"
  "instru_calls (xs @ ys) = instru_calls xs @ instru_calls ys"
proof -
  show "analysis_calls (xs @ ys) = analysis_calls xs @ analysis_calls ys" by (induction xs rule: analysis_calls.induct) simp_all
  show "insertion_calls i (xs @ ys) = insertion_calls i xs @ insertion_calls i ys"
    by (induction xs rule: insertion_calls.induct) simp_all
  show "pair_calls i (xs @ ys) = pair_calls i xs @ pair_calls i ys" by (induction xs rule: pair_calls.induct) simp_all
  show "instru_calls (xs @ ys) = instru_calls xs @ instru_calls ys" by (induction xs rule: instru_calls.induct) simp_all
qed

text \<open>The calls of the other passes do not show in a projection.\<close>

definition no_calls :: "bb_call list \<Rightarrow> bool" where
  "no_calls calls \<longleftrightarrow> analysis_calls calls = [] \<and> instru_calls calls = [] \<and> (\<forall>i. insertion_calls i calls = [] \<and> pair_calls i calls = [])"

lemma no_calls_simps [simp]:
  "no_calls []" "no_calls (Xform f # calls) = no_calls calls" "no_calls (App2app_ex f # calls) = no_calls calls"
  by (simp_all add: no_calls_def)

lemma app2app_no_calls: "app2app_pass stores q data es = Inr (calls, data') \<Longrightarrow> no_calls calls"
  by (induction es arbitrary: q data calls) (auto simp: bind_res_Inr_iff split: if_splits)

lemma analysis_pass_ok:
  assumes "q + length (quartets es) \<le> length qdata" "p + length (pairs es) \<le> length pdata"
  shows "\<exists>calls. analysis_pass stores qdata q p pdata es =
      Inr (calls, take p pdata @ map (pair_value stores) (pairs es) @ drop (p + length (pairs es)) pdata) \<and>
    analysis_calls calls = zip (map cb0 (quartets es)) (drop q qdata) \<and>
    instru_calls calls = [] \<and> (\<forall>i. insertion_calls i calls = [] \<and> pair_calls i calls = [])"
  using assms
proof (induction es arbitrary: q p pdata)
  case (Cons e es)
  show ?case
  proof (cases "has_quartet e")
    case True
    then have "q < length qdata" "q + 1 + length (quartets es) \<le> length qdata" using Cons.prems by simp_all
    moreover from this(1) have "drop q qdata = qdata ! q # drop (Suc q) qdata" by (simp add: Cons_nth_drop_Suc)
    ultimately show ?thesis using True Cons.IH [of "q + 1" p pdata] Cons.prems by (auto simp: read_data_def)
  next
    case False
    then show ?thesis using Cons.prems Cons.IH [of q "p + 1" "pdata[p := pair_value stores e]"]
      by (auto simp: write_data_def pair_value_def take_Suc_conv_app_nth)
  qed
qed simp

lemma insertion_pass_ok:
  assumes "q + length (quartets es) \<le> length qdata" "p + length (pairs es) \<le> length pdata" "\<forall>e \<in> set (quartets es). cb1 e \<noteq> 0"
  shows "\<exists>calls. insertion_pass inst qdata pdata q p es = Inr calls \<and>
    insertion_calls i calls = (if i = inst then zip (map cb1 (quartets es)) (drop q qdata) else []) \<and>
    pair_calls i calls = (if i = inst then filter (\<lambda>(f, d). f \<noteq> 0) (zip (map cb1 (pairs es)) (drop p pdata)) else []) \<and>
    analysis_calls calls = [] \<and> instru_calls calls = []"
  using assms
proof (induction es arbitrary: q p)
  case (Cons e es)
  show ?case
  proof (cases "has_quartet e")
    case True
    then have "q < length qdata" "q + 1 + length (quartets es) \<le> length qdata" using Cons.prems by simp_all
    moreover from this(1) have "drop q qdata = qdata ! q # drop (Suc q) qdata" by (simp add: Cons_nth_drop_Suc)
    ultimately show ?thesis using True Cons.IH [of "q + 1" p] Cons.prems by (auto simp: read_data_def)
  next
    case False
    then have "p < length pdata" "p + 1 + length (pairs es) \<le> length pdata" using Cons.prems by simp_all
    moreover from this(1) have "drop p pdata = pdata ! p # drop (Suc p) pdata" by (simp add: Cons_nth_drop_Suc)
    ultimately show ?thesis using False Cons.IH [of q "p + 1"] Cons.prems by (auto simp: read_data_def)
  qed
qed simp

lemma insertion_all_ok:
  assumes "length (quartets es) \<le> length qdata" "length (pairs es) \<le> length pdata" "\<forall>e \<in> set (quartets es). cb1 e \<noteq> 0"
    and "distinct insts"
  shows "\<exists>calls. insertion_all qdata pdata es insts = Inr calls \<and>
    (\<forall>i. insertion_calls i calls = (if i \<in> set insts then zip (map cb1 (quartets es)) qdata else []) \<and>
       pair_calls i calls = (if i \<in> set insts then filter (\<lambda>(f, d). f \<noteq> 0) (zip (map cb1 (pairs es)) pdata) else [])) \<and>
    analysis_calls calls = [] \<and> instru_calls calls = []"
  using assms(4)
proof (induction insts)
  case (Cons inst insts)
  have "\<exists>calls. insertion_pass inst qdata pdata 0 0 es = Inr calls" using insertion_pass_ok [of 0 es qdata 0 pdata inst] assms by auto
  then obtain calls where c: "insertion_pass inst qdata pdata 0 0 es = Inr calls" by blast
  then have "insertion_calls i calls = (if i = inst then zip (map cb1 (quartets es)) qdata else [])"
    "pair_calls i calls = (if i = inst then filter (\<lambda>(f, d). f \<noteq> 0) (zip (map cb1 (pairs es)) pdata) else [])"
    "analysis_calls calls = []" "instru_calls calls = []" for i
    using insertion_pass_ok [of 0 es qdata 0 pdata inst i] assms by auto
  with c Cons show ?case by auto
qed simp

lemma instru_pass_ok:
  assumes "q + length (quartets es) \<le> length qdata"
  shows "\<exists>calls. instru_pass qdata q es = Inr calls \<and> instru_calls calls = zip (map cb0 (quartets es)) (drop q qdata) \<and>
    analysis_calls calls = [] \<and> (\<forall>i. insertion_calls i calls = [] \<and> pair_calls i calls = [])"
  using assms
proof (induction es arbitrary: q)
  case (Cons e es)
  show ?case
  proof (cases "has_quartet e")
    case True
    then have "q < length qdata" "q + 1 + length (quartets es) \<le> length qdata" using Cons.prems by simp_all
    moreover from this(1) have "drop q qdata = qdata ! q # drop (Suc q) qdata" by (simp add: Cons_nth_drop_Suc)
    ultimately show ?thesis using True Cons.IH [of "q + 1"] by (auto simp: read_data_def)
  next
    case False
    with Cons.prems Cons.IH [of q] show ?thesis by auto
  qed
qed simp

section \<open>The counts\<close>

text \<open>\<open>ex\<close> holds the callbacks of the types with user data from the first pass: C's types keep them apart from the others.\<close>

definition typed_list :: "ptr set \<Rightarrow> bb_cb list \<Rightarrow> bool" where
  "typed_list ex es \<longleftrightarrow> (\<forall>e \<in> set es. if has_quartet e then cb0 e \<in> ex else cb0 e \<notin> ex)"

definition bb_ok :: "ptr set \<Rightarrow> bb_state \<Rightarrow> bool" where
  "bb_ok ex st \<longleftrightarrow>
     (\<forall>w. events_ok (lists st w) \<and> typed_list ex (deliver (lists st w))) \<and>
     pair_count st = length (pairs (deliver (lists st Instrumentation))) \<and>
     quartet_count st = (\<Sum>w \<leftarrow> [App2app, Instrumentation, Instru2instru]. length (quartets (deliver (lists st w)))) \<and>
     bb_event_count st = (\<Sum>w \<leftarrow> [App2app, Instrumentation, Instru2instru]. length (deliver (lists st w))) \<and>
     bb_registered st = (bb_event_count st > 0)"

lemma bb_ok_init: "bb_ok ex drmgr_bb_init"
  by (simp add: bb_ok_def drmgr_bb_init_def events_ok_init typed_list_def)

lemma block_delivery:
  assumes "bb_ok ex st" "\<forall>e \<in> set (quartets (deliver (lists st Instrumentation))). cb1 e \<noteq> 0"
  shows "\<exists>calls qdata. drmgr_bb_event stores n st = Inr calls \<and>
    (\<forall>i < n. pair_calls i calls =
       map (\<lambda>e. (cb1 e, pair_value stores e)) (filter (\<lambda>e. cb1 e \<noteq> 0) (pairs (deliver (lists st Instrumentation)))) \<and>
       insertion_calls i calls = zip (map cb1 (quartets (deliver (lists st Instrumentation)))) qdata) \<and>
    qdata = map (Some \<circ> stores \<circ> cb0) (quartets (deliver (lists st App2app))) @
      replicate (quartet_count st - length (quartets (deliver (lists st App2app)))) None \<and>
    analysis_calls calls = zip (map cb0 (quartets (deliver (lists st Instrumentation)))) qdata \<and>
    instru_calls calls = zip (map cb0 (quartets (deliver (lists st Instru2instru)))) qdata"
proof -
  let ?A = "deliver (lists st App2app)" and ?I = "deliver (lists st Instrumentation)" and ?F = "deliver (lists st Instru2instru)"
  let ?q = "replicate (quartet_count st) None :: ptr option list" and ?p = "replicate (pair_count st) None :: ptr option list"
  have q: "length (quartets ?A) \<le> quartet_count st" "length (quartets ?I) \<le> quartet_count st" "length (quartets ?F) \<le> quartet_count st"
    and p: "pair_count st = length (pairs ?I)" using assms(1) by (simp_all add: bb_ok_def)
  define qd where "qd = map (Some \<circ> stores \<circ> cb0) (quartets ?A) @ replicate (quartet_count st - length (quartets ?A)) None"
  have len: "length qd = quartet_count st" using q(1) by (simp add: qd_def)
  obtain c1 where c1: "app2app_pass stores 0 ?q ?A = Inr (c1, qd)"
    using app2app_pass_ok [of 0 ?A ?q stores] q(1) by (auto simp: qd_def)
  obtain c2 where c2: "analysis_pass stores qd 0 0 ?p ?I = Inr (c2, map (pair_value stores) (pairs ?I))"
    "analysis_calls c2 = zip (map cb0 (quartets ?I)) qd" "instru_calls c2 = []" "\<forall>i. insertion_calls i c2 = [] \<and> pair_calls i c2 = []"
    using analysis_pass_ok [of 0 ?I qd 0 ?p stores] q(2) p len by auto
  obtain c3 where c3: "insertion_all qd (map (pair_value stores) (pairs ?I)) ?I [0..<n] = Inr c3"
    "\<forall>i. insertion_calls i c3 = (if i \<in> set [0..<n] then zip (map cb1 (quartets ?I)) qd else []) \<and>
       pair_calls i c3 = (if i \<in> set [0..<n] then filter (\<lambda>(f, d). f \<noteq> 0) (zip (map cb1 (pairs ?I)) (map (pair_value stores) (pairs ?I))) else [])"
    "analysis_calls c3 = [] \<and> instru_calls c3 = []"
    using insertion_all_ok [of ?I qd "map (pair_value stores) (pairs ?I)" "[0..<n]"] q(2) len assms(2) by auto
  obtain c4 where c4: "instru_pass qd 0 ?F = Inr c4" "instru_calls c4 = zip (map cb0 (quartets ?F)) qd" "analysis_calls c4 = []"
    "\<forall>i. insertion_calls i c4 = [] \<and> pair_calls i c4 = []"
    using instru_pass_ok [of 0 ?F qd] q(3) len by auto
  have "drmgr_bb_event stores n st = Inr (c1 @ c2 @ c3 @ c4)" using c1 c2(1) c3(1) c4(1) by (simp add: drmgr_bb_event_def)
  moreover have "filter (\<lambda>(f, d). f \<noteq> 0) (zip (map cb1 es) (map (pair_value stores) es)) =
      map (\<lambda>e. (cb1 e, pair_value stores e)) (filter (\<lambda>e. cb1 e \<noteq> 0) es)" for es
    by (induction es) auto
  ultimately show ?thesis using c2(2-4) c3(2,3) c4(2-4) app2app_no_calls [OF c1] qd_def
    by (intro exI [of _ "c1 @ c2 @ c3 @ c4"] exI [of _ qd]) (simp add: no_calls_def)
qed

section \<open>Registering keeps the counts\<close>

lemma typed_list_simps [simp]:
  "typed_list ex (xs @ ys) \<longleftrightarrow> typed_list ex xs \<and> typed_list ex ys"
  "typed_list ex (e # xs) \<longleftrightarrow> (if has_quartet e then cb0 e \<in> ex else cb0 e \<notin> ex) \<and> typed_list ex xs"
  "typed_list ex []"
  by (auto simp: typed_list_def)

lemma bb_okI:
  assumes "\<And>w. events_ok (lists st w)" "\<And>w. typed_list ex (deliver (lists st w))"
    and "pair_count st = length (pairs (deliver (lists st Instrumentation)))"
    and "quartet_count st = length (quartets (deliver (lists st App2app))) + length (quartets (deliver (lists st Instrumentation))) +
      length (quartets (deliver (lists st Instru2instru)))"
    and "bb_event_count st = length (deliver (lists st App2app)) + length (deliver (lists st Instrumentation)) +
      length (deliver (lists st Instru2instru))"
    and "bb_registered st = (bb_event_count st > 0)"
  shows "bb_ok ex st"
  using assms by (simp add: bb_ok_def)

lemma bb_okD:
  assumes "bb_ok ex st"
  shows "events_ok (lists st w)" "typed_list ex (deliver (lists st w))"
    "pair_count st = length (pairs (deliver (lists st Instrumentation)))"
    "quartet_count st = length (quartets (deliver (lists st App2app))) + length (quartets (deliver (lists st Instrumentation))) +
      length (quartets (deliver (lists st Instru2instru)))"
    "bb_event_count st = length (deliver (lists st App2app)) + length (deliver (lists st Instrumentation)) +
      length (deliver (lists st Instru2instru))"
    "bb_registered st = (bb_event_count st > 0)"
  using assms by (simp_all add: bb_ok_def)

text \<open>Changing one list by one entry, with the counts that go with it.\<close>

lemma bb_ok_insert:
  assumes ok: "bb_ok ex st" and l: "events_ok l" "deliver (lists st w) = xs @ ys" "deliver l = xs @ [e] @ ys"
    and ty: "if has_quartet e then cb0 e \<in> ex else cb0 e \<notin> ex"
  shows "bb_ok ex (st\<lparr>lists := (lists st)(w := l), bb_registered := bb_registered st \<or> bb_event_count st = 0,
      bb_event_count := bb_event_count st + 1,
      quartet_count := (if has_quartet e then quartet_count st + 1 else quartet_count st),
      pair_count := (if \<not> has_quartet e \<and> w = Instrumentation then pair_count st + 1 else pair_count st)\<rparr>)"
proof -
  have len: "length (quartets (deliver l)) = length (quartets (deliver (lists st w))) + (if has_quartet e then 1 else 0)"
    "length (pairs (deliver l)) = length (pairs (deliver (lists st w))) + (if has_quartet e then 0 else 1)"
    "length (deliver l) = length (deliver (lists st w)) + 1" by (simp_all add: l(2,3))
  show ?thesis
  proof (rule bb_okI, goal_cases)
    case (1 w') then show ?case using bb_okD(1) [OF ok] l(1) by simp
  next
    case (2 w') then show ?case using bb_okD(2) [OF ok, of w'] l(2,3) ty by (cases "w' = w") simp_all
  next
    case 3 show ?case using bb_okD(3) [OF ok] len(2) by (cases "w = Instrumentation") simp_all
  next
    case 4 show ?case using bb_okD(4) [OF ok] len(1) by (cases w) simp_all
  next
    case 5 show ?case using bb_okD(5) [OF ok] len(3) by (cases w) simp_all
  next
    case 6 show ?case using bb_okD(6) [OF ok] by auto
  qed
qed

lemma bb_ok_delete:
  assumes ok: "bb_ok ex st" and l: "events_ok l" "deliver (lists st w) = xs @ [e] @ ys" "deliver l = xs @ ys"
  shows "bb_ok ex (st\<lparr>lists := (lists st)(w := l),
      quartet_count := (if has_quartet e then quartet_count st - 1 else quartet_count st),
      pair_count := (if \<not> has_quartet e \<and> w = Instrumentation then pair_count st - 1 else pair_count st),
      bb_event_count := bb_event_count st - 1, bb_registered := bb_registered st \<and> bb_event_count st - 1 \<noteq> 0\<rparr>)"
proof -
  have len: "length (quartets (deliver (lists st w))) = length (quartets (deliver l)) + (if has_quartet e then 1 else 0)"
    "length (pairs (deliver (lists st w))) = length (pairs (deliver l)) + (if has_quartet e then 0 else 1)"
    "length (deliver (lists st w)) = length (deliver l) + 1" by (simp_all add: l(2,3))
  show ?thesis
  proof (rule bb_okI, goal_cases)
    case (1 w') then show ?case using bb_okD(1) [OF ok] l(1) by simp
  next
    case (2 w') then show ?case using bb_okD(2) [OF ok, of w'] l(2,3) by (cases "w' = w") simp_all
  next
    case 3 show ?case using bb_okD(3) [OF ok] len(2) by (cases "w = Instrumentation") simp_all
  next
    case 4 show ?case using bb_okD(4) [OF ok] len(1) by (cases w) simp_all
  next
    case 5 show ?case using bb_okD(5) [OF ok] len(3) by (cases w) simp_all
  next
    case 6 show ?case using bb_okD(6) [OF ok] by auto
  qed
qed

definition new_callback :: "ptr \<Rightarrow> ptr \<Rightarrow> ptr \<Rightarrow> ptr \<Rightarrow> ptr \<Rightarrow> ptr \<Rightarrow> bb_cb" where
  "new_callback xf an ins a2 anx i2 =
     (if a2 \<noteq> 0 then \<lparr>has_quartet = True, cb0 = a2, cb1 = 0\<rparr>
      else if anx \<noteq> 0 then \<lparr>has_quartet = True, cb0 = anx, cb1 = ins\<rparr>
      else if i2 \<noteq> 0 then \<lparr>has_quartet = True, cb0 = i2, cb1 = 0\<rparr>
      else if xf \<noteq> 0 then \<lparr>has_quartet = False, cb0 = xf, cb1 = 0\<rparr>
      else \<lparr>has_quartet = False, cb0 = an, cb1 = ins\<rparr>)"

lemma bb_cb_add_eq:
  assumes "\<not> has_quartet (new_callback xf an ins a2 anx i2) \<Longrightarrow> (xf = 0) = (w = Instrumentation)"
  shows "drmgr_bb_cb_add w xf an ins a2 anx i2 priority st =
    (let e = new_callback xf an ins a2 anx i2 in
     bind_res (event_add (lists st w) priority e) (\<lambda>(ok, l).
       Inr (ok, if ok
          then st\<lparr>lists := (lists st)(w := l), bb_registered := bb_registered st \<or> bb_event_count st = 0,
                  bb_event_count := bb_event_count st + 1,
                  quartet_count := (if has_quartet e then quartet_count st + 1 else quartet_count st),
                  pair_count := (if \<not> has_quartet e \<and> w = Instrumentation then pair_count st + 1 else pair_count st)\<rparr>
          else st\<lparr>lists := (lists st)(w := l)\<rparr>)))"
  using assms unfolding drmgr_bb_cb_add_def Let_def new_callback_def [symmetric]
  by (cases "has_quartet (new_callback xf an ins a2 anx i2)") (simp_all cong: if_cong)

lemma bb_cb_add_ok:
  assumes ok: "bb_ok ex st" and k: "\<not> has_quartet (new_callback xf an ins a2 anx i2) \<Longrightarrow> (xf = 0) = (w = Instrumentation)"
    and ty: "if has_quartet (new_callback xf an ins a2 anx i2) then cb0 (new_callback xf an ins a2 anx i2) \<in> ex
      else cb0 (new_callback xf an ins a2 anx i2) \<notin> ex"
  shows "\<exists>b st'. drmgr_bb_cb_add w xf an ins a2 anx i2 priority st = Inr (b, st') \<and> bb_ok ex st'"
proof -
  let ?e = "new_callback xf an ins a2 anx i2"
  have "events_ok (lists st w)" using ok by (simp add: bb_ok_def)
  from event_add_total [OF this, of priority ?e] obtain b l where l: "event_add (lists st w) priority ?e = Inr (b, l)" "events_ok l"
    "if b then \<exists>xs ys. deliver (lists st w) = xs @ ys \<and> deliver l = xs @ [?e] @ ys else l = lists st w" by blast
  show ?thesis
  proof (cases b)
    case True
    with l(3) obtain xs ys where "deliver (lists st w) = xs @ ys" "deliver l = xs @ [?e] @ ys" by auto
    from bb_ok_insert [OF ok l(2) this ty] show ?thesis 
      using l(1) True by (intro exI [of _ True], subst bb_cb_add_eq) (simp_all add: Let_def k)
  next
    case False
    with l ok show ?thesis by (intro exI [of _ False] exI [of _ st], subst bb_cb_add_eq) (simp_all add: Let_def k)
  qed
qed

definition removal_typed :: "ptr set \<Rightarrow> bb_list \<Rightarrow> ptr \<Rightarrow> ptr \<Rightarrow> ptr \<Rightarrow> ptr \<Rightarrow> ptr \<Rightarrow> ptr \<Rightarrow> bool" where
  "removal_typed ex w xf an ins a2 anx i2 \<longleftrightarrow>
     (if w = Instrumentation then xf = 0
      else xf \<noteq> 0 \<or> (an = 0 \<and> ins = 0 \<and> (\<forall>f \<in> {a2, anx, i2}. f \<noteq> 0 \<longrightarrow> f \<in> ex)))"

lemma bb_cb_remove_ok:
  assumes ok: "bb_ok ex st" and ty: "removal_typed ex w xf an ins a2 anx i2"
  shows "\<exists>b st'. drmgr_bb_cb_remove w xf an ins a2 anx i2 st = Inr (b, st') \<and> bb_ok ex st'"
proof -
  let ?l = "lists st w" and ?m = "bb_matches xf an ins a2 anx i2"
  have ev: "events_ok ?l" and c: "cblist_ok ?l" using ok by (simp_all add: bb_ok_def events_ok_def)
  have "\<forall>e \<in> set (entries ?l). pe_valid e \<longrightarrow> pe_cb e \<noteq> None" using ev by (simp add: events_ok_def live_def)
  from find_entry_eq [OF this, of ?m 0] obtain r where r: "find_entry ?m 0 (map Some (entries ?l)) = Inr r"
    "\<And>k. r = Some k \<Longrightarrow> k < length (entries ?l) \<and> pe_valid (entries ?l ! k) \<and> ?m (the (pe_cb (entries ?l ! k)))" by fastforce
  show ?thesis
  proof (cases r)
    case None
    with r(1) c ok show ?thesis by (intro exI [of _ False] exI [of _ st]) (simp add: drmgr_bb_cb_remove_def Let_def defined_eq)
  next
    case (Some k)
    let ?e = "the (pe_cb (entries ?l ! k))"
    have k: "k < num_def ?l" "pe_valid (entries ?l ! k)" "?m ?e" using r(2) [OF Some] entries_length [OF c] by simp_all
    note iv = invalidate_live [OF c k(1,2)]
    define xs where "xs = map (the \<circ> pe_cb) (filter pe_valid (take k (entries ?l)))"
    define ys where "ys = map (the \<circ> pe_cb) (filter pe_valid (drop (Suc k) (entries ?l)))"
    have d: "deliver ?l = xs @ [?e] @ ys" "deliver (invalidate ?l True k) = xs @ ys"
      using iv(1) iv(2) [of True] by (simp_all add: deliver_def xs_def ys_def)
    have "events_ok (invalidate ?l True k)" using ev iv(1) iv(2,3) [of True] by (auto simp: events_ok_def)
    note del = bb_ok_delete [OF ok this d]
    have "has_quartet ?e \<or> cb0 ?e \<notin> ex" using bb_okD(2) [OF ok, of w] unfolding d(1) by (simp split: if_splits)
    then have q: "(\<not> has_quartet ?e \<and> xf = 0) = (\<not> has_quartet ?e \<and> w = Instrumentation)"
      using ty k(3) by (auto simp: removal_typed_def bb_matches_def split: if_splits)
    have g: "cblist_get_pri ?l k = Inr (entries ?l ! k)"
      using nth_entries [OF c k(1)] c k(1) by (simp add: cblist_get_pri_def cblist_ok_def)
    show ?thesis using r(1) Some c del by (intro exI [of _ True]) (simp add: drmgr_bb_cb_remove_def Let_def defined_eq g q cong: if_cong)
  qed
qed

section \<open>All the registrations\<close>

inductive bb_reach :: "ptr set \<Rightarrow> bb_state \<Rightarrow> bool" for ex where
  bb_init: "bb_reach ex drmgr_bb_init"
| bb_app2app: "bb_reach ex st \<Longrightarrow> f \<notin> ex \<Longrightarrow> drmgr_register_bb_app2app_event f p st = Inr (b, st') \<Longrightarrow> bb_reach ex st'"
| bb_instrumentation: "bb_reach ex st \<Longrightarrow> f \<notin> ex \<Longrightarrow>
    drmgr_register_bb_instrumentation_event f g p st = Inr (b, st') \<Longrightarrow> bb_reach ex st'"
| bb_instru2instru: "bb_reach ex st \<Longrightarrow> f \<notin> ex \<Longrightarrow> drmgr_register_bb_instru2instru_event f p st = Inr (b, st') \<Longrightarrow> bb_reach ex st'"
| bb_ex: "bb_reach ex st \<Longrightarrow> {f, g, k} - {0} \<subseteq> ex \<Longrightarrow>
    drmgr_register_bb_instrumentation_ex_event f g h k p st = Inr (b, st') \<Longrightarrow> bb_reach ex st'"
| bb_un_app2app: "bb_reach ex st \<Longrightarrow> drmgr_unregister_bb_app2app_event f st = Inr (b, st') \<Longrightarrow> bb_reach ex st'"
| bb_un_instrumentation: "bb_reach ex st \<Longrightarrow> drmgr_unregister_bb_instrumentation_event f st = Inr (b, st') \<Longrightarrow> bb_reach ex st'"
| bb_un_insertion: "bb_reach ex st \<Longrightarrow> drmgr_unregister_bb_insertion_event f st = Inr (b, st') \<Longrightarrow> bb_reach ex st'"
| bb_un_instru2instru: "bb_reach ex st \<Longrightarrow> drmgr_unregister_bb_instru2instru_event f st = Inr (b, st') \<Longrightarrow> bb_reach ex st'"
| bb_un_ex: "bb_reach ex st \<Longrightarrow> {f, g, k} - {0} \<subseteq> ex \<Longrightarrow>
    drmgr_unregister_bb_instrumentation_ex_event f g h k st = Inr (b, st') \<Longrightarrow> bb_reach ex st'"

lemma bb_cb_add_keeps:
  assumes "drmgr_bb_cb_add w xf an ins a2 anx i2 priority st = Inr (b, st')" "bb_ok ex st"
    and "\<not> has_quartet (new_callback xf an ins a2 anx i2) \<Longrightarrow> (xf = 0) = (w = Instrumentation)"
    and "if has_quartet (new_callback xf an ins a2 anx i2) then cb0 (new_callback xf an ins a2 anx i2) \<in> ex
      else cb0 (new_callback xf an ins a2 anx i2) \<notin> ex"
  shows "bb_ok ex st'"
  using bb_cb_add_ok [OF assms(2,3,4), of priority] assms(1) by auto

lemma bb_cb_remove_keeps:
  assumes "drmgr_bb_cb_remove w xf an ins a2 anx i2 st = Inr (b, st')" "bb_ok ex st" "removal_typed ex w xf an ins a2 anx i2"
  shows "bb_ok ex st'"
  using bb_cb_remove_ok [OF assms(2,3)] assms(1) by auto

lemma when_set_keeps:
  assumes "when_set f step ok st = Inr (ok', st')" "bb_ok ex st"
    and "\<And>b st'. f \<noteq> 0 \<Longrightarrow> step st = Inr (b, st') \<Longrightarrow> bb_ok ex st'"
  shows "bb_ok ex st'"
  using assms by (auto simp: when_set_def bind_res_Inr_iff split: if_splits)

lemma bind_pair:
  assumes "bind_res m (\<lambda>(x, y). k x y) = Inr r"
  obtains x y where "m = Inr (x, y)" "k x y = Inr r"
  using assms by (cases m) auto

lemma register_ex_keeps:
  assumes "drmgr_register_bb_instrumentation_ex_event f g h k p st = Inr (b, st')" "bb_ok ex st" "{f, g, k} - {0} \<subseteq> ex"
  shows "bb_ok ex st'"
proof (cases "(f = 0 \<and> g = 0 \<and> h = 0 \<and> k = 0) \<or> (g = 0 \<and> h \<noteq> 0)")
  case False
  obtain ok1 s1 ok2 s2 where
    s: "when_set f (drmgr_bb_cb_add App2app 0 0 0 f 0 0 p) True st = Inr (ok1, s1)"
      "when_set g (drmgr_bb_cb_add Instrumentation 0 0 h 0 g 0 p) ok1 s1 = Inr (ok2, s2)"
      "when_set k (drmgr_bb_cb_add Instru2instru 0 0 0 0 0 k p) ok2 s2 = Inr (b, st')"
    using assms(1) unfolding drmgr_register_bb_instrumentation_ex_event_def if_not_P [OF False] by (elim bind_pair) (rule that)
  have o1: "bb_ok ex s1"
    by (rule when_set_keeps [OF s(1) assms(2)], erule bb_cb_add_keeps [OF _ assms(2)]) (use assms(3) in \<open>auto simp: new_callback_def\<close>)
  have o2: "bb_ok ex s2"
    by (rule when_set_keeps [OF s(2) o1], erule bb_cb_add_keeps [OF _ o1]) (use assms(3) in \<open>auto simp: new_callback_def\<close>)
  show ?thesis
    by (rule when_set_keeps [OF s(3) o2], erule bb_cb_add_keeps [OF _ o2]) (use assms(3) in \<open>auto simp: new_callback_def\<close>)
qed (use assms in \<open>auto simp: drmgr_register_bb_instrumentation_ex_event_def\<close>)

lemma unregister_ex_keeps:
  assumes "drmgr_unregister_bb_instrumentation_ex_event f g h k st = Inr (b, st')" "bb_ok ex st" "{f, g, k} - {0} \<subseteq> ex"
  shows "bb_ok ex st'"
proof (cases "(f = 0 \<and> g = 0 \<and> h = 0 \<and> k = 0) \<or> (g = 0 \<and> h \<noteq> 0)")
  case False
  obtain ok1 s1 ok2 s2 where
    s: "when_set f (drmgr_bb_cb_remove App2app 0 0 0 f 0 0) True st = Inr (ok1, s1)"
      "when_set g (drmgr_bb_cb_remove Instrumentation 0 0 0 0 g 0) ok1 s1 = Inr (ok2, s2)"
      "when_set k (drmgr_bb_cb_remove Instru2instru 0 0 0 0 0 k) ok2 s2 = Inr (b, st')"
    using assms(1) unfolding drmgr_unregister_bb_instrumentation_ex_event_def if_not_P [OF False] by (elim bind_pair) (rule that)
  have o1: "bb_ok ex s1"
    by (rule when_set_keeps [OF s(1) assms(2)], erule bb_cb_remove_keeps [OF _ assms(2)]) (use assms(3) in \<open>auto simp: removal_typed_def\<close>)
  have o2: "bb_ok ex s2"
    by (rule when_set_keeps [OF s(2) o1], erule bb_cb_remove_keeps [OF _ o1]) (use assms(3) in \<open>auto simp: removal_typed_def\<close>)
  show ?thesis
    by (rule when_set_keeps [OF s(3) o2], erule bb_cb_remove_keeps [OF _ o2]) (use assms(3) in \<open>auto simp: removal_typed_def\<close>)
qed (use assms in \<open>auto simp: drmgr_unregister_bb_instrumentation_ex_event_def\<close>)

lemma bb_reach_ok:
  assumes "bb_reach ex st" "0 \<notin> ex"
  shows "bb_ok ex st"
  using assms(1)
proof (induction rule: bb_reach.induct)
  case bb_init
  then show ?case by (rule bb_ok_init)
next
  case (bb_app2app st f p b st')
  then show ?case by (cases "f = 0")
    (auto simp: drmgr_register_bb_app2app_event_def new_callback_def elim!: bb_cb_add_keeps)
next
  case (bb_instrumentation st f g p b st')
  then show ?case by (cases "f = 0 \<and> g = 0")
    (auto simp: drmgr_register_bb_instrumentation_event_def new_callback_def elim!: bb_cb_add_keeps)
next
  case (bb_instru2instru st f p b st')
  then show ?case by (cases "f = 0")
    (auto simp: drmgr_register_bb_instru2instru_event_def new_callback_def elim!: bb_cb_add_keeps)
next
  case (bb_ex st f g k h p b st')
  show ?case by (rule register_ex_keeps [OF bb_ex(3,4,2)])
next
  case (bb_un_app2app st f b st')
  then show ?case by (cases "f = 0")
    (auto simp: drmgr_unregister_bb_app2app_event_def removal_typed_def elim!: bb_cb_remove_keeps)
next
  case (bb_un_instrumentation st f b st')
  then show ?case by (cases "f = 0")
    (auto simp: drmgr_unregister_bb_instrumentation_event_def removal_typed_def elim!: bb_cb_remove_keeps)
next
  case (bb_un_insertion st f b st')
  then show ?case by (cases "f = 0")
    (auto simp: drmgr_unregister_bb_insertion_event_def removal_typed_def elim!: bb_cb_remove_keeps)
next
  case (bb_un_instru2instru st f b st')
  then show ?case by (cases "f = 0")
    (auto simp: drmgr_unregister_bb_instru2instru_event_def removal_typed_def elim!: bb_cb_remove_keeps)
next
  case (bb_un_ex st f g k h b st')
  show ?case by (rule unregister_ex_keeps [OF bb_un_ex(3,4,2)])
qed

section \<open>The order of the quartets\<close>

text \<open>The callbacks of a component: the four functions in the order of \<open>drmgr_register_bb_instrumentation_ex_event\<close>.\<close>

type_synonym quartet = "ptr \<times> ptr \<times> ptr \<times> ptr"

fun quartet_part :: "bb_list \<Rightarrow> quartet \<Rightarrow> bb_cb" where
  "quartet_part App2app (f, g, h, k) = \<lparr>has_quartet = True, cb0 = f, cb1 = 0\<rparr>"
| "quartet_part Instrumentation (f, g, h, k) = \<lparr>has_quartet = True, cb0 = g, cb1 = h\<rparr>"
| "quartet_part Instru2instru (f, g, h, k) = \<lparr>has_quartet = True, cb0 = k, cb1 = 0\<rparr>"

definition quartet_view :: "bb_cb cb_list \<Rightarrow> (int \<times> bb_cb) list" where
  "quartet_view l = filter (has_quartet \<circ> snd) (map (\<lambda>e. (pe_priority e, the (pe_cb e))) (live l))"

definition plain :: "drmgr_priority option \<Rightarrow> bool" where
  "plain priority \<longleftrightarrow> (case priority of None \<Rightarrow> True | Some p \<Rightarrow> dp_before p = None \<and> dp_after p = None)"

definition numeric :: "drmgr_priority option \<Rightarrow> int" where
  "numeric priority = (case priority of None \<Rightarrow> 0 | Some p \<Rightarrow> dp_priority p)"

lemma event_add_True:
  assumes "event_add l p c = Inr (True, l')" "events_ok l"
  obtains xs ys e where "live l = xs @ ys" "live l' = xs @ [e] @ ys" "pe_cb e = Some c" "pe_priority e = numeric p"
    "\<forall>x \<in> set xs. pe_priority x \<le> numeric p" "plain p \<Longrightarrow> \<forall>y \<in> set ys. numeric p < pe_priority y"
proof -
  let ?np = "case p of None \<Rightarrow> default_priority | Some p \<Rightarrow> p"
  have np: "dp_priority ?np = numeric p" "plain p \<Longrightarrow> dp_before ?np = None"
    by (auto simp: numeric_def plain_def default_priority_def split: option.splits)
  obtain n where n: "dp_sized ?np" "dp_name ?np = Some n"
    using assms(1) by (cases "dp_name ?np"; cases "dp_sized ?np") (auto simp: event_add_def priority_event_add_def Let_def)
  have f: "\<not> ((p \<noteq> None \<and> n \<in> pe_name ` set (live l)) \<or> (\<nexists>xs ys. live l = xs @ ys \<and> fits ?np xs ys))"
  proof
    assume t: "(p \<noteq> None \<and> n \<in> pe_name ` set (live l)) \<or> (\<nexists>xs ys. live l = xs @ ys \<and> fits ?np xs ys)"
    from event_add_ok [OF assms(2) refl n, of c, unfolded if_P [OF t]] assms(1) show False by simp
  qed
  from event_add_ok [OF assms(2) refl n, of c, unfolded if_not_P [OF f]]
  obtain l2 xs ys e where "event_add l p c = Inr (True, l2)" "live l = xs @ ys" "live l2 = xs @ [e] @ ys" "fits ?np xs ys"
    "dp_before ?np = None \<longrightarrow> (\<forall>y \<in> set ys. dp_priority ?np < pe_priority y)" "pe_priority e = dp_priority ?np" "pe_cb e = Some c"
    by (elim exE conjE) (rule that)
  then show ?thesis using assms(1) np by (intro that [of xs ys e]) (auto simp: fits_def)
qed

lemma filter_split_priority:
  assumes "\<forall>x \<in> set xs. f x \<le> (p :: int)" "\<forall>y \<in> set ys. p < f y"
  shows "filter (\<lambda>x. f x \<le> p) (xs @ ys) = xs" "filter (\<lambda>x. p < f x) (xs @ ys) = ys"
  using assms by (force simp: filter_empty_conv)+

lemma quartet_view_add:
  assumes "event_add l p c = Inr (True, l')" "events_ok l" "has_quartet c" "plain p"
  shows "quartet_view l' = filter (\<lambda>e. fst e \<le> numeric p) (quartet_view l) @ [(numeric p, c)] @
    filter (\<lambda>e. numeric p < fst e) (quartet_view l)"
proof -
  let ?v = "\<lambda>e. (pe_priority e, the (pe_cb e))" and ?q = "has_quartet \<circ> snd :: int \<times> bb_cb \<Rightarrow> bool"
  from assms(1,2) obtain xs ys e where e: "live l = xs @ ys" "live l' = xs @ [e] @ ys" "pe_cb e = Some c" "pe_priority e = numeric p"
    "\<forall>x \<in> set xs. pe_priority x \<le> numeric p" "\<forall>y \<in> set ys. numeric p < pe_priority y"
    by (rule event_add_True) (use assms(4) in blast)
  have "\<forall>x \<in> set (filter ?q (map ?v xs)). fst x \<le> numeric p" "\<forall>y \<in> set (filter ?q (map ?v ys)). numeric p < fst y"
    using e(5,6) by auto
  note f = filter_split_priority [OF this]
  have v: "quartet_view l = filter ?q (map ?v xs) @ filter ?q (map ?v ys)" by (simp add: quartet_view_def e(1))
  have "quartet_view l' = filter ?q (map ?v xs) @ [(numeric p, c)] @ filter ?q (map ?v ys)"
    using assms(3) by (simp add: quartet_view_def e(2,3,4))
  then show ?thesis unfolding v f by simp
qed

lemma quartet_view_other:
  assumes "event_add l p c = Inr (True, l')" "events_ok l" "\<not> has_quartet c"
  shows "quartet_view l' = quartet_view l"
  using assms(1,2) by (rule event_add_True) (use assms(3) in \<open>simp add: quartet_view_def\<close>)

lemma filter_key:
  fixes k a :: "'b :: linorder"
  shows "filter (\<lambda>z. k = f z) (filter (\<lambda>y. f y \<le> a) xs) = (if k \<le> a then filter (\<lambda>z. k = f z) xs else [])"
    "filter (\<lambda>z. k = f z) (filter (\<lambda>y. a < f y) xs) = (if a < k then filter (\<lambda>z. k = f z) xs else [])"
  by (induction xs) auto

lemma sort_key_snoc:
  "sort_key f (xs @ [x]) = filter (\<lambda>y. f y \<le> f x) (sort_key f xs) @ [x] @ filter (\<lambda>y. f x < f y) (sort_key f xs)"
proof (rule properties_for_sort_key)
  have "mset (filter (\<lambda>y. f y \<le> f x) ys) + mset (filter (\<lambda>y. f x < f y) ys) = mset ys" for ys
    by (induction ys) auto
  from this [of "sort_key f xs"]
  show "mset (filter (\<lambda>y. f y \<le> f x) (sort_key f xs) @ [x] @ filter (\<lambda>y. f x < f y) (sort_key f xs)) = mset (xs @ [x])"
    unfolding mset_append mset_sort by (metis add.assoc add.commute)
next
  fix k
  have "filter (\<lambda>z. f k = f z) (sort_key f xs) = filter (\<lambda>z. f k = f z) xs"
    using sort_key_stable [of f "f k" xs] unfolding eq_commute [of "f k"] .
  then have st: "filter (\<lambda>z. f k = f z) (filter (\<lambda>y. f y \<le> f x) (sort_key f xs) @ [x] @ filter (\<lambda>y. f x < f y) (sort_key f xs)) =
      (if f k \<le> f x then filter (\<lambda>z. f k = f z) xs else []) @ filter (\<lambda>z. f k = f z) [x] @
      (if f x < f k then filter (\<lambda>z. f k = f z) xs else [])"
    by (simp only: filter_append filter_key)
  show "filter (\<lambda>z. f k = f z) (filter (\<lambda>y. f y \<le> f x) (sort_key f xs) @ [x] @ filter (\<lambda>y. f x < f y) (sort_key f xs)) =
      filter (\<lambda>z. f k = f z) (xs @ [x])"
    unfolding st by (cases "f k \<le> f x") (auto simp: not_le)
next
  have 1: "sorted (map f (filter (\<lambda>y. f y \<le> f x) (sort_key f xs)))" "sorted (map f (filter (\<lambda>y. f x < f y) (sort_key f xs)))"
    by (rule sorted_filter, rule sorted_sort_key)+
  show "sorted (map f (filter (\<lambda>y. f y \<le> f x) (sort_key f xs) @ [x] @ filter (\<lambda>y. f x < f y) (sort_key f xs)))"
    unfolding map_append sorted_append using 1 by auto
qed

text \<open>\<open>regs\<close> lists the complete quartets in the order of their registration, with the numeric priority. The other
  registrations may ask for any place and may fail.\<close>

inductive quartet_reach :: "ptr set \<Rightarrow> (int \<times> quartet) list \<Rightarrow> bb_state \<Rightarrow> bool" for ex where
  quartet_init: "quartet_reach ex [] drmgr_bb_init"
| quartet_full: "quartet_reach ex regs st \<Longrightarrow> {f, g, k} \<subseteq> ex \<Longrightarrow> h \<noteq> 0 \<Longrightarrow> plain p \<Longrightarrow>
    drmgr_register_bb_instrumentation_ex_event f g h k p st = Inr (True, st') \<Longrightarrow>
    quartet_reach ex (regs @ [(numeric p, f, g, h, k)]) st'"
| quartet_app2app: "quartet_reach ex regs st \<Longrightarrow> f \<notin> ex \<Longrightarrow>
    drmgr_register_bb_app2app_event f p st = Inr (b, st') \<Longrightarrow> quartet_reach ex regs st'"
| quartet_instrumentation: "quartet_reach ex regs st \<Longrightarrow> f \<notin> ex \<Longrightarrow>
    drmgr_register_bb_instrumentation_event f g p st = Inr (b, st') \<Longrightarrow> quartet_reach ex regs st'"
| quartet_instru2instru: "quartet_reach ex regs st \<Longrightarrow> f \<notin> ex \<Longrightarrow>
    drmgr_register_bb_instru2instru_event f p st = Inr (b, st') \<Longrightarrow> quartet_reach ex regs st'"

lemma quartet_reach_bb: "quartet_reach ex regs st \<Longrightarrow> bb_reach ex st"
  by (induction rule: quartet_reach.induct) (auto intro: bb_reach.intros)

lemma bb_cb_add_event:
  assumes "drmgr_bb_cb_add w xf an ins a2 anx i2 p st = Inr (b, st')"
  shows "\<exists>l. event_add (lists st w) p (new_callback xf an ins a2 anx i2) = Inr (b, l) \<and> lists st' = (lists st)(w := l)"
  using assms unfolding drmgr_bb_cb_add_def Let_def new_callback_def [symmetric] bind_res_Inr_iff by (cases b) auto

lemma bb_cb_add_others:
  assumes "drmgr_bb_cb_add w xf an ins 0 0 0 p st = Inr (b, st')" "bb_ok ex st"
  shows "quartet_view (lists st' v) = quartet_view (lists st v)"
proof -
  let ?c = "new_callback xf an ins 0 0 0"
  from bb_cb_add_event [OF assms(1)] obtain l where l: "event_add (lists st w) p ?c = Inr (b, l)" "lists st' = (lists st)(w := l)" by auto
  have ok: "events_ok (lists st w)" by (rule bb_okD [OF assms(2)])
  have "\<not> has_quartet ?c" by (simp add: new_callback_def)
  with l ok have "quartet_view l = quartet_view (lists st w)"
    using event_add_total [OF ok, of p ?c] by (cases b) (auto intro: quartet_view_other)
  with l(2) show ?thesis by simp
qed

lemma register_ex_parts:
  assumes "drmgr_register_bb_instrumentation_ex_event f g h k p st = Inr (True, st')" "bb_ok ex st" "{f, g, k} \<subseteq> ex" "0 \<notin> ex"
  shows "event_add (lists st w) p (quartet_part w (f, g, h, k)) = Inr (True, lists st' w)"
proof -
  have nz: "f \<noteq> 0" "g \<noteq> 0" "k \<noteq> 0" using assms(3,4) by auto
  then have n: "\<not> ((f = 0 \<and> g = 0 \<and> h = 0 \<and> k = 0) \<or> (g = 0 \<and> h \<noteq> 0))" by simp
  obtain ok1 s1 ok2 s2 where
    s: "when_set f (drmgr_bb_cb_add App2app 0 0 0 f 0 0 p) True st = Inr (ok1, s1)"
      "when_set g (drmgr_bb_cb_add Instrumentation 0 0 h 0 g 0 p) ok1 s1 = Inr (ok2, s2)"
      "when_set k (drmgr_bb_cb_add Instru2instru 0 0 0 0 0 k p) ok2 s2 = Inr (True, st')"
    using assms(1) unfolding drmgr_register_bb_instrumentation_ex_event_def if_not_P [OF n] by (elim bind_pair) (rule that)
  have ws: "\<exists>b'. step s = Inr (b', s') \<and> b = (b' \<and> ok)" if "when_set a step ok s = Inr (b, s')" "a \<noteq> 0" for a step ok b s s'
    using that by (auto simp: when_set_def bind_res_Inr_iff)
  from ws [OF s(3) nz(3)] have 3: "drmgr_bb_cb_add Instru2instru 0 0 0 0 0 k p s2 = Inr (True, st')" "ok2" by auto
  from ws [OF s(2) nz(2)] 3(2) have 2: "drmgr_bb_cb_add Instrumentation 0 0 h 0 g 0 p s1 = Inr (True, s2)" "ok1" by auto
  from ws [OF s(1) nz(1)] 2(2) have 1: "drmgr_bb_cb_add App2app 0 0 0 f 0 0 p st = Inr (True, s1)" by auto
  from bb_cb_add_event [OF 1] bb_cb_add_event [OF 2(1)] bb_cb_add_event [OF 3(1)] nz
  show ?thesis by (cases w) (auto simp: new_callback_def)
qed

lemma quartet_views:
  assumes "quartet_reach ex regs st" "0 \<notin> ex"
  shows "quartet_view (lists st w) = map (\<lambda>(p, q). (p, quartet_part w q)) (sort_key fst regs)"
  using assms(1)
proof (induction arbitrary: w rule: quartet_reach.induct)
  case quartet_init
  then show ?case by (simp add: quartet_view_def drmgr_bb_init_def live_def entries_def cblist_init_def)
next
  case (quartet_full regs st f g k h p st')
  let ?m = "\<lambda>(p, q). (p, quartet_part w q)"
  have ok: "bb_ok ex st" by (rule bb_reach_ok [OF quartet_reach_bb [OF quartet_full(1)] assms(2)])
  have q: "has_quartet (quartet_part w (f, g, h, k))" by (cases w) simp_all
  have c: "(\<lambda>e. fst e \<le> n) \<circ> ?m = (\<lambda>e. fst e \<le> n)" "(\<lambda>e. n < fst e) \<circ> ?m = (\<lambda>e. n < fst e)" for n :: int by auto
  show ?case
    unfolding sort_key_snoc quartet_view_add [OF register_ex_parts [OF quartet_full(5) ok quartet_full(2) assms(2)] bb_okD(1) [OF ok] q quartet_full(4)]
      quartet_full.IH filter_map c
    by simp
next
  case (quartet_app2app regs st f p b st')
  have ok: "bb_ok ex st" by (rule bb_reach_ok [OF quartet_reach_bb [OF quartet_app2app(1)] assms(2)])
  with quartet_app2app(3,4) show ?case
    by (auto simp: drmgr_register_bb_app2app_event_def bb_cb_add_others split: if_splits)
next
  case (quartet_instrumentation regs st f g p b st')
  have ok: "bb_ok ex st" by (rule bb_reach_ok [OF quartet_reach_bb [OF quartet_instrumentation(1)] assms(2)])
  with quartet_instrumentation(3,4) show ?case
    by (auto simp: drmgr_register_bb_instrumentation_event_def bb_cb_add_others split: if_splits)
next
  case (quartet_instru2instru regs st f p b st')
  have ok: "bb_ok ex st" by (rule bb_reach_ok [OF quartet_reach_bb [OF quartet_instru2instru(1)] assms(2)])
  with quartet_instru2instru(3,4) show ?case
    by (auto simp: drmgr_register_bb_instru2instru_event_def bb_cb_add_others split: if_splits)
qed

lemma quartets_deliver: "quartets (deliver l) = map snd (quartet_view l)"
  by (simp add: deliver_def quartet_view_def filter_map comp_def)

section \<open>Properties\<close>

lemma accepted_iff: "(case r of Inl _ \<Rightarrow> False | Inr (b, st) \<Rightarrow> b \<and> P st) \<longleftrightarrow> (\<exists>st. r = Inr (True, st) \<and> P st)"
  by (cases r) auto



text \<open>C13. If every quartet is registered with all its four callbacks, without before and after requests, and is accepted by
  the three lists, the analysis, insertion and instru2instru callbacks of a quartet get the data its own app2app
  callback stored, and the quartets are delivered in the order of their priorities and, among equal ones, of
  their registrations.\<close>

theorem quartet_data_paired:
  assumes "quartet_reach ex regs st" "0 \<notin> ex"
  shows "\<exists>calls. drmgr_bb_event stores n st = Inr calls \<and>
    analysis_calls calls = map (\<lambda>(p, f, g, h, k). (g, Some (stores f))) (sort_key fst regs) \<and>
    instru_calls calls = map (\<lambda>(p, f, g, h, k). (k, Some (stores f))) (sort_key fst regs) \<and>
    (\<forall>i < n. insertion_calls i calls = map (\<lambda>(p, f, g, h, k). (h, Some (stores f))) (sort_key fst regs))"
proof -
  let ?s = "sort_key fst regs"
  note v = quartets_deliver quartet_views [OF assms] map_map comp_def
  have ok: "bb_ok ex st" by (rule bb_reach_ok [OF quartet_reach_bb [OF assms(1)] assms(2)])
  have h: "\<forall>(p, f, g, h, k) \<in> set regs. h \<noteq> 0" using assms(1) by (induction rule: quartet_reach.induct) auto
  have "\<forall>e \<in> set (quartets (deliver (lists st Instrumentation))). cb1 e \<noteq> 0" unfolding v using h by auto
  from block_delivery [OF ok this, of stores n] obtain calls qdata where
    c: "drmgr_bb_event stores n st = Inr calls"
      "\<forall>i < n. insertion_calls i calls = zip (map cb1 (quartets (deliver (lists st Instrumentation)))) qdata"
      "qdata = map (Some \<circ> stores \<circ> cb0) (quartets (deliver (lists st App2app))) @
        replicate (quartet_count st - length (quartets (deliver (lists st App2app)))) None"
      "analysis_calls calls = zip (map cb0 (quartets (deliver (lists st Instrumentation)))) qdata"
      "instru_calls calls = zip (map cb0 (quartets (deliver (lists st Instru2instru)))) qdata" by blast
  have z: "zip (map a xs) (map b xs @ r) = map (\<lambda>x. (a x, b x)) xs" for a :: "int \<times> quartet \<Rightarrow> ptr" and b :: "_ \<Rightarrow> ptr option" and xs r
    by (induction xs) auto
  show ?thesis using c(1,2,4,5) unfolding c(3) v z by (intro exI [of _ calls]) (auto simp: fun_eq_iff)
qed

theorem quartet_data_paired_witness:
  "\<exists>st1 st2 calls. drmgr_register_bb_instrumentation_ex_event 10 11 12 13
       (Some \<lparr>dp_sized = True, dp_name = Some ''late'', dp_before = None, dp_after = None, dp_priority = 5\<rparr>) drmgr_bb_init = Inr (True, st1) \<and>
     drmgr_register_bb_instrumentation_ex_event 20 21 22 23 None st1 = Inr (True, st2) \<and>
     drmgr_bb_event (\<lambda>f. f + 100) 1 st2 = Inr calls \<and> analysis_calls calls = [(21, Some 120), (11, Some 110)]"
proof -
  let ?p = "\<lparr>dp_sized = True, dp_name = Some ''late'', dp_before = None, dp_after = None, dp_priority = 5\<rparr> :: drmgr_priority"
  have "case drmgr_register_bb_instrumentation_ex_event 10 11 12 13 (Some ?p) drmgr_bb_init of Inl _ \<Rightarrow> False
      | Inr (b, st) \<Rightarrow> b \<and> (case drmgr_register_bb_instrumentation_ex_event 20 21 22 23 None st of Inl _ \<Rightarrow> False | Inr (b, st) \<Rightarrow> b \<and> True)"
    by code_simp
  then obtain st1 st2 where st: "drmgr_register_bb_instrumentation_ex_event 10 11 12 13 (Some ?p) drmgr_bb_init = Inr (True, st1)"
    "drmgr_register_bb_instrumentation_ex_event 20 21 22 23 None st1 = Inr (True, st2)"
    unfolding accepted_iff by blast
  have "quartet_reach {10, 11, 13, 20, 21, 23} ([] @ [(numeric (Some ?p), 10, 11, 12, 13)] @ [(numeric None, 20, 21, 22, 23)]) st2"
    unfolding append_assoc [symmetric]
    by (rule quartet_full [OF quartet_full [OF quartet_init _ _ _ st(1)] _ _ _ st(2)]) (simp_all add: plain_def)
  from quartet_data_paired [OF this, of "\<lambda>f. f + 100" 1] st show ?thesis by (auto simp: numeric_def)
qed


end
