(* ===== verification/Drmgr_Generic.thy ===== *)
theory Drmgr_Generic
  imports Drmgr_Order
begin

text \<open>
  The wrapped events of ext/drmgr/drmgr.c: threads, system calls, modules, signals, kernel transfers and the
  restoration of state, each with a list of callbacks in the order of their priorities. A UNIX build.
\<close>

section \<open>State\<close>

record generic_cb =
  g_is_ex :: bool
  g_using_data :: bool
  g_data :: ptr
  g_func :: ptr

datatype gen_list =
    Thread_init | Thread_exit | Cls_init | Cls_exit | Presys | Postsys | Modload | Modunload | Kernel_xfer | Signal | Fault

record gen_state =
  glists :: "gen_list \<Rightarrow> generic_cb cb_list"
  registered_fault :: bool

definition drmgr_event_init :: gen_state where
  "drmgr_event_init = \<lparr>glists = (\<lambda>w. cblist_init (w = Presys \<or> w = Postsys)), registered_fault = False\<rparr>"

section \<open>Registering\<close>

definition drmgr_generic_event_add_ex ::
  "gen_list \<Rightarrow> ptr \<Rightarrow> drmgr_priority option \<Rightarrow> bool \<Rightarrow> ptr \<Rightarrow> bool \<Rightarrow> gen_state \<Rightarrow> (bool \<times> gen_state) cres" where
  "drmgr_generic_event_add_ex w func priority is_using_user_data user_data is_ex st =
     (if func = 0 then Inr (False, st)
      else bind_res (event_add (glists st w) priority
                       \<lparr>g_is_ex = is_ex, g_using_data = is_using_user_data, g_data = user_data, g_func = func\<rparr>) (\<lambda>(res, l).
           Inr (res, st\<lparr>glists := (glists st)(w := l)\<rparr>)))"

definition drmgr_generic_event_add ::
  "gen_list \<Rightarrow> ptr \<Rightarrow> drmgr_priority option \<Rightarrow> bool \<Rightarrow> ptr \<Rightarrow> gen_state \<Rightarrow> (bool \<times> gen_state) cres" where
  "drmgr_generic_event_add w func priority is_using_user_data user_data st =
     drmgr_generic_event_add_ex w func priority is_using_user_data user_data False st"

definition drmgr_generic_event_remove :: "gen_list \<Rightarrow> ptr \<Rightarrow> gen_state \<Rightarrow> (bool \<times> gen_state) cres" where
  "drmgr_generic_event_remove w func st =
     (if func = 0 then Inr (False, st)
      else bind_res (event_remove (glists st w) False (\<lambda>c. g_func c = func)) (\<lambda>(res, l).
           Inr (res, st\<lparr>glists := (glists st)(w := l)\<rparr>)))"

definition drmgr_register_thread_init_event_ex :: "ptr \<Rightarrow> drmgr_priority option \<Rightarrow> gen_state \<Rightarrow> (bool \<times> gen_state) cres" where
  "drmgr_register_thread_init_event_ex func priority st = drmgr_generic_event_add Thread_init func priority False 0 st"

definition drmgr_register_thread_init_event :: "ptr \<Rightarrow> gen_state \<Rightarrow> (bool \<times> gen_state) cres" where
  "drmgr_register_thread_init_event func st = drmgr_register_thread_init_event_ex func None st"

definition drmgr_register_thread_init_event_user_data :: "ptr \<Rightarrow> drmgr_priority option \<Rightarrow> ptr \<Rightarrow> gen_state \<Rightarrow> (bool \<times> gen_state) cres" where
  "drmgr_register_thread_init_event_user_data func priority user_data st = drmgr_generic_event_add Thread_init func priority True user_data st"

definition drmgr_unregister_thread_init_event :: "ptr \<Rightarrow> gen_state \<Rightarrow> (bool \<times> gen_state) cres" where
  "drmgr_unregister_thread_init_event func st = drmgr_generic_event_remove Thread_init func st"

definition drmgr_unregister_thread_init_event_user_data :: "ptr \<Rightarrow> gen_state \<Rightarrow> (bool \<times> gen_state) cres" where
  "drmgr_unregister_thread_init_event_user_data func st = drmgr_generic_event_remove Thread_init func st"

definition drmgr_register_thread_exit_event_ex :: "ptr \<Rightarrow> drmgr_priority option \<Rightarrow> gen_state \<Rightarrow> (bool \<times> gen_state) cres" where
  "drmgr_register_thread_exit_event_ex func priority st = drmgr_generic_event_add Thread_exit func priority False 0 st"

definition drmgr_register_thread_exit_event :: "ptr \<Rightarrow> gen_state \<Rightarrow> (bool \<times> gen_state) cres" where
  "drmgr_register_thread_exit_event func st = drmgr_register_thread_exit_event_ex func None st"

definition drmgr_register_thread_exit_event_user_data :: "ptr \<Rightarrow> drmgr_priority option \<Rightarrow> ptr \<Rightarrow> gen_state \<Rightarrow> (bool \<times> gen_state) cres" where
  "drmgr_register_thread_exit_event_user_data func priority user_data st = drmgr_generic_event_add Thread_exit func priority True user_data st"

definition drmgr_unregister_thread_exit_event :: "ptr \<Rightarrow> gen_state \<Rightarrow> (bool \<times> gen_state) cres" where
  "drmgr_unregister_thread_exit_event func st = drmgr_generic_event_remove Thread_exit func st"

definition drmgr_unregister_thread_exit_event_user_data :: "ptr \<Rightarrow> gen_state \<Rightarrow> (bool \<times> gen_state) cres" where
  "drmgr_unregister_thread_exit_event_user_data func st = drmgr_generic_event_remove Thread_exit func st"

definition drmgr_register_pre_syscall_event_ex :: "ptr \<Rightarrow> drmgr_priority option \<Rightarrow> gen_state \<Rightarrow> (bool \<times> gen_state) cres" where
  "drmgr_register_pre_syscall_event_ex func priority st = drmgr_generic_event_add Presys func priority False 0 st"

definition drmgr_register_pre_syscall_event :: "ptr \<Rightarrow> gen_state \<Rightarrow> (bool \<times> gen_state) cres" where
  "drmgr_register_pre_syscall_event func st = drmgr_generic_event_add Presys func None False 0 st"

definition drmgr_register_pre_syscall_event_user_data :: "ptr \<Rightarrow> drmgr_priority option \<Rightarrow> ptr \<Rightarrow> gen_state \<Rightarrow> (bool \<times> gen_state) cres" where
  "drmgr_register_pre_syscall_event_user_data func priority user_data st = drmgr_generic_event_add Presys func priority True user_data st"

definition drmgr_unregister_pre_syscall_event :: "ptr \<Rightarrow> gen_state \<Rightarrow> (bool \<times> gen_state) cres" where
  "drmgr_unregister_pre_syscall_event func st = drmgr_generic_event_remove Presys func st"

definition drmgr_unregister_pre_syscall_event_user_data :: "ptr \<Rightarrow> gen_state \<Rightarrow> (bool \<times> gen_state) cres" where
  "drmgr_unregister_pre_syscall_event_user_data func st = drmgr_generic_event_remove Presys func st"

definition drmgr_register_post_syscall_event_ex :: "ptr \<Rightarrow> drmgr_priority option \<Rightarrow> gen_state \<Rightarrow> (bool \<times> gen_state) cres" where
  "drmgr_register_post_syscall_event_ex func priority st = drmgr_generic_event_add Postsys func priority False 0 st"

definition drmgr_register_post_syscall_event :: "ptr \<Rightarrow> gen_state \<Rightarrow> (bool \<times> gen_state) cres" where
  "drmgr_register_post_syscall_event func st = drmgr_generic_event_add Postsys func None False 0 st"

definition drmgr_register_post_syscall_event_user_data :: "ptr \<Rightarrow> drmgr_priority option \<Rightarrow> ptr \<Rightarrow> gen_state \<Rightarrow> (bool \<times> gen_state) cres" where
  "drmgr_register_post_syscall_event_user_data func priority user_data st = drmgr_generic_event_add Postsys func priority True user_data st"

definition drmgr_unregister_post_syscall_event :: "ptr \<Rightarrow> gen_state \<Rightarrow> (bool \<times> gen_state) cres" where
  "drmgr_unregister_post_syscall_event func st = drmgr_generic_event_remove Postsys func st"

definition drmgr_unregister_post_syscall_event_user_data :: "ptr \<Rightarrow> gen_state \<Rightarrow> (bool \<times> gen_state) cres" where
  "drmgr_unregister_post_syscall_event_user_data func st = drmgr_generic_event_remove Postsys func st"

definition drmgr_register_module_load_event_ex :: "ptr \<Rightarrow> drmgr_priority option \<Rightarrow> gen_state \<Rightarrow> (bool \<times> gen_state) cres" where
  "drmgr_register_module_load_event_ex func priority st = drmgr_generic_event_add Modload func priority False 0 st"

definition drmgr_register_module_load_event :: "ptr \<Rightarrow> gen_state \<Rightarrow> (bool \<times> gen_state) cres" where
  "drmgr_register_module_load_event func st = drmgr_generic_event_add Modload func None False 0 st"

definition drmgr_register_module_load_event_user_data :: "ptr \<Rightarrow> drmgr_priority option \<Rightarrow> ptr \<Rightarrow> gen_state \<Rightarrow> (bool \<times> gen_state) cres" where
  "drmgr_register_module_load_event_user_data func priority user_data st = drmgr_generic_event_add Modload func priority True user_data st"

definition drmgr_unregister_module_load_event :: "ptr \<Rightarrow> gen_state \<Rightarrow> (bool \<times> gen_state) cres" where
  "drmgr_unregister_module_load_event func st = drmgr_generic_event_remove Modload func st"

definition drmgr_unregister_module_load_event_user_data :: "ptr \<Rightarrow> gen_state \<Rightarrow> (bool \<times> gen_state) cres" where
  "drmgr_unregister_module_load_event_user_data func st = drmgr_generic_event_remove Modload func st"

definition drmgr_register_module_unload_event_ex :: "ptr \<Rightarrow> drmgr_priority option \<Rightarrow> gen_state \<Rightarrow> (bool \<times> gen_state) cres" where
  "drmgr_register_module_unload_event_ex func priority st = drmgr_generic_event_add Modunload func priority False 0 st"

definition drmgr_register_module_unload_event :: "ptr \<Rightarrow> gen_state \<Rightarrow> (bool \<times> gen_state) cres" where
  "drmgr_register_module_unload_event func st = drmgr_generic_event_add Modunload func None False 0 st"

definition drmgr_register_module_unload_event_user_data :: "ptr \<Rightarrow> drmgr_priority option \<Rightarrow> ptr \<Rightarrow> gen_state \<Rightarrow> (bool \<times> gen_state) cres" where
  "drmgr_register_module_unload_event_user_data func priority user_data st = drmgr_generic_event_add Modunload func priority True user_data st"

definition drmgr_unregister_module_unload_event :: "ptr \<Rightarrow> gen_state \<Rightarrow> (bool \<times> gen_state) cres" where
  "drmgr_unregister_module_unload_event func st = drmgr_generic_event_remove Modunload func st"

definition drmgr_unregister_module_unload_event_user_data :: "ptr \<Rightarrow> gen_state \<Rightarrow> (bool \<times> gen_state) cres" where
  "drmgr_unregister_module_unload_event_user_data func st = drmgr_generic_event_remove Modunload func st"

definition drmgr_register_signal_event_ex :: "ptr \<Rightarrow> drmgr_priority option \<Rightarrow> gen_state \<Rightarrow> (bool \<times> gen_state) cres" where
  "drmgr_register_signal_event_ex func priority st = drmgr_generic_event_add Signal func priority False 0 st"

definition drmgr_register_signal_event :: "ptr \<Rightarrow> gen_state \<Rightarrow> (bool \<times> gen_state) cres" where
  "drmgr_register_signal_event func st = drmgr_generic_event_add Signal func None False 0 st"

definition drmgr_register_signal_event_user_data :: "ptr \<Rightarrow> drmgr_priority option \<Rightarrow> ptr \<Rightarrow> gen_state \<Rightarrow> (bool \<times> gen_state) cres" where
  "drmgr_register_signal_event_user_data func priority user_data st = drmgr_generic_event_add Signal func priority True user_data st"

definition drmgr_unregister_signal_event :: "ptr \<Rightarrow> gen_state \<Rightarrow> (bool \<times> gen_state) cres" where
  "drmgr_unregister_signal_event func st = drmgr_generic_event_remove Signal func st"

definition drmgr_unregister_signal_event_user_data :: "ptr \<Rightarrow> gen_state \<Rightarrow> (bool \<times> gen_state) cres" where
  "drmgr_unregister_signal_event_user_data func st = drmgr_generic_event_remove Signal func st"

definition drmgr_register_fault_event :: "gen_state \<Rightarrow> gen_state" where
  "drmgr_register_fault_event st = (if \<not> registered_fault st then st\<lparr>registered_fault := True\<rparr> else st)"

definition drmgr_register_restore_state_event :: "ptr \<Rightarrow> gen_state \<Rightarrow> (bool \<times> gen_state) cres" where
  "drmgr_register_restore_state_event func st =
     drmgr_generic_event_add_ex Fault func None False 0 False (drmgr_register_fault_event st)"

definition drmgr_register_restore_state_ex_event :: "ptr \<Rightarrow> gen_state \<Rightarrow> (bool \<times> gen_state) cres" where
  "drmgr_register_restore_state_ex_event func st =
     drmgr_generic_event_add_ex Fault func None False 0 True (drmgr_register_fault_event st)"

definition drmgr_register_restore_state_ex_event_ex ::
  "ptr \<Rightarrow> drmgr_priority option \<Rightarrow> gen_state \<Rightarrow> (bool \<times> gen_state) cres" where
  "drmgr_register_restore_state_ex_event_ex func priority st =
     drmgr_generic_event_add_ex Fault func priority False 0 True (drmgr_register_fault_event st)"

definition drmgr_unregister_restore_state_event :: "ptr \<Rightarrow> gen_state \<Rightarrow> (bool \<times> gen_state) cres" where
  "drmgr_unregister_restore_state_event func st = drmgr_generic_event_remove Fault func st"

definition drmgr_unregister_restore_state_ex_event :: "ptr \<Rightarrow> gen_state \<Rightarrow> (bool \<times> gen_state) cres" where
  "drmgr_unregister_restore_state_ex_event func st = drmgr_generic_event_remove Fault func st"

definition drmgr_register_kernel_xfer_event_ex :: "ptr \<Rightarrow> drmgr_priority option \<Rightarrow> gen_state \<Rightarrow> (bool \<times> gen_state) cres" where
  "drmgr_register_kernel_xfer_event_ex func priority st = drmgr_generic_event_add Kernel_xfer func priority False 0 st"

definition drmgr_register_kernel_xfer_event :: "ptr \<Rightarrow> gen_state \<Rightarrow> (bool \<times> gen_state) cres" where
  "drmgr_register_kernel_xfer_event func st = drmgr_generic_event_add Kernel_xfer func None False 0 st"

definition drmgr_unregister_kernel_xfer_event :: "ptr \<Rightarrow> gen_state \<Rightarrow> (bool \<times> gen_state) cres" where
  "drmgr_unregister_kernel_xfer_event func st = drmgr_generic_event_remove Kernel_xfer func st"

section \<open>Delivering\<close>

text \<open>A call is a function with the user data it gets, None for a function without user data. What a call returns is the
  argument \<open>ret\<close>; the other arguments of the event are the same for all calls.\<close>

type_synonym gcall = "ptr \<times> ptr option"

definition call_of :: "generic_cb \<Rightarrow> gcall" where
  "call_of c = (g_func c, if g_using_data c then Some (g_data c) else None)"

definition deliver_all :: "gen_list \<Rightarrow> gen_state \<Rightarrow> gcall list" where
  "deliver_all w st = map call_of (deliver (glists st w))"

fun presyscall_loop :: "(gcall \<Rightarrow> bool) \<Rightarrow> generic_cb list \<Rightarrow> bool \<Rightarrow> gcall list \<times> bool" where
  "presyscall_loop ret [] execute = ([], execute)"
| "presyscall_loop ret (c # cs) execute =
     (let (calls, execute) = presyscall_loop ret cs (ret (call_of c) \<and> execute) in (call_of c # calls, execute))"

definition drmgr_presyscall_event :: "(gcall \<Rightarrow> bool) \<Rightarrow> gen_state \<Rightarrow> gcall list \<times> bool" where
  "drmgr_presyscall_event ret st = presyscall_loop ret (deliver (glists st Presys)) True"

definition drmgr_postsyscall_event :: "gen_state \<Rightarrow> gcall list" where
  "drmgr_postsyscall_event st = deliver_all Postsys st"

definition drmgr_modload_event :: "gen_state \<Rightarrow> gcall list" where
  "drmgr_modload_event st = deliver_all Modload st"

definition drmgr_modunload_event :: "gen_state \<Rightarrow> gcall list" where
  "drmgr_modunload_event st = deliver_all Modunload st"

datatype dr_signal_action =
    DR_SIGNAL_DELIVER | DR_SIGNAL_SUPPRESS | DR_SIGNAL_BYPASS | DR_SIGNAL_REDIRECT

fun signal_loop :: "(gcall \<Rightarrow> dr_signal_action) \<Rightarrow> generic_cb list \<Rightarrow> gcall list \<times> dr_signal_action" where
  "signal_loop ret [] = ([], DR_SIGNAL_DELIVER)"
| "signal_loop ret (c # cs) =
     (let res = ret (call_of c) in
      if res \<noteq> DR_SIGNAL_DELIVER then ([call_of c], res)
      else let (calls, res) = signal_loop ret cs in (call_of c # calls, res))"

definition drmgr_signal_event :: "(gcall \<Rightarrow> dr_signal_action) \<Rightarrow> gen_state \<Rightarrow> gcall list \<times> dr_signal_action" where
  "drmgr_signal_event ret st = signal_loop ret (deliver (glists st Signal))"

text \<open>A function of the type without a result leaves \<open>res\<close> alone, which is true there.\<close>

fun restore_loop :: "(ptr \<Rightarrow> bool) \<Rightarrow> generic_cb list \<Rightarrow> ptr list \<times> bool" where
  "restore_loop ret [] = ([], True)"
| "restore_loop ret (c # cs) =
     (let res = (if g_is_ex c then ret (g_func c) else True) in
      if \<not> res then ([g_func c], res)
      else let (calls, res) = restore_loop ret cs in (g_func c # calls, res))"

definition drmgr_restore_state_event :: "(ptr \<Rightarrow> bool) \<Rightarrow> gen_state \<Rightarrow> ptr list \<times> bool" where
  "drmgr_restore_state_event ret st = restore_loop ret (deliver (glists st Fault))"

end
