(* ===== verification/Drmgr_Storage.thy ===== *)
theory Drmgr_Storage
  imports Drmgr_Generic Registers
begin

text \<open>
  The slots of ext/drmgr/drmgr.c: reservation of thread-local and callback-local slots and of note values, and the
  contexts of a thread, a doubly linked list in memory with the current one in the thread's field.
\<close>

section \<open>Reserving slots and notes\<close>

definition MAX_NUM_TLS :: nat where "MAX_NUM_TLS = 64"

fun first_free :: "nat \<Rightarrow> bool list \<Rightarrow> nat" where
  "first_free i [] = i"
| "first_free i (t # ts) = (if \<not> t then i else first_free (i + 1) ts)"

definition drmgr_reserve_tls_cls_field :: "bool list \<Rightarrow> int \<times> bool list" where
  "drmgr_reserve_tls_cls_field taken =
     (let i = first_free 0 taken in if i < MAX_NUM_TLS then (int i, taken[i := True]) else (-1, taken))"

text \<open>The test of the index lets the value \<open>MAX_NUM_TLS\<close> through, which is outside the array.\<close>

definition drmgr_unreserve_tls_cls_field :: "bool list \<Rightarrow> int \<Rightarrow> (bool \<times> bool list) cres" where
  "drmgr_unreserve_tls_cls_field taken idx =
     (if idx < 0 \<or> idx > int MAX_NUM_TLS then Inr (False, taken)
      else if nat idx \<ge> length taken then Inl OutOfBounds
      else if taken ! nat idx then Inr (True, taken[nat idx := False])
      else Inr (False, taken))"

definition DRMGR_NOTE_NONE :: u64 where "DRMGR_NOTE_NONE = 0"

definition DR_NOTE_FIRST_RESERVED :: u64 where "DR_NOTE_FIRST_RESERVED = 0xfffffffffffffff0"

definition DRMGR_NOTE_FIRST_FREE :: u64 where "DRMGR_NOTE_FIRST_FREE = DRMGR_NOTE_NONE + 1"

definition drmgr_reserve_note_range :: "u64 \<Rightarrow> u64 \<Rightarrow> u64 \<times> u64" where
  "drmgr_reserve_note_range sz note_next =
     (if sz = 0 then (DRMGR_NOTE_NONE, note_next)
      else if note_next + sz < DR_NOTE_FIRST_RESERVED then (note_next, note_next + sz)
      else (DRMGR_NOTE_NONE, note_next))"

section \<open>State\<close>

record drmgr_state =
  gen :: gen_state
  tls_taken :: "bool list"
  cls_taken :: "bool list"

record tls_array =
  ta_tls :: "ptr list"
  ta_cls :: "ptr list"
  ta_prev :: ptr
  ta_next :: ptr

text \<open>The memory of a thread that holds contexts, the thread's field of DynamoRIO, and the contexts freed so far.\<close>

record thread_ctx =
  arrays :: "ptr \<Rightarrow> tls_array option"
  field :: ptr
  freed :: "ptr list"

definition zero_array :: tls_array where
  "zero_array = \<lparr>ta_tls = replicate MAX_NUM_TLS 0, ta_cls = replicate MAX_NUM_TLS 0, ta_prev = 0, ta_next = 0\<rparr>"

definition array_at :: "thread_ctx \<Rightarrow> ptr \<Rightarrow> tls_array cres" where
  "array_at th p = (if p = 0 then Inl NullDeref else case arrays th p of None \<Rightarrow> Inl OutOfBounds | Some a \<Rightarrow> Inr a)"

definition read_slot :: "ptr list \<Rightarrow> int \<Rightarrow> ptr cres" where
  "read_slot xs idx = (if nat idx < length xs then Inr (xs ! nat idx) else Inl OutOfBounds)"

definition write_slot :: "ptr list \<Rightarrow> int \<Rightarrow> ptr \<Rightarrow> ptr list cres" where
  "write_slot xs idx v = (if nat idx < length xs then Inr (xs[nat idx := v]) else Inl OutOfBounds)"

definition slot_taken :: "bool list \<Rightarrow> int \<Rightarrow> bool cres" where
  "slot_taken taken idx = (if nat idx < length taken then Inr (taken ! nat idx) else Inl OutOfBounds)"

section \<open>Thread-local slots\<close>

definition drmgr_register_tls_field :: "drmgr_state \<Rightarrow> int \<times> drmgr_state" where
  "drmgr_register_tls_field st = (let (i, taken) = drmgr_reserve_tls_cls_field (tls_taken st) in (i, st\<lparr>tls_taken := taken\<rparr>))"

definition drmgr_unregister_tls_field :: "int \<Rightarrow> drmgr_state \<Rightarrow> (bool \<times> drmgr_state) cres" where
  "drmgr_unregister_tls_field idx st =
     bind_res (drmgr_unreserve_tls_cls_field (tls_taken st) idx) (\<lambda>(res, taken). Inr (res, st\<lparr>tls_taken := taken\<rparr>))"

definition drmgr_get_tls_field :: "int \<Rightarrow> thread_ctx \<Rightarrow> ptr cres" where
  "drmgr_get_tls_field idx th =
     (if idx < 0 \<or> idx > int MAX_NUM_TLS \<or> field th = 0 then Inr 0
      else bind_res (array_at th (field th)) (\<lambda>a. read_slot (ta_tls a) idx))"

definition drmgr_set_tls_field :: "int \<Rightarrow> ptr \<Rightarrow> thread_ctx \<Rightarrow> (bool \<times> thread_ctx) cres" where
  "drmgr_set_tls_field idx value th =
     (if idx < 0 \<or> idx > int MAX_NUM_TLS \<or> field th = 0 then Inr (False, th)
      else bind_res (array_at th (field th)) (\<lambda>a.
           bind_res (write_slot (ta_tls a) idx value) (\<lambda>xs.
           Inr (True, th\<lparr>arrays := (arrays th)(field th := Some (a\<lparr>ta_tls := xs\<rparr>))\<rparr>))))"

section \<open>Callback-local slots\<close>

definition drmgr_register_cls_field :: "ptr \<Rightarrow> ptr \<Rightarrow> drmgr_state \<Rightarrow> (int \<times> drmgr_state) cres" where
  "drmgr_register_cls_field cb_init_func cb_exit_func st =
     (if cb_init_func = 0 \<or> cb_exit_func = 0 then Inr (-1, st)
      else bind_res (drmgr_generic_event_add Cls_init cb_init_func None False 0 (gen st)) (\<lambda>(ok, g).
           let st = st\<lparr>gen := g\<rparr> in
           if \<not> ok then Inr (-1, st)
           else bind_res (drmgr_generic_event_add Cls_exit cb_exit_func None False 0 (gen st)) (\<lambda>(ok, g).
                let st = st\<lparr>gen := g\<rparr> in
                if \<not> ok then Inr (-1, st)
                else let (i, taken) = drmgr_reserve_tls_cls_field (cls_taken st) in Inr (i, st\<lparr>cls_taken := taken\<rparr>))))"

definition drmgr_unregister_cls_field :: "ptr \<Rightarrow> ptr \<Rightarrow> int \<Rightarrow> drmgr_state \<Rightarrow> (bool \<times> drmgr_state) cres" where
  "drmgr_unregister_cls_field cb_init_func cb_exit_func idx st =
     bind_res (drmgr_generic_event_remove Cls_init cb_init_func (gen st)) (\<lambda>(res1, g).
     bind_res (drmgr_generic_event_remove Cls_exit cb_exit_func g) (\<lambda>(res2, g).
     bind_res (drmgr_unreserve_tls_cls_field (cls_taken st) idx) (\<lambda>(res3, taken).
     Inr (res3 \<and> res2 \<and> res1, st\<lparr>gen := g, cls_taken := taken\<rparr>))))"

text \<open>The test of the index and of \<open>cls_taken\<close> that the following functions share.\<close>

definition with_cls :: "int \<Rightarrow> drmgr_state \<Rightarrow> thread_ctx \<Rightarrow> 'a \<Rightarrow> (tls_array \<Rightarrow> 'a cres) \<Rightarrow> 'a cres" where
  "with_cls idx st th dflt k =
     (if idx < 0 \<or> idx > int MAX_NUM_TLS then Inr dflt
      else bind_res (slot_taken (cls_taken st) idx) (\<lambda>t.
           if \<not> t \<or> field th = 0 then Inr dflt else bind_res (array_at th (field th)) k))"

definition drmgr_get_cls_field :: "int \<Rightarrow> drmgr_state \<Rightarrow> thread_ctx \<Rightarrow> ptr cres" where
  "drmgr_get_cls_field idx st th = with_cls idx st th 0 (\<lambda>a. read_slot (ta_cls a) idx)"

definition drmgr_set_cls_field :: "int \<Rightarrow> ptr \<Rightarrow> drmgr_state \<Rightarrow> thread_ctx \<Rightarrow> (bool \<times> thread_ctx) cres" where
  "drmgr_set_cls_field idx value st th =
     with_cls idx st th (False, th) (\<lambda>a.
       bind_res (write_slot (ta_cls a) idx value) (\<lambda>xs.
       Inr (True, th\<lparr>arrays := (arrays th)(field th := Some (a\<lparr>ta_cls := xs\<rparr>))\<rparr>)))"

definition drmgr_get_parent_cls_field :: "int \<Rightarrow> drmgr_state \<Rightarrow> thread_ctx \<Rightarrow> ptr cres" where
  "drmgr_get_parent_cls_field idx st th =
     with_cls idx st th 0 (\<lambda>a.
       if ta_prev a \<noteq> 0 then bind_res (array_at th (ta_prev a)) (\<lambda>b. read_slot (ta_cls b) idx) else Inr 0)"

section \<open>The stack of contexts\<close>

text \<open>The calls of the callbacks of a slot, with their flag. \<open>p\<close> is the address that \<open>dr_thread_alloc\<close> returns. What the
  callbacks do with the slots are later operations on the thread.\<close>

definition cls_calls :: "gen_list \<Rightarrow> bool \<Rightarrow> drmgr_state \<Rightarrow> (ptr \<times> bool) list" where
  "cls_calls w flag st = map (\<lambda>c. (g_func c, flag)) (deliver (glists (gen st) w))"

definition drmgr_cls_stack_push :: "ptr \<Rightarrow> drmgr_state \<Rightarrow> thread_ctx \<Rightarrow> (bool \<times> (ptr \<times> bool) list \<times> thread_ctx) cres" where
  "drmgr_cls_stack_push p st th =
     (if field th = 0 then Inr (False, [], th)
      else bind_res (array_at th (field th)) (\<lambda>parent.
           let new_depth = (ta_next parent = 0);
               child = (if new_depth then p else ta_next parent);
               mem = (if new_depth
                      then (arrays th)(p := Some (zero_array\<lparr>ta_prev := field th\<rparr>), field th := Some (parent\<lparr>ta_next := p\<rparr>))
                      else arrays th)
           in bind_res (array_at (th\<lparr>arrays := mem\<rparr>) child) (\<lambda>c.
              Inr (True, cls_calls Cls_init new_depth st,
                   th\<lparr>arrays := mem(child := Some (c\<lparr>ta_tls := ta_tls parent\<rparr>)), field := child\<rparr>))))"

definition drmgr_cls_stack_pop :: "drmgr_state \<Rightarrow> thread_ctx \<Rightarrow> (bool \<times> (ptr \<times> bool) list \<times> thread_ctx) cres" where
  "drmgr_cls_stack_pop st th =
     (if field th = 0 then Inr (False, [], th)
      else bind_res (array_at th (field th)) (\<lambda>child.
           if ta_prev child = 0 then Inr (True, [], th)
           else bind_res (array_at th (ta_prev child)) (\<lambda>parent.
                Inr (True, cls_calls Cls_exit False st,
                     th\<lparr>arrays := (arrays th)(ta_prev child := Some (parent\<lparr>ta_tls := ta_tls child\<rparr>)), field := ta_prev child\<rparr>))))"

partial_function (option) to_first :: "thread_ctx \<Rightarrow> ptr \<Rightarrow> ptr cres option" where
  "to_first th nxt =
     (case array_at th nxt of
        Inl e \<Rightarrow> Some (Inl e)
      | Inr a \<Rightarrow> if ta_prev a \<noteq> 0 then to_first th (ta_prev a) else Some (Inr nxt))"

partial_function (option) exit_loop ::
  "drmgr_state \<Rightarrow> ptr \<Rightarrow> (ptr \<times> (ptr \<times> bool) list) list \<Rightarrow> thread_ctx \<Rightarrow> ((ptr \<times> (ptr \<times> bool) list) list \<times> thread_ctx) cres option" where
  "exit_loop st nxt calls th =
     (if nxt = 0 then Some (Inr (calls, th))
      else case array_at th nxt of
             Inl e \<Rightarrow> Some (Inl e)
           | Inr a \<Rightarrow> exit_loop st (ta_next a) (calls @ [(nxt, cls_calls Cls_exit True st)])
                        (th\<lparr>arrays := (arrays th)(nxt := None), field := nxt, freed := freed th @ [nxt]\<rparr>))"

declare to_first.simps [code] exit_loop.simps [code]

text \<open>The callbacks of each context are called with that context in the field.\<close>

definition drmgr_cls_stack_exit ::
  "drmgr_state \<Rightarrow> thread_ctx \<Rightarrow> (bool \<times> (ptr \<times> (ptr \<times> bool) list) list \<times> thread_ctx) cres option" where
  "drmgr_cls_stack_exit st th =
     (if field th = 0 then Some (Inr (False, [], th))
      else case to_first th (field th) of
             None \<Rightarrow> None
           | Some (Inl e) \<Rightarrow> Some (Inl e)
           | Some (Inr first) \<Rightarrow>
               (case exit_loop st first [] th of
                  None \<Rightarrow> None
                | Some (Inl e) \<Rightarrow> Some (Inl e)
                | Some (Inr (calls, th)) \<Rightarrow> Some (Inr (True, calls, th\<lparr>field := 0\<rparr>))))"

section \<open>Threads\<close>

definition drmgr_thread_init_event :: "ptr \<Rightarrow> drmgr_state \<Rightarrow> thread_ctx \<Rightarrow> gcall list \<times> (ptr \<times> bool) list \<times> thread_ctx" where
  "drmgr_thread_init_event p st th =
     (deliver_all Thread_init (gen st), cls_calls Cls_init True st,
      th\<lparr>arrays := (arrays th)(p := Some zero_array), field := p\<rparr>)"

definition drmgr_thread_exit_event ::
  "drmgr_state \<Rightarrow> thread_ctx \<Rightarrow> (gcall list \<times> (ptr \<times> (ptr \<times> bool) list) list \<times> thread_ctx) cres option" where
  "drmgr_thread_exit_event st th =
     (case drmgr_cls_stack_exit st th of
        None \<Rightarrow> None
      | Some (Inl e) \<Rightarrow> Some (Inl e)
      | Some (Inr (_, calls, th)) \<Rightarrow> Some (Inr (deliver_all Thread_exit (gen st), calls, th)))"

text \<open>A transfer by the kernel: drmgr enters a context before the callbacks of the event and leaves it after them. The other kinds
  of transfer are \<open>DR_XFER_OTHER\<close>.\<close>

datatype xfer_type = DR_XFER_CALLBACK_DISPATCHER | DR_XFER_CALLBACK_RETURN | DR_XFER_OTHER

definition drmgr_kernel_xfer_event ::
  "ptr \<Rightarrow> xfer_type \<Rightarrow> drmgr_state \<Rightarrow> thread_ctx \<Rightarrow> ((ptr \<times> bool) list \<times> gcall list \<times> (ptr \<times> bool) list \<times> thread_ctx) cres" where
  "drmgr_kernel_xfer_event p type st th =
     bind_res (if type = DR_XFER_CALLBACK_DISPATCHER then drmgr_cls_stack_push p st th else Inr (True, [], th)) (\<lambda>(_, enter, th).
     bind_res (if type = DR_XFER_CALLBACK_RETURN then drmgr_cls_stack_pop st th else Inr (True, [], th)) (\<lambda>(_, leave, th).
     Inr (enter, deliver_all Kernel_xfer (gen st), leave, th)))"

definition drmgr_push_cls :: "ptr \<Rightarrow> drmgr_state \<Rightarrow> thread_ctx \<Rightarrow> (bool \<times> (ptr \<times> bool) list \<times> thread_ctx) cres" where
  "drmgr_push_cls p st th = drmgr_cls_stack_push p st th"

definition drmgr_pop_cls :: "drmgr_state \<Rightarrow> thread_ctx \<Rightarrow> (bool \<times> (ptr \<times> bool) list \<times> thread_ctx) cres" where
  "drmgr_pop_cls st th = drmgr_cls_stack_pop st th"

section \<open>Access from the code cache\<close>

text \<open>The code inserted: the read of the thread's field into a register, then a load or a store relative to it.\<close>

datatype tls_code =
    Read_field reg_id
  | Load_slot reg_id reg_id u64
  | Store_slot reg_id u64 reg_id

definition reg_is_pointer_sized :: "reg_id \<Rightarrow> bool" where
  "reg_is_pointer_sized reg \<longleftrightarrow> reg \<ge> DR_REG_RAX \<and> reg \<le> DR_REG_R15"

definition OFFSET_TLS :: int where "OFFSET_TLS = 0"

definition OFFSET_CLS :: int where "OFFSET_CLS = int MAX_NUM_TLS * 8"

text \<open>The tests that the four functions share.\<close>

definition may_insert :: "int \<Rightarrow> bool list \<Rightarrow> reg_id list \<Rightarrow> thread_ctx \<Rightarrow> bool cres" where
  "may_insert idx taken regs th =
     (if idx < 0 \<or> idx > int MAX_NUM_TLS then Inr False
      else bind_res (slot_taken taken idx) (\<lambda>t.
           Inr (t \<and> field th \<noteq> 0 \<and> list_all (\<lambda>r. reg_is_gpr r \<and> reg_is_pointer_sized r) regs)))"

definition drmgr_insert_read_tls_field :: "int \<Rightarrow> reg_id \<Rightarrow> drmgr_state \<Rightarrow> thread_ctx \<Rightarrow> (bool \<times> tls_code list) cres" where
  "drmgr_insert_read_tls_field idx reg st th =
     bind_res (may_insert idx (tls_taken st) [reg] th) (\<lambda>ok.
     if \<not> ok then Inr (False, []) else Inr (True, [Read_field reg, Load_slot reg reg (word_of_int (OFFSET_TLS + idx * 8))]))"

definition drmgr_insert_write_tls_field ::
  "int \<Rightarrow> reg_id \<Rightarrow> reg_id \<Rightarrow> drmgr_state \<Rightarrow> thread_ctx \<Rightarrow> (bool \<times> tls_code list) cres" where
  "drmgr_insert_write_tls_field idx reg scratch st th =
     bind_res (may_insert idx (tls_taken st) [reg, scratch] th) (\<lambda>ok.
     if \<not> ok then Inr (False, []) else Inr (True, [Read_field scratch, Store_slot scratch (word_of_int (OFFSET_TLS + idx * 8)) reg]))"

definition drmgr_insert_read_cls_field :: "int \<Rightarrow> reg_id \<Rightarrow> drmgr_state \<Rightarrow> thread_ctx \<Rightarrow> (bool \<times> tls_code list) cres" where
  "drmgr_insert_read_cls_field idx reg st th =
     bind_res (may_insert idx (cls_taken st) [reg] th) (\<lambda>ok.
     if \<not> ok then Inr (False, []) else Inr (True, [Read_field reg, Load_slot reg reg (word_of_int (OFFSET_CLS + idx * 8))]))"

definition drmgr_insert_write_cls_field ::
  "int \<Rightarrow> reg_id \<Rightarrow> reg_id \<Rightarrow> drmgr_state \<Rightarrow> thread_ctx \<Rightarrow> (bool \<times> tls_code list) cres" where
  "drmgr_insert_write_cls_field idx reg scratch st th =
     bind_res (may_insert idx (cls_taken st) [reg, scratch] th) (\<lambda>ok.
     if \<not> ok then Inr (False, []) else Inr (True, [Read_field scratch, Store_slot scratch (word_of_int (OFFSET_CLS + idx * 8)) reg]))"

text \<open>What the inserted instructions do: the layout of \<open>tls_array_t\<close> relative to the address in the base register.\<close>

definition load_word :: "tls_array \<Rightarrow> u64 \<Rightarrow> ptr cres" where
  "load_word a off =
     (let i = unat off div 8 in
      if unat off mod 8 \<noteq> 0 then Inl OutOfBounds
      else if i < MAX_NUM_TLS then read_slot (ta_tls a) (int i)
      else if i < 2 * MAX_NUM_TLS then read_slot (ta_cls a) (int (i - MAX_NUM_TLS))
      else Inl OutOfBounds)"

definition store_word :: "tls_array \<Rightarrow> u64 \<Rightarrow> ptr \<Rightarrow> tls_array cres" where
  "store_word a off v =
     (let i = unat off div 8 in
      if unat off mod 8 \<noteq> 0 then Inl OutOfBounds
      else if i < MAX_NUM_TLS then bind_res (write_slot (ta_tls a) (int i) v) (\<lambda>xs. Inr (a\<lparr>ta_tls := xs\<rparr>))
      else if i < 2 * MAX_NUM_TLS then bind_res (write_slot (ta_cls a) (int (i - MAX_NUM_TLS)) v) (\<lambda>xs. Inr (a\<lparr>ta_cls := xs\<rparr>))
      else Inl OutOfBounds)"

fun run_tls :: "tls_code list \<Rightarrow> (reg_id \<Rightarrow> u64) \<Rightarrow> thread_ctx \<Rightarrow> ((reg_id \<Rightarrow> u64) \<times> thread_ctx) cres" where
  "run_tls [] regs th = Inr (regs, th)"
| "run_tls (Read_field r # code) regs th = run_tls code (regs(r := field th)) th"
| "run_tls (Load_slot r base off # code) regs th =
     bind_res (array_at th (regs base)) (\<lambda>a. bind_res (load_word a off) (\<lambda>v. run_tls code (regs(r := v)) th))"
| "run_tls (Store_slot base off r # code) regs th =
     bind_res (array_at th (regs base)) (\<lambda>a. bind_res (store_word a off (regs r)) (\<lambda>a.
     run_tls code regs (th\<lparr>arrays := (arrays th)(regs base := Some a)\<rparr>)))"

end
