(* ===== verification/Drmgr_Context.thy ===== *)
theory Drmgr_Context
  imports Drmgr_Storage
begin

text \<open>
  What the slots of drmgr promise: the contexts in memory implement one array of thread-local slots and a stack of
  arrays of callback-local slots, their end frees each of them once, and the inserted code agrees with the functions.
\<close>

section \<open>The linked list of contexts\<close>

definition ctx_ok :: "thread_ctx \<Rightarrow> ptr list \<Rightarrow> nat \<Rightarrow> bool" where
  "ctx_ok th chain d \<longleftrightarrow>
     distinct chain \<and> 0 \<notin> set chain \<and> dom (arrays th) = set chain \<and> d < length chain \<and> field th = chain ! d \<and>
     (\<forall>i < length chain. \<exists>a. arrays th (chain ! i) = Some a \<and> length (ta_tls a) = MAX_NUM_TLS \<and> length (ta_cls a) = MAX_NUM_TLS \<and>
        ta_prev a = (if i = 0 then 0 else chain ! (i - 1)) \<and>
        ta_next a = (if Suc i = length chain then 0 else chain ! Suc i))"

definition array_of :: "thread_ctx \<Rightarrow> ptr list \<Rightarrow> nat \<Rightarrow> tls_array" where
  "array_of th chain i = the (arrays th (chain ! i))"

lemma ctx_okD:
  assumes "ctx_ok th chain d"
  shows "distinct chain" "0 \<notin> set chain" "dom (arrays th) = set chain" "d < length chain" "field th = chain ! d" "field th \<noteq> 0"
  using assms nth_mem [of d chain] by (auto simp: ctx_ok_def simp del: nth_mem)

lemma ctx_ok_array:
  assumes "ctx_ok th chain d" "i < length chain"
  shows "arrays th (chain ! i) = Some (array_of th chain i)" "array_at th (chain ! i) = Inr (array_of th chain i)"
    "length (ta_tls (array_of th chain i)) = MAX_NUM_TLS" "length (ta_cls (array_of th chain i)) = MAX_NUM_TLS"
    "ta_prev (array_of th chain i) = (if i = 0 then 0 else chain ! (i - 1))"
    "ta_next (array_of th chain i) = (if Suc i = length chain then 0 else chain ! Suc i)" "chain ! i \<noteq> 0"
proof -
  from assms obtain a where a: "arrays th (chain ! i) = Some a" "length (ta_tls a) = MAX_NUM_TLS" "length (ta_cls a) = MAX_NUM_TLS"
    "ta_prev a = (if i = 0 then 0 else chain ! (i - 1))" "ta_next a = (if Suc i = length chain then 0 else chain ! Suc i)"
    unfolding ctx_ok_def by blast
  have eq: "array_of th chain i = a" by (simp add: array_of_def a(1))
  show nz: "chain ! i \<noteq> 0" using ctx_okD(2) [OF assms(1)] nth_mem [OF assms(2)] by metis
  show "arrays th (chain ! i) = Some (array_of th chain i)" "array_at th (chain ! i) = Inr (array_of th chain i)"
    "length (ta_tls (array_of th chain i)) = MAX_NUM_TLS" "length (ta_cls (array_of th chain i)) = MAX_NUM_TLS"
    "ta_prev (array_of th chain i) = (if i = 0 then 0 else chain ! (i - 1))"
    "ta_next (array_of th chain i) = (if Suc i = length chain then 0 else chain ! Suc i)"
    unfolding eq array_at_def using a nz by simp_all
qed

lemma ctx_okI:
  assumes "distinct chain" "0 \<notin> set chain" "dom (arrays th) = set chain" "d < length chain" "field th = chain ! d"
    and "\<And>i. i < length chain \<Longrightarrow> \<exists>a. arrays th (chain ! i) = Some a \<and> length (ta_tls a) = MAX_NUM_TLS \<and> length (ta_cls a) = MAX_NUM_TLS \<and>
      ta_prev a = (if i = 0 then 0 else chain ! (i - 1)) \<and> ta_next a = (if Suc i = length chain then 0 else chain ! Suc i)"
  shows "ctx_ok th chain d"
  using assms by (simp add: ctx_ok_def)

text \<open>Changing the slots of one context, the current context, and adding a context at the end.\<close>

lemma ctx_ok_update:
  assumes ok: "ctx_ok th chain d" and j: "j < length chain" and d': "d' < length chain"
    and a': "ta_prev a' = ta_prev (array_of th chain j)" "ta_next a' = ta_next (array_of th chain j)"
      "length (ta_tls a') = MAX_NUM_TLS" "length (ta_cls a') = MAX_NUM_TLS"
  defines "th' \<equiv> th\<lparr>arrays := (arrays th)(chain ! j := Some a'), field := chain ! d'\<rparr>"
  shows "ctx_ok th' chain d'" "i < length chain \<Longrightarrow> array_of th' chain i = (if i = j then a' else array_of th chain i)"
proof -
  have eq: "chain ! i = chain ! j \<longleftrightarrow> i = j" if "i < length chain" for i
    using ctx_okD(1) [OF ok] that j by (simp add: nth_eq_iff_index_eq)
  show "ctx_ok th' chain d'"
  proof (rule ctx_okI)
    show "dom (arrays th') = set chain" using ctx_okD(3) [OF ok] nth_mem [OF j] by (auto simp: th'_def)
  next
    fix i assume i: "i < length chain"
    show "\<exists>a. arrays th' (chain ! i) = Some a \<and> length (ta_tls a) = MAX_NUM_TLS \<and> length (ta_cls a) = MAX_NUM_TLS \<and>
      ta_prev a = (if i = 0 then 0 else chain ! (i - 1)) \<and> ta_next a = (if Suc i = length chain then 0 else chain ! Suc i)"
      using ctx_ok_array [OF ok i] a' eq [OF i] by (cases "i = j") (simp_all add: th'_def)
  qed (use ctx_okD [OF ok] d' in \<open>simp_all add: th'_def\<close>)
  show "i < length chain \<Longrightarrow> array_of th' chain i = (if i = j then a' else array_of th chain i)"
    using eq by (simp add: array_of_def th'_def)
qed

lemma ctx_ok_extend:
  assumes ok: "ctx_ok th chain d" and d: "Suc d = length chain" and p: "p \<noteq> 0" "arrays th p = None"
  defines "th' \<equiv> th\<lparr>arrays := (arrays th)(p := Some (zero_array\<lparr>ta_prev := chain ! d\<rparr>), chain ! d := Some (array_of th chain d\<lparr>ta_next := p\<rparr>))\<rparr>"
  shows "ctx_ok th' (chain @ [p]) d" "i < length chain \<Longrightarrow> ta_cls (array_of th' (chain @ [p]) i) = ta_cls (array_of th chain i)"
    "i < length chain \<Longrightarrow> ta_tls (array_of th' (chain @ [p]) i) = ta_tls (array_of th chain i)"
    "array_of th' (chain @ [p]) (Suc d) = zero_array\<lparr>ta_prev := chain ! d\<rparr>"
proof -
  have fresh: "p \<notin> set chain" using ctx_okD(3) [OF ok] p(2) by auto
  have ne: "chain ! i \<noteq> p" if "i < length chain" for i using fresh nth_mem [OF that] by metis
  have eq: "chain ! i = chain ! d \<longleftrightarrow> i = d" if "i < length chain" for i
    using ctx_okD(1) [OF ok] that d by (simp add: nth_eq_iff_index_eq)
  have at: "arrays th' (chain ! i) = Some (if i = d then array_of th chain d\<lparr>ta_next := p\<rparr> else array_of th chain i)" if "i < length chain" for i
    using ctx_ok_array(1) [OF ok that] ne [OF that] eq [OF that] by (simp add: th'_def)
  have at_p: "arrays th' p = Some (zero_array\<lparr>ta_prev := chain ! d\<rparr>)" using ne [of d] d by (simp add: th'_def)
  show "ctx_ok th' (chain @ [p]) d"
  proof (rule ctx_okI)
    show "dom (arrays th') = set (chain @ [p])" using ctx_okD(3) [OF ok] nth_mem [of d chain] d by (auto simp: th'_def)
  next
    fix i assume "i < length (chain @ [p])"
    then consider "i < length chain" | "i = length chain" by fastforce
    then show "\<exists>a. arrays th' ((chain @ [p]) ! i) = Some a \<and> length (ta_tls a) = MAX_NUM_TLS \<and> length (ta_cls a) = MAX_NUM_TLS \<and>
      ta_prev a = (if i = 0 then 0 else (chain @ [p]) ! (i - 1)) \<and>
      ta_next a = (if Suc i = length (chain @ [p]) then 0 else (chain @ [p]) ! Suc i)"
    proof cases
      case 1
      then show ?thesis using ctx_ok_array [OF ok 1] at [OF 1] d by (cases "i = d") (auto simp: nth_append)
    next
      case 2
      then show ?thesis using at_p d [symmetric] by (simp add: nth_append zero_array_def)
    qed
  qed (use ctx_okD [OF ok] p fresh d in \<open>auto simp: th'_def nth_append\<close>)
  show "i < length chain \<Longrightarrow> ta_cls (array_of th' (chain @ [p]) i) = ta_cls (array_of th chain i)"
    "i < length chain \<Longrightarrow> ta_tls (array_of th' (chain @ [p]) i) = ta_tls (array_of th chain i)"
    "array_of th' (chain @ [p]) (Suc d) = zero_array\<lparr>ta_prev := chain ! d\<rparr>"
    using at [of i] at_p d by (auto simp: array_of_def nth_append)
qed

section \<open>The operations and their specification\<close>

datatype ctx_op = Push ptr | Pop | Set_tls int ptr | Get_tls int | Set_cls int ptr | Get_cls int | Get_parent int

datatype ctx_out = Done bool "(ptr \<times> bool) list" | Value ptr

fun ctx_step :: "drmgr_state \<Rightarrow> ctx_op \<Rightarrow> thread_ctx \<Rightarrow> (ctx_out \<times> thread_ctx) cres" where
  "ctx_step st (Push p) th = bind_res (drmgr_cls_stack_push p st th) (\<lambda>(b, calls, th). Inr (Done b calls, th))"
| "ctx_step st Pop th = bind_res (drmgr_cls_stack_pop st th) (\<lambda>(b, calls, th). Inr (Done b calls, th))"
| "ctx_step st (Set_tls i v) th = bind_res (drmgr_set_tls_field i v th) (\<lambda>(b, th). Inr (Done b [], th))"
| "ctx_step st (Get_tls i) th = bind_res (drmgr_get_tls_field i th) (\<lambda>v. Inr (Value v, th))"
| "ctx_step st (Set_cls i v) th = bind_res (drmgr_set_cls_field i v st th) (\<lambda>(b, th). Inr (Done b [], th))"
| "ctx_step st (Get_cls i) th = bind_res (drmgr_get_cls_field i st th) (\<lambda>v. Inr (Value v, th))"
| "ctx_step st (Get_parent i) th = bind_res (drmgr_get_parent_cls_field i st th) (\<lambda>v. Inr (Value v, th))"

text \<open>One array of thread-local slots, one array of callback-local slots for each depth reached so far.\<close>

record ctx_spec =
  sp_tls :: "ptr list"
  sp_cls :: "ptr list list"
  sp_depth :: nat

definition slot_range :: "int \<Rightarrow> bool" where
  "slot_range i \<longleftrightarrow> 0 \<le> i \<and> i < int MAX_NUM_TLS"

fun spec_step :: "drmgr_state \<Rightarrow> ctx_op \<Rightarrow> ctx_spec \<Rightarrow> ctx_out \<times> ctx_spec" where
  "spec_step st (Push p) sp =
     (let new = (Suc (sp_depth sp) = length (sp_cls sp)) in
      (Done True (cls_calls Cls_init new st),
       sp\<lparr>sp_cls := (if new then sp_cls sp @ [replicate MAX_NUM_TLS 0] else sp_cls sp), sp_depth := Suc (sp_depth sp)\<rparr>))"
| "spec_step st Pop sp =
     (if sp_depth sp = 0 then (Done True [], sp)
      else (Done True (cls_calls Cls_exit False st), sp\<lparr>sp_depth := sp_depth sp - 1\<rparr>))"
| "spec_step st (Set_tls i v) sp = (if slot_range i then (Done True [], sp\<lparr>sp_tls := (sp_tls sp)[nat i := v]\<rparr>) else (Done False [], sp))"
| "spec_step st (Get_tls i) sp = (Value (if slot_range i then sp_tls sp ! nat i else 0), sp)"
| "spec_step st (Set_cls i v) sp =
     (if slot_range i \<and> cls_taken st ! nat i
      then (Done True [], sp\<lparr>sp_cls := (sp_cls sp)[sp_depth sp := (sp_cls sp ! sp_depth sp)[nat i := v]]\<rparr>)
      else (Done False [], sp))"
| "spec_step st (Get_cls i) sp = (Value (if slot_range i \<and> cls_taken st ! nat i then sp_cls sp ! sp_depth sp ! nat i else 0), sp)"
| "spec_step st (Get_parent i) sp =
     (Value (if slot_range i \<and> cls_taken st ! nat i \<and> sp_depth sp > 0 then sp_cls sp ! (sp_depth sp - 1) ! nat i else 0), sp)"

definition ctx_rel :: "thread_ctx \<Rightarrow> ctx_spec \<Rightarrow> ptr list \<Rightarrow> bool" where
  "ctx_rel th sp chain \<longleftrightarrow>
     ctx_ok th chain (sp_depth sp) \<and> ta_tls (array_of th chain (sp_depth sp)) = sp_tls sp \<and>
     sp_cls sp = map (\<lambda>i. ta_cls (array_of th chain i)) [0..<length chain]"

text \<open>The allocator returns memory that is not in use, and the index is not the one that the tests miss.\<close>

fun ctx_valid :: "ctx_op \<Rightarrow> thread_ctx \<Rightarrow> bool" where
  "ctx_valid (Push p) th \<longleftrightarrow> p \<noteq> 0 \<and> arrays th p = None"
| "ctx_valid Pop th \<longleftrightarrow> True"
| "ctx_valid (Set_tls i v) th \<longleftrightarrow> i \<noteq> int MAX_NUM_TLS"
| "ctx_valid (Get_tls i) th \<longleftrightarrow> i \<noteq> int MAX_NUM_TLS"
| "ctx_valid (Set_cls i v) th \<longleftrightarrow> i \<noteq> int MAX_NUM_TLS"
| "ctx_valid (Get_cls i) th \<longleftrightarrow> i \<noteq> int MAX_NUM_TLS"
| "ctx_valid (Get_parent i) th \<longleftrightarrow> i \<noteq> int MAX_NUM_TLS"

lemma slot_ops:
  assumes "slot_range i" "length xs = MAX_NUM_TLS"
  shows "read_slot xs i = Inr (xs ! nat i)" "write_slot xs i v = Inr (xs[nat i := v])"
  using assms by (simp_all add: slot_range_def read_slot_def write_slot_def nat_less_iff)

lemma with_cls_eq:
  assumes "ctx_ok th chain d" "i \<noteq> int MAX_NUM_TLS" "length (cls_taken st) = MAX_NUM_TLS"
  shows "with_cls i st th dflt k = (if slot_range i \<and> cls_taken st ! nat i then k (array_of th chain d) else Inr dflt)"
  using assms ctx_okD [OF assms(1)] ctx_ok_array(2) [OF assms(1) ctx_okD(4) [OF assms(1)]]
  by (auto simp: with_cls_def slot_range_def slot_taken_def nat_less_iff)

lemma tls_guard:
  assumes "ctx_ok th chain d" "i \<noteq> int MAX_NUM_TLS"
  shows "(i < 0 \<or> i > int MAX_NUM_TLS \<or> field th = 0) \<longleftrightarrow> \<not> slot_range i"
  using assms(2) ctx_okD(6) [OF assms(1)] by (auto simp: slot_range_def)

text \<open>Writing the slots of the current context.\<close>

lemma ctx_rel_update:
  assumes rel: "ctx_rel th sp chain" and j: "j < length chain" and d': "d' < length chain"
    and a': "ta_prev a' = ta_prev (array_of th chain j)" "ta_next a' = ta_next (array_of th chain j)"
      "length (ta_tls a') = MAX_NUM_TLS" "length (ta_cls a') = MAX_NUM_TLS"
    and tls: "ta_tls (if d' = j then a' else array_of th chain d') = xs"
  shows "ctx_rel (th\<lparr>arrays := (arrays th)(chain ! j := Some a'), field := chain ! d'\<rparr>)
    (sp\<lparr>sp_tls := xs, sp_cls := (sp_cls sp)[j := ta_cls a'], sp_depth := d'\<rparr>) chain"
proof -
  have ok: "ctx_ok th chain (sp_depth sp)" and cls: "sp_cls sp = map (\<lambda>i. ta_cls (array_of th chain i)) [0..<length chain]"
    using rel by (simp_all add: ctx_rel_def)
  note u = ctx_ok_update [OF ok j d' a']
  have "(sp_cls sp)[j := ta_cls a'] = map (\<lambda>i. ta_cls (if i = j then a' else array_of th chain i)) [0..<length chain]"
    unfolding cls by (rule nth_equalityI) (simp_all add: nth_list_update)
  then show ?thesis using u tls d' by (simp add: ctx_rel_def)
qed

section \<open>The simulation\<close>

lemma sim_pop:
  assumes rel: "ctx_rel th sp chain"
  shows "\<exists>th'. ctx_step st Pop th = Inr (fst (spec_step st Pop sp), th') \<and> ctx_rel th' (snd (spec_step st Pop sp)) chain"
proof -
  let ?d = "sp_depth sp"
  have ok: "ctx_ok th chain ?d" and t: "ta_tls (array_of th chain ?d) = sp_tls sp" and cls: "length (sp_cls sp) = length chain"
    using rel by (simp_all add: ctx_rel_def)
  note d = ctx_okD(4) [OF ok] and c = ctx_ok_array [OF ok ctx_okD(4) [OF ok]]
  show ?thesis
  proof (cases "?d = 0")
    case True
    then show ?thesis using rel c ctx_okD(5,6) [OF ok] by (simp add: drmgr_cls_stack_pop_def)
  next
    case False
    then have d1: "?d - 1 < length chain" using d by simp
    note p = ctx_ok_array [OF ok d1]
    let ?a = "array_of th chain (?d - 1)\<lparr>ta_tls := sp_tls sp\<rparr>"
    have "ctx_rel (th\<lparr>arrays := (arrays th)(chain ! (?d - 1) := Some ?a), field := chain ! (?d - 1)\<rparr>)
        (sp\<lparr>sp_tls := sp_tls sp, sp_cls := (sp_cls sp)[?d - 1 := ta_cls ?a], sp_depth := ?d - 1\<rparr>) chain"
      by (rule ctx_rel_update [OF rel d1 d1]) (use p(4) c(3) t in auto)
    moreover have "(sp_cls sp)[?d - 1 := ta_cls ?a] = sp_cls sp"
      using rel d1 by (simp add: ctx_rel_def list_update_same_conv)
    ultimately show ?thesis using False p(2,7) c(2,5) t ctx_okD(5,6) [OF ok] by (simp add: drmgr_cls_stack_pop_def)
  qed
qed

lemma sim_push:
  assumes rel: "ctx_rel th sp chain" and p: "p \<noteq> 0" "arrays th p = None"
  shows "\<exists>th' chain'. ctx_step st (Push p) th = Inr (fst (spec_step st (Push p) sp), th') \<and>
    ctx_rel th' (snd (spec_step st (Push p) sp)) chain'"
proof -
  let ?d = "sp_depth sp"
  have ok: "ctx_ok th chain ?d" and t: "ta_tls (array_of th chain ?d) = sp_tls sp" and len: "length (sp_cls sp) = length chain"
    using rel by (simp_all add: ctx_rel_def)
  note d = ctx_okD(4) [OF ok] and c = ctx_ok_array [OF ok ctx_okD(4) [OF ok]]
  show ?thesis
  proof (cases "Suc ?d = length chain")
    case False
    then have d1: "Suc ?d < length chain" using d by simp
    note n = ctx_ok_array [OF ok d1]
    let ?a = "array_of th chain (Suc ?d)\<lparr>ta_tls := sp_tls sp\<rparr>"
    have "ctx_rel (th\<lparr>arrays := (arrays th)(chain ! Suc ?d := Some ?a), field := chain ! Suc ?d\<rparr>)
        (sp\<lparr>sp_tls := sp_tls sp, sp_cls := (sp_cls sp)[Suc ?d := ta_cls ?a], sp_depth := Suc ?d\<rparr>) chain"
      by (rule ctx_rel_update [OF rel d1 d1]) (use n(4) c(3) t in auto)
    moreover have "(sp_cls sp)[Suc ?d := ta_cls ?a] = sp_cls sp"
      using rel d1 by (simp add: ctx_rel_def list_update_same_conv)
    ultimately show ?thesis using False n(2,7) c(2,6) t len ctx_okD(5,6) [OF ok]
      by (intro exI [of _ "th\<lparr>arrays := (arrays th)(chain ! Suc ?d := Some ?a), field := chain ! Suc ?d\<rparr>"] exI [of _ chain])
        (simp add: drmgr_cls_stack_push_def Let_def)
  next
    case True
    let ?th = "th\<lparr>arrays := (arrays th)(p := Some (zero_array\<lparr>ta_prev := chain ! ?d\<rparr>),
        chain ! ?d := Some (array_of th chain ?d\<lparr>ta_next := p\<rparr>))\<rparr>"
    let ?z = "zero_array\<lparr>ta_prev := chain ! ?d\<rparr>"
    note e = ctx_ok_extend [OF ok True p]
    have d1: "Suc ?d < length (chain @ [p])" and last: "(chain @ [p]) ! Suc ?d = p" using True by simp_all
    have cls: "sp_cls sp @ [replicate MAX_NUM_TLS 0] = map (\<lambda>i. ta_cls (array_of ?th (chain @ [p]) i)) [0..<length (chain @ [p])]"
      using e(2,4) rel True by (simp add: ctx_rel_def zero_array_def)
    have rel': "ctx_rel ?th (sp\<lparr>sp_cls := sp_cls sp @ [replicate MAX_NUM_TLS 0]\<rparr>) (chain @ [p])"
      using e(1) e(3) [OF d] t cls by (simp add: ctx_rel_def)
    have u: "(sp_cls sp @ [replicate MAX_NUM_TLS 0])[Suc ?d := replicate MAX_NUM_TLS 0] = sp_cls sp @ [replicate MAX_NUM_TLS 0]"
      using list_update_length [of "sp_cls sp" "replicate MAX_NUM_TLS 0" "[]" "replicate MAX_NUM_TLS 0"] True len by simp
    have "ctx_rel (?th\<lparr>arrays := (arrays ?th)((chain @ [p]) ! Suc ?d := Some (?z\<lparr>ta_tls := sp_tls sp\<rparr>)), field := (chain @ [p]) ! Suc ?d\<rparr>)
        (sp\<lparr>sp_cls := sp_cls sp @ [replicate MAX_NUM_TLS 0], sp_tls := sp_tls sp,
          sp_cls := (sp_cls (sp\<lparr>sp_cls := sp_cls sp @ [replicate MAX_NUM_TLS 0]\<rparr>))[Suc ?d := ta_cls (?z\<lparr>ta_tls := sp_tls sp\<rparr>)],
          sp_depth := Suc ?d\<rparr>) (chain @ [p])"
      by (rule ctx_rel_update [OF rel' d1 d1], unfold e(4)) (use c(3) t in \<open>simp_all add: zero_array_def\<close>)
    then have "ctx_rel (?th\<lparr>arrays := (arrays ?th)(p := Some (?z\<lparr>ta_tls := sp_tls sp\<rparr>)), field := p\<rparr>)
        (sp\<lparr>sp_cls := sp_cls sp @ [replicate MAX_NUM_TLS 0], sp_depth := Suc ?d\<rparr>) (chain @ [p])"
      unfolding last by (simp add: zero_array_def u)
    moreover have "array_at ?th p = Inr ?z" using ctx_ok_array(2) [OF e(1) d1] e(4) last by simp
    ultimately show ?thesis using True c(2,6) t len ctx_okD(5,6) [OF ok]
      by (intro exI [of _ "?th\<lparr>arrays := (arrays ?th)(p := Some (?z\<lparr>ta_tls := sp_tls sp\<rparr>)), field := p\<rparr>"] exI [of _ "chain @ [p]"])
        (simp add: drmgr_cls_stack_push_def Let_def)
  qed
qed

lemma sim_slots:
  assumes rel: "ctx_rel th sp chain" and v: "ctx_valid op th" and st: "length (cls_taken st) = MAX_NUM_TLS"
    and op: "\<forall>p. op \<noteq> Push p" "op \<noteq> Pop"
  shows "\<exists>th'. ctx_step st op th = Inr (fst (spec_step st op sp), th') \<and> ctx_rel th' (snd (spec_step st op sp)) chain"
proof -
  let ?d = "sp_depth sp" and ?a = "array_of th chain (sp_depth sp)"
  have ok: "ctx_ok th chain ?d" and t: "ta_tls ?a = sp_tls sp" and len: "length (sp_cls sp) = length chain"
    using rel by (simp_all add: ctx_rel_def)
  note d = ctx_okD(4) [OF ok] and c = ctx_ok_array [OF ok ctx_okD(4) [OF ok]] and f = ctx_okD(5) [OF ok] and w = with_cls_eq [OF ok _ st]
  have lc: "sp_cls sp ! j = ta_cls (array_of th chain j)" if "j < length chain" for j using rel that by (simp add: ctx_rel_def)
  have same: "(sp_cls sp)[?d := ta_cls ?a] = sp_cls sp" using lc [OF d] by (metis list_update_id)
  have fd: "th\<lparr>arrays := m, field := chain ! ?d\<rparr> = th\<lparr>arrays := m\<rparr>" for m using f by (cases th) simp
  show ?thesis
  proof (cases op)
    case (Set_tls i x)
    then have "i \<noteq> int MAX_NUM_TLS" using v by simp
    note g = tls_guard [OF ok this]
    show ?thesis
    proof (cases "slot_range i")
      case True
      have "ctx_rel (th\<lparr>arrays := (arrays th)(chain ! ?d := Some (?a\<lparr>ta_tls := (sp_tls sp)[nat i := x]\<rparr>)), field := chain ! ?d\<rparr>)
          (sp\<lparr>sp_tls := (sp_tls sp)[nat i := x], sp_cls := (sp_cls sp)[?d := ta_cls (?a\<lparr>ta_tls := (sp_tls sp)[nat i := x]\<rparr>)], sp_depth := ?d\<rparr>) chain"
        by (rule ctx_rel_update [OF rel d d]) (use c(3,4) t in auto)
      then show ?thesis using Set_tls True g c(2,3) t slot_ops(2) [OF True] same f fd by (simp add: drmgr_set_tls_field_def)
    qed (use Set_tls g rel in \<open>simp add: drmgr_set_tls_field_def\<close>)
  next
    case (Get_tls i)
    then have "i \<noteq> int MAX_NUM_TLS" using v by simp
    note g = tls_guard [OF ok this]
    show ?thesis using Get_tls g c(2,3) t slot_ops(1) rel f by (simp add: drmgr_get_tls_field_def)
  next
    case (Set_cls i x)
    then have "i \<noteq> int MAX_NUM_TLS" using v by simp
    note w = w [OF this]
    show ?thesis
    proof (cases "slot_range i \<and> cls_taken st ! nat i")
      case True
      have "ctx_rel (th\<lparr>arrays := (arrays th)(chain ! ?d := Some (?a\<lparr>ta_cls := (ta_cls ?a)[nat i := x]\<rparr>)), field := chain ! ?d\<rparr>)
          (sp\<lparr>sp_tls := sp_tls sp, sp_cls := (sp_cls sp)[?d := ta_cls (?a\<lparr>ta_cls := (ta_cls ?a)[nat i := x]\<rparr>)], sp_depth := ?d\<rparr>) chain"
        by (rule ctx_rel_update [OF rel d d]) (use c(3,4) t in auto)
      then show ?thesis using Set_cls True c(4) slot_ops(2) lc [OF d] f fd by (simp add: drmgr_set_cls_field_def w)
    qed (use Set_cls rel in \<open>auto simp: drmgr_set_cls_field_def w\<close>)
  next
    case (Get_cls i)
    then have "i \<noteq> int MAX_NUM_TLS" using v by simp
    note w = w [OF this]
    show ?thesis using Get_cls c(4) slot_ops(1) lc [OF d] rel by (simp add: drmgr_get_cls_field_def w)
  next
    case (Get_parent i)
    then have "i \<noteq> int MAX_NUM_TLS" using v by simp
    note w = w [OF this]
    show ?thesis
    proof (cases "?d = 0")
      case True
      then show ?thesis using Get_parent c(5) rel by (simp add: drmgr_get_parent_cls_field_def w)
    next
      case False
      then have d1: "?d - 1 < length chain" using d by simp
      note p = ctx_ok_array [OF ok d1]
      show ?thesis using Get_parent False c(5) p(2,4,7) slot_ops(1) lc [OF d1] rel by (simp add: drmgr_get_parent_cls_field_def w)
    qed
  qed (use op in auto)
qed

lemma ctx_simulation:
  assumes "ctx_rel th sp chain" "ctx_valid op th" "length (cls_taken st) = MAX_NUM_TLS"
  shows "\<exists>th' chain'. ctx_step st op th = Inr (fst (spec_step st op sp), th') \<and> ctx_rel th' (snd (spec_step st op sp)) chain'"
proof (cases "\<exists>p. op = Push p")
  case True
  then show ?thesis using sim_push [OF assms(1), of _ st] assms(2) by auto
next
  case False
  then show ?thesis using sim_pop [OF assms(1), of st] sim_slots [OF assms] by (cases "op = Pop") auto
qed

section \<open>The end of a thread\<close>

lemma to_first_eq:
  assumes "ctx_ok th chain d" "j < length chain"
  shows "to_first th (chain ! j) = Some (Inr (chain ! 0))"
  using assms(2)
proof (induction j)
  case 0
  then show ?case using ctx_ok_array [OF assms(1) 0] by (simp add: to_first.simps)
next
  case (Suc j)
  have "j < length chain" using Suc.prems by simp
  with Suc.IH ctx_ok_array [OF assms(1) Suc.prems] ctx_ok_array(7) [OF assms(1) this] show ?case by (simp add: to_first.simps)
qed

lemma exit_loop_eq:
  assumes "ctx_ok th chain d" "j \<le> length chain"
    and "arrays th' = (\<lambda>p. if p \<in> set (drop j chain) then arrays th p else None)"
  shows "\<exists>f. exit_loop st (if j < length chain then chain ! j else 0) calls th' =
    Some (Inr (calls @ map (\<lambda>p. (p, cls_calls Cls_exit True st)) (drop j chain),
      th'\<lparr>arrays := Map.empty, field := f, freed := freed th' @ drop j chain\<rparr>))"
  using assms(2,3)
proof (induction "length chain - j" arbitrary: j calls th')
  case 0
  then have "j = length chain" by simp
  with 0 show ?case by (intro exI [of _ "field th'"]) (cases th', simp add: exit_loop.simps)
next
  case (Suc n)
  then have j: "j < length chain" and dr: "drop j chain = chain ! j # drop (Suc j) chain" by (simp_all add: Cons_nth_drop_Suc)
  note a = ctx_ok_array [OF assms(1) j]
  have "distinct (drop j chain)" using ctx_okD(1) [OF assms(1)] by (rule distinct_drop)
  then have ni: "chain ! j \<notin> set (drop (Suc j) chain)" by (simp add: dr)
  let ?t = "th'\<lparr>arrays := (arrays th')(chain ! j := None), field := chain ! j, freed := freed th' @ [chain ! j]\<rparr>"
  have mem: "arrays ?t = (\<lambda>p. if p \<in> set (drop (Suc j) chain) then arrays th p else None)"
    using Suc.prems(2) ni by (auto simp: fun_eq_iff dr)
  have at: "array_at th' (chain ! j) = Inr (array_of th chain j)"
    using a(1,7) Suc.prems(2) by (simp add: array_at_def dr)
  have "n = length chain - Suc j" "Suc j \<le> length chain" using Suc.hyps(2) j by simp_all
  from Suc.hyps(1) [OF this mem, of "calls @ [(chain ! j, cls_calls Cls_exit True st)]"] obtain f where
    "exit_loop st (if Suc j < length chain then chain ! Suc j else 0) (calls @ [(chain ! j, cls_calls Cls_exit True st)]) ?t =
      Some (Inr (calls @ map (\<lambda>p. (p, cls_calls Cls_exit True st)) (drop j chain),
        ?t\<lparr>arrays := Map.empty, field := f, freed := freed ?t @ drop (Suc j) chain\<rparr>))" by (auto simp: dr)
  moreover have "(if Suc j < length chain then chain ! Suc j else 0) = ta_next (array_of th chain j)" using a(6) j by auto
  ultimately show ?case using at a(7) j by (intro exI [of _ f]) (simp add: exit_loop.simps [of st "chain ! j"] dr)
qed

lemma stack_exit_eq:
  assumes "ctx_ok th chain d"
  shows "drmgr_cls_stack_exit st th = Some (Inr (True, map (\<lambda>p. (p, cls_calls Cls_exit True st)) chain,
    th\<lparr>arrays := Map.empty, field := 0, freed := freed th @ chain\<rparr>))"
proof -
  have mem: "arrays th = (\<lambda>p. if p \<in> set (drop 0 chain) then arrays th p else None)"
    using ctx_okD(3) [OF assms] by (auto simp: fun_eq_iff domIff)
  have ne: "0 < length chain" using ctx_okD(4) [OF assms] by auto
  from exit_loop_eq [OF assms _ mem, of st "[]"] ne obtain f where
    "exit_loop st (chain ! 0) [] th = Some (Inr (map (\<lambda>p. (p, cls_calls Cls_exit True st)) chain,
      th\<lparr>arrays := Map.empty, field := f, freed := freed th @ chain\<rparr>))" by auto
  then show ?thesis using to_first_eq [OF assms ctx_okD(4) [OF assms]] ctx_okD(5,6) [OF assms] by (simp add: drmgr_cls_stack_exit_def)
qed

section \<open>A thread from its start\<close>

definition no_thread :: thread_ctx where
  "no_thread = \<lparr>arrays = Map.empty, field = 0, freed = []\<rparr>"

text \<open>The slots that are reserved may change between the operations of the thread.\<close>

inductive ctx_run :: "(drmgr_state \<times> ctx_op) list \<Rightarrow> ctx_out list \<Rightarrow> thread_ctx \<Rightarrow> bool" where
  run_init: "p \<noteq> 0 \<Longrightarrow> drmgr_thread_init_event p st no_thread = (calls, inits, th) \<Longrightarrow> ctx_run [] [] th"
| run_step: "ctx_run ops outs th \<Longrightarrow> ctx_valid op th \<Longrightarrow> length (cls_taken st) = MAX_NUM_TLS \<Longrightarrow>
    ctx_step st op th = Inr (out, th') \<Longrightarrow> ctx_run (ops @ [(st, op)]) (outs @ [out]) th'"

definition spec_init :: ctx_spec where
  "spec_init = \<lparr>sp_tls = replicate MAX_NUM_TLS 0, sp_cls = [replicate MAX_NUM_TLS 0], sp_depth = 0\<rparr>"

fun spec_run :: "(drmgr_state \<times> ctx_op) list \<Rightarrow> ctx_spec \<Rightarrow> ctx_out list \<times> ctx_spec" where
  "spec_run [] sp = ([], sp)"
| "spec_run ((st, op) # ops) sp =
     (let (out, sp) = spec_step st op sp; (outs, sp) = spec_run ops sp in (out # outs, sp))"

lemma spec_run_snoc:
  "spec_run (ops @ [(st, op)]) sp =
     (let (outs, sp) = spec_run ops sp; (out, sp) = spec_step st op sp in (outs @ [out], sp))"
  by (induction ops arbitrary: sp) (auto simp: Let_def split: prod.splits)

lemma ctx_rel_init:
  assumes "p \<noteq> 0" "drmgr_thread_init_event p st no_thread = (calls, inits, th)"
  shows "ctx_rel th spec_init [p]" "freed th = []"
  using assms by (auto simp: drmgr_thread_init_event_def no_thread_def ctx_rel_def ctx_ok_def spec_init_def array_of_def zero_array_def
    split: if_splits)

lemma ctx_step_freed: "ctx_step st op th = Inr (out, th') \<Longrightarrow> freed th' = freed th"
  by (cases op)
    (auto simp: bind_res_Inr_iff drmgr_cls_stack_push_def drmgr_cls_stack_pop_def drmgr_set_tls_field_def drmgr_set_cls_field_def
      with_cls_def Let_def split: if_splits)

lemma ctx_run_rel:
  assumes "ctx_run ops outs th"
  shows "outs = fst (spec_run ops spec_init)" "\<exists>chain. ctx_rel th (snd (spec_run ops spec_init)) chain" "freed th = []"
proof -
  have "outs = fst (spec_run ops spec_init) \<and> (\<exists>chain. ctx_rel th (snd (spec_run ops spec_init)) chain) \<and> freed th = []"
    using assms
  proof (induction rule: ctx_run.induct)
    case (run_init p st calls inits th)
    then show ?case using ctx_rel_init [OF run_init] by auto
  next
    case (run_step ops outs th op st out th')
    then obtain chain where rel: "ctx_rel th (snd (spec_run ops spec_init)) chain" by blast
    from ctx_simulation [OF rel run_step(2,3)] run_step ctx_step_freed [OF run_step(4)] show ?case
      by (auto simp: spec_run_snoc Let_def split: prod.splits)
  qed
  then show "outs = fst (spec_run ops spec_init)" "\<exists>chain. ctx_rel th (snd (spec_run ops spec_init)) chain" "freed th = []" by auto
qed

section \<open>The code in the cache\<close>

lemma offset_words:
  assumes "slot_range i"
  shows "unat (word_of_int (OFFSET_TLS + i * 8) :: u64) = nat i * 8" "unat (word_of_int (OFFSET_CLS + i * 8) :: u64) = (MAX_NUM_TLS + nat i) * 8"
proof -
  obtain n where n: "i = int n" "n < 64" using assms by (auto simp: slot_range_def MAX_NUM_TLS_def dest: zero_le_imp_eq_int)
  have u: "unat (of_nat k :: u64) = k" if "k < 2048" for k using that by (simp add: unat_of_nat)
  have e: "(word_of_int (OFFSET_TLS + i * 8) :: u64) = of_nat (n * 8)" "(word_of_int (OFFSET_CLS + i * 8) :: u64) = of_nat ((64 + n) * 8)"
    by (simp_all add: OFFSET_TLS_def OFFSET_CLS_def MAX_NUM_TLS_def n(1))
  show "unat (word_of_int (OFFSET_TLS + i * 8) :: u64) = nat i * 8" using u [of "n * 8"] n unfolding e(1) by linarith
  show "unat (word_of_int (OFFSET_CLS + i * 8) :: u64) = (MAX_NUM_TLS + nat i) * 8"
    using u [of "(64 + n) * 8", OF _] n unfolding e(2) MAX_NUM_TLS_def by fastforce
qed

lemma may_insert_range:
  assumes "may_insert i taken regs th = Inr True" "length taken = MAX_NUM_TLS"
  shows "slot_range i" "taken ! nat i"
  using assms by (auto simp: may_insert_def bind_res_Inr_iff slot_taken_def slot_range_def nat_less_iff split: if_splits)

lemma read_code_tls:
  assumes ok: "ctx_ok th chain d" and i: "slot_range i"
  shows "drmgr_get_tls_field i th = Inr (ta_tls (array_of th chain d) ! nat i)"
    "run_tls [Read_field r, Load_slot r r (word_of_int (OFFSET_TLS + i * 8))] regs th = Inr (regs(r := ta_tls (array_of th chain d) ! nat i), th)"
proof -
  note f = ctx_okD(5,6) [OF ok] and a = ctx_ok_array [OF ok ctx_okD(4) [OF ok]]
  have g: "i \<noteq> int MAX_NUM_TLS" "nat i < MAX_NUM_TLS" using i by (auto simp: slot_range_def nat_less_iff)
  show "drmgr_get_tls_field i th = Inr (ta_tls (array_of th chain d) ! nat i)"
    unfolding drmgr_get_tls_field_def tls_guard [OF ok g(1)] using i f a(2,3) slot_ops(1) [OF i] by simp
  show "run_tls [Read_field r, Load_slot r r (word_of_int (OFFSET_TLS + i * 8))] regs th = Inr (regs(r := ta_tls (array_of th chain d) ! nat i), th)"
    using f a(2,3) g offset_words(1) [OF i] by (simp add: load_word_def Let_def read_slot_def)
qed

lemma write_code_tls:
  assumes ok: "ctx_ok th chain d" and i: "slot_range i" and r: "r \<noteq> s"
  shows "drmgr_set_tls_field i (regs r) th =
      Inr (True, th\<lparr>arrays := (arrays th)(field th := Some (array_of th chain d\<lparr>ta_tls := (ta_tls (array_of th chain d))[nat i := regs r]\<rparr>))\<rparr>)"
    "run_tls [Read_field s, Store_slot s (word_of_int (OFFSET_TLS + i * 8)) r] regs th =
      Inr (regs(s := field th), th\<lparr>arrays := (arrays th)(field th := Some (array_of th chain d\<lparr>ta_tls := (ta_tls (array_of th chain d))[nat i := regs r]\<rparr>))\<rparr>)"
proof -
  note f = ctx_okD(5,6) [OF ok] and a = ctx_ok_array [OF ok ctx_okD(4) [OF ok]]
  have g: "i \<noteq> int MAX_NUM_TLS" "nat i < MAX_NUM_TLS" using i by (auto simp: slot_range_def nat_less_iff)
  show "drmgr_set_tls_field i (regs r) th =
      Inr (True, th\<lparr>arrays := (arrays th)(field th := Some (array_of th chain d\<lparr>ta_tls := (ta_tls (array_of th chain d))[nat i := regs r]\<rparr>))\<rparr>)"
    unfolding drmgr_set_tls_field_def tls_guard [OF ok g(1)] using i f a(2,3) slot_ops(2) [OF i] by simp
  show "run_tls [Read_field s, Store_slot s (word_of_int (OFFSET_TLS + i * 8)) r] regs th =
      Inr (regs(s := field th), th\<lparr>arrays := (arrays th)(field th := Some (array_of th chain d\<lparr>ta_tls := (ta_tls (array_of th chain d))[nat i := regs r]\<rparr>))\<rparr>)"
    using f a(2,3) g r offset_words(1) [OF i] by (simp add: store_word_def Let_def write_slot_def)
qed

lemma read_code_cls:
  assumes ok: "ctx_ok th chain d" and i: "slot_range i" and t: "cls_taken st ! nat i" "length (cls_taken st) = MAX_NUM_TLS"
  shows "drmgr_get_cls_field i st th = Inr (ta_cls (array_of th chain d) ! nat i)"
    "run_tls [Read_field r, Load_slot r r (word_of_int (OFFSET_CLS + i * 8))] regs th = Inr (regs(r := ta_cls (array_of th chain d) ! nat i), th)"
proof -
  note f = ctx_okD(5,6) [OF ok] and a = ctx_ok_array [OF ok ctx_okD(4) [OF ok]]
  have g: "i \<noteq> int MAX_NUM_TLS" "nat i < MAX_NUM_TLS" using i by (auto simp: slot_range_def nat_less_iff)
  show "drmgr_get_cls_field i st th = Inr (ta_cls (array_of th chain d) ! nat i)"
    using i t(1) a(4) slot_ops(1) [OF i] by (simp add: drmgr_get_cls_field_def with_cls_eq [OF ok g(1) t(2)])
  show "run_tls [Read_field r, Load_slot r r (word_of_int (OFFSET_CLS + i * 8))] regs th = Inr (regs(r := ta_cls (array_of th chain d) ! nat i), th)"
    using f a(2,4) g offset_words(2) [OF i] by (simp add: load_word_def Let_def read_slot_def)
qed

section \<open>Properties\<close>

text \<open>C15. Whatever contexts a thread enters and leaves and whatever slots it sets and reads in between, drmgr behaves as
  one array of thread-local slots shared by all contexts and one array of callback-local slots for each depth; no
  operation fails or reads memory that is not a context, provided that no index is 64.\<close>

theorem context_stack_refines:
  assumes "ctx_run ops outs th"
  shows "outs = fst (spec_run ops spec_init) \<and>
    (\<forall>st op. ctx_valid op th \<and> length (cls_taken st) = MAX_NUM_TLS \<longrightarrow>
      (\<exists>th'. ctx_step st op th = Inr (fst (spec_step st op (snd (spec_run ops spec_init))), th')))"
  using ctx_run_rel [OF assms] ctx_simulation by blast

definition demo_slots :: drmgr_state where
  "demo_slots = \<lparr>gen = drmgr_event_init, tls_taken = True # replicate 63 False, cls_taken = True # replicate 63 False\<rparr>"

lemma demo_slots_length: "length (cls_taken demo_slots) = MAX_NUM_TLS" "length (tls_taken demo_slots) = MAX_NUM_TLS"
  by (simp_all add: demo_slots_def MAX_NUM_TLS_def)

text \<open>A thread that sets slots, enters a context and sets them there, leaves it and reads them.\<close>

definition demo_enter :: "(drmgr_state \<times> ctx_op) list" where
  "demo_enter = map (Pair demo_slots) [Set_tls 0 5, Set_cls 0 7, Push 2000, Set_tls 0 6, Set_cls 0 8]"

definition demo_leave :: "(drmgr_state \<times> ctx_op) list" where
  "demo_leave = map (Pair demo_slots) [Get_parent 0, Get_cls 0, Pop, Get_tls 0, Get_cls 0]"

fun exec_ops :: "(drmgr_state \<times> ctx_op) list \<Rightarrow> thread_ctx \<Rightarrow> (ctx_out list \<times> thread_ctx) option" where
  "exec_ops [] th = Some ([], th)"
| "exec_ops ((st, op) # ops) th =
     (if ctx_valid op th \<and> length (cls_taken st) = MAX_NUM_TLS
      then case ctx_step st op th of
             Inl _ \<Rightarrow> None
           | Inr (out, th) \<Rightarrow> (case exec_ops ops th of None \<Rightarrow> None | Some (outs, th) \<Rightarrow> Some (out # outs, th))
      else None)"

lemma exec_ops_run:
  assumes "exec_ops ops th = Some (outs, th')" "ctx_run pre o1 th"
  shows "ctx_run (pre @ ops) (o1 @ outs) th'"
  using assms
proof (induction ops arbitrary: th outs pre o1)
  case (Cons x ops)
  obtain st op where x: "x = (st, op)" by (cases x)
  with Cons.prems(1) obtain out th1 outs1 where e: "ctx_valid op th" "length (cls_taken st) = MAX_NUM_TLS" "ctx_step st op th = Inr (out, th1)"
    "exec_ops ops th1 = Some (outs1, th')" "outs = out # outs1"
    by (auto split: if_splits sum.splits option.splits)
  from Cons.IH [OF e(4) run_step [OF Cons.prems(2) e(1-3)]] x e(5) show ?case by simp
qed auto

definition demo_thread :: thread_ctx where
  "demo_thread = snd (snd (drmgr_thread_init_event 1000 demo_slots no_thread))"

lemma demo_thread_run: "ctx_run [] [] demo_thread"
  by (rule run_init [of 1000 demo_slots "fst (drmgr_thread_init_event 1000 demo_slots no_thread)"
        "fst (snd (drmgr_thread_init_event 1000 demo_slots no_thread))"])
    (simp_all add: demo_thread_def)

theorem context_stack_refines_witness:
  "\<exists>outs th. exec_ops (demo_enter @ demo_leave) demo_thread = Some (outs, th) \<and>
     outs = fst (spec_run (demo_enter @ demo_leave) spec_init) \<and> drop 5 outs = [Value 7, Value 8, Done True [], Value 6, Value 7]"
proof -
  have "exec_ops (demo_enter @ demo_leave) demo_thread \<noteq> None" by code_simp
  then obtain outs th where e: "exec_ops (demo_enter @ demo_leave) demo_thread = Some (outs, th)" by auto
  from exec_ops_run [OF e demo_thread_run] have "ctx_run (demo_enter @ demo_leave) outs th" by simp
  then have "outs = fst (spec_run (demo_enter @ demo_leave) spec_init)" using context_stack_refines by blast
  moreover have "drop 5 (fst (spec_run (demo_enter @ demo_leave) spec_init)) = [Value 7, Value 8, Done True [], Value 6, Value 7]" by code_simp
  ultimately show ?thesis using e by auto
qed

text \<open>C24. When a thread ends, in whatever context it is, the walk over its contexts returns, every context is freed exactly
  once with the callbacks called for it, no memory of a context is left and the field is cleared.\<close>

theorem thread_exit_frees_contexts:
  assumes "ctx_run ops outs th"
  shows "\<exists>calls th'. drmgr_thread_exit_event st th = Some (Inr (deliver_all Thread_exit (gen st), calls, th')) \<and>
    arrays th' = Map.empty \<and> field th' = 0 \<and> distinct (freed th') \<and> set (freed th') = dom (arrays th) \<and>
    length (freed th') = length (sp_cls (snd (spec_run ops spec_init))) \<and>
    calls = map (\<lambda>p. (p, cls_calls Cls_exit True st)) (freed th')"
proof -
  obtain chain where rel: "ctx_rel th (snd (spec_run ops spec_init)) chain" using ctx_run_rel(2) [OF assms] by blast
  then have ok: "ctx_ok th chain (sp_depth (snd (spec_run ops spec_init)))" by (simp add: ctx_rel_def)
  show ?thesis using stack_exit_eq [OF ok, of st] ctx_okD(1,3) [OF ok] ctx_run_rel(3) [OF assms] rel
    by (simp add: drmgr_thread_exit_event_def ctx_rel_def)
qed

theorem thread_exit_frees_contexts_witness:
  "\<exists>outs th calls th'. exec_ops demo_enter demo_thread = Some (outs, th) \<and>
     drmgr_thread_exit_event demo_slots th = Some (Inr ([], calls, th')) \<and> length (freed th') = 2 \<and> arrays th' = Map.empty"
proof -
  have "exec_ops demo_enter demo_thread \<noteq> None" by code_simp
  then obtain outs th where e: "exec_ops demo_enter demo_thread = Some (outs, th)" by auto
  from exec_ops_run [OF e demo_thread_run] have "ctx_run demo_enter outs th" by simp
  from thread_exit_frees_contexts [OF this, of demo_slots] obtain calls th' where
    "drmgr_thread_exit_event demo_slots th = Some (Inr (deliver_all Thread_exit (gen demo_slots), calls, th'))" "arrays th' = Map.empty"
    "length (freed th') = length (sp_cls (snd (spec_run demo_enter spec_init)))" by blast
  moreover have "deliver_all Thread_exit (gen demo_slots) = []" "length (sp_cls (snd (spec_run demo_enter spec_init))) = 2" by code_simp+
  ultimately show ?thesis using e by auto
qed

end
