(* ===== verification/Drmgr_Slots.thy ===== *)
theory Drmgr_Slots
  imports Drmgr_Context
begin

text \<open>
  The reservation of slots and note ranges, the agreement of the inserted code with the functions, and the delivery of the
  wrapped events of ext/drmgr/drmgr.c.
\<close>

section \<open>Slots\<close>

lemma first_free_eq: "first_free k taken = k + length (takeWhile (\<lambda>t. t) taken)"
  by (induction taken arbitrary: k) auto

lemma takeWhile_stops:
  assumes "False \<in> set taken"
  shows "length (takeWhile (\<lambda>t. t) taken) < length taken" "\<not> taken ! length (takeWhile (\<lambda>t. t) taken)"
proof -
  show l: "length (takeWhile (\<lambda>t. t) taken) < length taken"
    using assms by (metis (mono_tags) length_takeWhile_le nat_less_le takeWhile_eq_all_conv takeWhile_eq_take take_all order.refl)
  show "\<not> taken ! length (takeWhile (\<lambda>t. t) taken)" by (rule nth_length_takeWhile [OF l])
qed

lemma takeWhile_below: "j < length (takeWhile (\<lambda>t. t) taken) \<Longrightarrow> taken ! j"
  by (metis nth_mem set_takeWhileD takeWhile_nth)

section \<open>Notes\<close>

text \<open>The ranges given out for a sequence of requests: first value and size of each.\<close>

fun reserve_notes :: "u64 list \<Rightarrow> u64 \<Rightarrow> (u64 \<times> u64) list" where
  "reserve_notes [] note_next = []"
| "reserve_notes (sz # szs) note_next =
     (let (res, note_next) = drmgr_reserve_note_range sz note_next in
      if res = DRMGR_NOTE_NONE then reserve_notes szs note_next else (res, sz) # reserve_notes szs note_next)"

definition note_end :: "u64 \<times> u64 \<Rightarrow> nat" where
  "note_end r = unat (fst r) + unat (snd r)"

lemma reserve_step:
  assumes "unat n + unat sz < 2 ^ 64" "n \<noteq> 0"
  shows "drmgr_reserve_note_range sz n =
    (if sz \<noteq> 0 \<and> unat n + unat sz < unat DR_NOTE_FIRST_RESERVED then (n, n + sz) else (0, n))" "unat (n + sz) = unat n + unat sz"
proof -
  show u: "unat (n + sz) = unat n + unat sz" using assms(1) by (simp add: unat_word_ariths(1))
  show "drmgr_reserve_note_range sz n =
    (if sz \<noteq> 0 \<and> unat n + unat sz < unat DR_NOTE_FIRST_RESERVED then (n, n + sz) else (0, n))"
    by (simp add: drmgr_reserve_note_range_def DRMGR_NOTE_NONE_def word_less_nat_alt u)
qed

lemma reserve_notes_ok:
  assumes "unat n + sum_list (map unat szs) < 2 ^ 64" "n \<noteq> 0"
  shows "(\<forall>r \<in> set (reserve_notes szs n). unat n \<le> unat (fst r) \<and> snd r \<noteq> 0 \<and> note_end r < unat DR_NOTE_FIRST_RESERVED) \<and>
    sorted_wrt (\<lambda>r s. note_end r \<le> unat (fst s)) (reserve_notes szs n) \<and>
    (unat n + sum_list (map unat szs) < unat DR_NOTE_FIRST_RESERVED \<longrightarrow> map snd (reserve_notes szs n) = filter (\<lambda>s. s \<noteq> 0) szs)"
  using assms
proof (induction szs arbitrary: n)
  case (Cons sz szs)
  note st = reserve_step [of n sz]
  have b: "unat n + unat sz < 2 ^ 64" using Cons.prems(1) by simp
  show ?case
  proof (cases "sz \<noteq> 0 \<and> unat n + unat sz < unat DR_NOTE_FIRST_RESERVED")
    case False
    have "reserve_notes (sz # szs) n = reserve_notes szs n"
      using st(1) [OF b Cons.prems(2)] False by (auto simp: DRMGR_NOTE_NONE_def)
    moreover have "unat n + sum_list (map unat szs) < 2 ^ 64" using Cons.prems(1) by simp
    ultimately show ?thesis using Cons.IH [of n] Cons.prems(2) False by auto
  next
    case True
    have eq: "reserve_notes (sz # szs) n = (n, sz) # reserve_notes szs (n + sz)"
      using st(1) [OF b Cons.prems(2)] True Cons.prems(2) by (simp add: DRMGR_NOTE_NONE_def)
    note u = st(2) [OF b Cons.prems(2)]
    have "n + sz \<noteq> 0" using u Cons.prems(2) by (metis add_is_0 unat_0 unat_0_iff)
    moreover have "unat (n + sz) + sum_list (map unat szs) < 2 ^ 64" using Cons.prems(1) u by simp
    ultimately show ?thesis using Cons.IH [of "n + sz"] True unfolding eq u by (auto simp: note_end_def)
  qed
qed simp

text \<open>A request that wraps around is granted, and later ranges overlap it.\<close>

lemma note_range_wraps:
  "reserve_notes [9, 0xfffffffffffffffb, 9] DRMGR_NOTE_FIRST_FREE = [(1, 9), (10, 0xfffffffffffffffb), (5, 9)]"
  by (simp add: drmgr_reserve_note_range_def DRMGR_NOTE_FIRST_FREE_def DRMGR_NOTE_NONE_def DR_NOTE_FIRST_RESERVED_def)

section \<open>Delivery\<close>

lemma presyscall_loop_eq:
  "presyscall_loop ret cs execute = (map call_of cs, execute \<and> (\<forall>c \<in> set cs. ret (call_of c)))"
  by (induction cs arbitrary: execute) auto

lemma signal_loop_eq:
  "signal_loop ret cs =
     (case find (\<lambda>c. ret c \<noteq> DR_SIGNAL_DELIVER) (map call_of cs) of
        None \<Rightarrow> (map call_of cs, DR_SIGNAL_DELIVER)
      | Some c \<Rightarrow> (takeWhile (\<lambda>c. ret c = DR_SIGNAL_DELIVER) (map call_of cs) @ [c], ret c))"
  by (induction cs) (auto simp: Let_def split: option.splits)

text \<open>All the functions that register and unregister are instances of these three steps.\<close>

inductive gen_reach :: "gen_state \<Rightarrow> bool" where
  gen_init: "gen_reach drmgr_event_init"
| gen_add: "gen_reach st \<Longrightarrow> drmgr_generic_event_add_ex w f p u d ex st = Inr (b, st') \<Longrightarrow> gen_reach st'"
| gen_remove: "gen_reach st \<Longrightarrow> drmgr_generic_event_remove w f st = Inr (b, st') \<Longrightarrow> gen_reach st'"
| gen_fault: "gen_reach st \<Longrightarrow> gen_reach (drmgr_register_fault_event st)"

lemma grow_keeps_lazy: "cblist_grow l i = Inr l' \<Longrightarrow> has_lazy l' = has_lazy l"
  unfolding cblist_grow_def Let_def
  by (cases "num_def (l\<lparr>num_def := num_def l + 1\<rparr>) \<ge> capacity l"; cases "i = num_def l") (simp_all split: if_splits, auto)

lemma shift_keeps_lazy: "cblist_shift_and_resize l i = Inr (idx, l') \<Longrightarrow> has_lazy l' = has_lazy l"
  by (auto simp: cblist_shift_and_resize_def bind_res_Inr_iff split: if_splits dest: grow_keeps_lazy)

lemma priority_add_keeps_lazy:
  assumes "priority_event_add l p = Inr (idx, l')"
  shows "has_lazy l' = has_lazy l"
proof -
  have w: "has_lazy l2 = has_lazy l1" if "write_pri l1 i n q = Inr l2" for l1 l2 :: "'a cb_list" and i n q
    using that by (auto simp: write_pri_def split: if_splits)
  show ?thesis using assms unfolding priority_event_add_def Let_def
    by (auto simp: bind_res_Inr_iff split: option.splits if_splits prod.splits dest!: shift_keeps_lazy w)
qed

lemma event_add_keeps_lazy: "event_add l p c = Inr (b, l') \<Longrightarrow> has_lazy l' = has_lazy l"
  by (auto simp: event_add_def bind_res_Inr_iff split: option.splits if_splits dest!: priority_add_keeps_lazy)

lemma event_remove_keeps_lazy: "event_remove l s m = Inr (b, l') \<Longrightarrow> has_lazy l' = has_lazy l"
  by (auto simp: event_remove_def bind_res_Inr_iff invalidate_def split: option.splits)

lemma gen_reach_ok:
  assumes "gen_reach st"
  shows "events_ok (glists st w) \<and> has_lazy (glists st w) = (w = Presys \<or> w = Postsys)"
  using assms
proof (induction arbitrary: w rule: gen_reach.induct)
  case gen_init
  then show ?case by (simp add: drmgr_event_init_def events_ok_init) (simp add: cblist_init_def)
next
  case (gen_add st v f p u d ex b st')
  show ?case
  proof (cases "f = 0")
    case False
    let ?c = "\<lparr>g_is_ex = ex, g_using_data = u, g_data = d, g_func = f\<rparr>"
    from gen_add(2) False obtain l where l: "event_add (glists st v) p ?c = Inr (b, l)" "st' = st\<lparr>glists := (glists st)(v := l)\<rparr>"
      by (auto simp: drmgr_generic_event_add_ex_def bind_res_Inr_iff)
    have "events_ok (glists st v)" using gen_add.IH by blast
    with event_add_total [OF this, of p ?c] l(1) have "events_ok l" by auto
    with l gen_add.IH event_add_keeps_lazy [OF l(1)] show ?thesis by auto
  qed (use gen_add in \<open>simp add: drmgr_generic_event_add_ex_def\<close>)
next
  case (gen_remove st v f b st')
  show ?case
  proof (cases "f = 0")
    case False
    from gen_remove(2) False obtain l where l: "event_remove (glists st v) False (\<lambda>c. g_func c = f) = Inr (b, l)"
      "st' = st\<lparr>glists := (glists st)(v := l)\<rparr>" by (auto simp: drmgr_generic_event_remove_def bind_res_Inr_iff)
    have "events_ok (glists st v)" using gen_remove.IH by blast
    with event_remove_ok [OF this, of "\<lambda>c. g_func c = f" False] l(1) have "events_ok l" by (auto split: if_splits)
    with l gen_remove.IH event_remove_keeps_lazy [OF l(1)] show ?thesis by auto
  qed (use gen_remove in \<open>simp add: drmgr_generic_event_remove_def\<close>)
next
  case (gen_fault st)
  then show ?case by (simp add: drmgr_register_fault_event_def)
qed

section \<open>Properties\<close>

text \<open>C31. Reserving gives the lowest free slot, and -1 exactly when all 64 are taken; releasing frees exactly a slot that is
  taken. But the test of the index in the release, and in the functions that read and write slots, lets 64 through,
  which is outside the arrays.\<close>

theorem slots_in_bounds:
  assumes "length taken = MAX_NUM_TLS"
  shows "(case drmgr_reserve_tls_cls_field taken of (i, taken') \<Rightarrow>
      if False \<notin> set taken then i = -1 \<and> taken' = taken
      else 0 \<le> i \<and> i < 64 \<and> \<not> taken ! nat i \<and> (\<forall>j < nat i. taken ! j) \<and> taken' = taken[nat i := True] \<and>
        drmgr_unreserve_tls_cls_field taken' i = Inr (True, taken)) \<and>
    (\<forall>idx. drmgr_unreserve_tls_cls_field taken idx =
      (if idx = 64 then Inl OutOfBounds
       else if 0 \<le> idx \<and> idx < 64 \<and> taken ! nat idx then Inr (True, taken[nat idx := False]) else Inr (False, taken)))"
proof -
  let ?i = "length (takeWhile (\<lambda>t. t) taken)"
  have un: "drmgr_unreserve_tls_cls_field ts idx =
      (if idx = 64 then Inl OutOfBounds
       else if 0 \<le> idx \<and> idx < 64 \<and> ts ! nat idx then Inr (True, ts[nat idx := False]) else Inr (False, ts))"
    if "length ts = MAX_NUM_TLS" for ts idx
    using that by (auto simp: drmgr_unreserve_tls_cls_field_def MAX_NUM_TLS_def)
  have r: "drmgr_reserve_tls_cls_field taken = (if ?i < 64 then (int ?i, taken[?i := True]) else (-1, taken))"
    by (simp add: drmgr_reserve_tls_cls_field_def first_free_eq Let_def MAX_NUM_TLS_def)
  show ?thesis
  proof (cases "False \<in> set taken")
    case True
    note t = takeWhile_stops [OF True]
    have "taken[?i := True, ?i := False] = taken" using t by (metis (full_types) list_update_id list_update_overwrite)
    then show ?thesis using True t assms takeWhile_below [of _ taken] un [OF assms] un [of "taken[?i := True]" "int ?i"]
      unfolding r by (auto simp: MAX_NUM_TLS_def)
  next
    case False
    then have "?i = 64" using assms by (metis (full_types) takeWhile_eq_all_conv MAX_NUM_TLS_def)
    then show ?thesis using False assms un [OF assms] unfolding r by (simp add: MAX_NUM_TLS_def)
  qed
qed

theorem slots_in_bounds_witness:
  "drmgr_unreserve_tls_cls_field (replicate 64 True) 64 = Inl OutOfBounds \<and>
   drmgr_reserve_tls_cls_field (replicate 64 True) = (-1, replicate 64 True)"
  using slots_in_bounds [of "replicate 64 True"] by (auto simp: MAX_NUM_TLS_def split: prod.splits)

text \<open>C32. As long as the sizes requested do not add up to the size of the address space, the ranges of note values given out
  are disjoint and increasing, contain neither 0 nor a reserved value, and every request is granted whose total is
  below the reserved values. A request that wraps around, however, is granted, and later ranges overlap.\<close>

theorem note_ranges_disjoint:
  assumes "1 + sum_list (map unat szs) < 2 ^ 64"
  shows "sorted_wrt (\<lambda>r s. unat (fst r) + unat (snd r) \<le> unat (fst s)) (reserve_notes szs DRMGR_NOTE_FIRST_FREE) \<and>
    (\<forall>r \<in> set (reserve_notes szs DRMGR_NOTE_FIRST_FREE).
       0 < unat (fst r) \<and> snd r \<noteq> 0 \<and> unat (fst r) + unat (snd r) < unat DR_NOTE_FIRST_RESERVED) \<and>
    (1 + sum_list (map unat szs) < unat DR_NOTE_FIRST_RESERVED \<longrightarrow>
       map snd (reserve_notes szs DRMGR_NOTE_FIRST_FREE) = filter (\<lambda>s. s \<noteq> 0) szs) \<and>
    reserve_notes [9, 0xfffffffffffffffb, 9] DRMGR_NOTE_FIRST_FREE = [(1, 9), (10, 0xfffffffffffffffb), (5, 9)]"
proof -
  have n: "unat DRMGR_NOTE_FIRST_FREE = 1" "DRMGR_NOTE_FIRST_FREE \<noteq> 0" by (simp_all add: DRMGR_NOTE_FIRST_FREE_def DRMGR_NOTE_NONE_def)
  show ?thesis using reserve_notes_ok [of DRMGR_NOTE_FIRST_FREE szs] assms n note_range_wraps unfolding note_end_def by force
qed

theorem note_ranges_disjoint_witness:
  "map snd (reserve_notes [3, 0, 5] DRMGR_NOTE_FIRST_FREE) = [3, 5]"
  using note_ranges_disjoint [of "[3, 0, 5]"] by (simp add: DR_NOTE_FIRST_RESERVED_def)





end
