(* ===== verification/Plc_Main.thy ===== *)
theory Plc_Main
  imports Plc_Block Plc_Arguments Drmgr_Data Drmgr_Slots
begin

text \<open>
  The client of api/samples/padloc.cpp: its start, the events it registers with drmgr, the buffers of a thread, the search for
  symbols and the end of the program. It composes the instrumentation, the command line and drmgr.
\<close>

section \<open>State\<close>

text \<open>The statics that the events use, and the extensions they call. The indices are those of the thread-local slots.\<close>

record main_state =
  mn_pl :: pl_state
  mn_drm :: drmgr_state
  mn_bb :: bb_state
  mn_result :: int
  mn_float :: int
  mn_gpr :: int
  mn_exit :: bool

text \<open>The addresses of the functions that are registered.\<close>

record handlers =
  h_our_thread_init :: ptr
  h_our_thread_exit :: ptr
  h_module_load :: ptr
  h_thread_init :: ptr
  h_thread_exit :: ptr
  h_symbol_lookup :: ptr
  h_app2app :: ptr

section \<open>The start\<close>

text \<open>The first call of \<open>drmgr_init\<close>, which the client makes: later calls only count.\<close>

definition drmgr_init :: "handlers \<Rightarrow> (bool \<times> drmgr_state \<times> bb_state) cres" where
  "drmgr_init h =
     (let st = \<lparr>gen = drmgr_event_init, tls_taken = replicate MAX_NUM_TLS False, cls_taken = replicate MAX_NUM_TLS False\<rparr>;
          (our_tls_idx, st) = drmgr_register_tls_field st
      in bind_res (drmgr_register_thread_init_event (h_our_thread_init h) (gen st)) (\<lambda>(ok, g).
         if \<not> ok then Inr (False, st\<lparr>gen := g\<rparr>, drmgr_bb_init)
         else bind_res (drmgr_register_thread_exit_event (h_our_thread_exit h) g) (\<lambda>(ok, g).
              Inr (ok, st\<lparr>gen := g\<rparr>, drmgr_bb_init))))"

definition tls_register :: "main_state \<Rightarrow> main_state" where
  "tls_register m =
     (let (r, d) = drmgr_register_tls_field (mn_drm m);
          (f, d) = drmgr_register_tls_field d;
          (g, d) = drmgr_register_tls_field d
      in m\<lparr>mn_drm := d, mn_result := r, mn_float := f, mn_gpr := g\<rparr>)"

definition api_register :: "handlers \<Rightarrow> main_state \<Rightarrow> main_state cres" where
  "api_register h m =
     (let m = m\<lparr>mn_exit := True\<rparr> in
      bind_res (drmgr_register_thread_init_event (h_thread_init h) (gen (mn_drm m))) (\<lambda>(_, g).
      bind_res (drmgr_register_thread_exit_event (h_thread_exit h) g) (\<lambda>(_, g).
      if get_symbol_mode (mn_pl m) = PLC_SYMBOL_GENERATE
      then bind_res (drmgr_register_bb_instrumentation_event (h_symbol_lookup h) 0 None (mn_bb m)) (\<lambda>(_, bb).
           Inr (m\<lparr>mn_drm := (mn_drm m)\<lparr>gen := g\<rparr>, mn_bb := bb\<rparr>))
      else bind_res (drmgr_register_module_load_event (h_module_load h) g) (\<lambda>(_, g).
           bind_res (drmgr_register_bb_app2app_event (h_app2app h) None (mn_bb m)) (\<lambda>(_, bb).
           Inr (m\<lparr>mn_drm := (mn_drm m)\<lparr>gen := g\<rparr>, mn_bb := bb\<rparr>))))))"

text \<open>The result is None when the program is aborted. The registers are printed when the log level asks for it; this is not modelled.\<close>

definition dr_client_main :: "handlers \<Rightarrow> pl_env \<Rightarrow> string list \<Rightarrow> pl_state \<Rightarrow> main_state option cres option" where
  "dr_client_main h env argv pl =
     call_then (Some (drmgr_init h)) (\<lambda>(_, drm, bb).
     call_then (arguments_parser env argv pl) (\<lambda>(stop, pl).
       if stop then Some (Inr None)
       else Some (bind_res (api_register h \<lparr>mn_pl = pl, mn_drm = drm, mn_bb = bb, mn_result = 0, mn_float = 0, mn_gpr = 0, mn_exit = False\<rparr>) (\<lambda>m.
              Inr (Some (tls_register m))))))"

section \<open>Threads\<close>

definition float_area :: "cpu \<Rightarrow> nat" where
  "float_area cpu = (if AVX_512_SUPPORTED cpu then 64 * 32 else if AVX_SUPPORTED cpu then 32 * 16 else 16 * 16)"

definition gpr_area :: nat where "gpr_area = 17 * 8"

definition result_area :: nat where "result_area = 8"

text \<open>\<open>p1\<close>, \<open>p2\<close> and \<open>p3\<close> are the addresses that \<open>dr_thread_alloc\<close> returns. The first component is what was allocated.\<close>

definition thread_init :: "cpu \<Rightarrow> main_state \<Rightarrow> ptr \<Rightarrow> ptr \<Rightarrow> ptr \<Rightarrow> thread_ctx \<Rightarrow> ((ptr \<times> nat) list \<times> thread_ctx) cres" where
  "thread_init cpu m p1 p2 p3 th =
     bind_res (drmgr_set_tls_field (mn_result m) p1 th) (\<lambda>(_, th).
     bind_res (drmgr_set_tls_field (mn_float m) p2 th) (\<lambda>(_, th).
     bind_res (drmgr_set_tls_field (mn_gpr m) p3 th) (\<lambda>(_, th).
     Inr ([(p1, result_area), (p2, float_area cpu), (p3, gpr_area)], th))))"

text \<open>The blocks freed, with the sizes given.\<close>

definition thread_exit :: "cpu \<Rightarrow> main_state \<Rightarrow> thread_ctx \<Rightarrow> (ptr \<times> nat) list cres" where
  "thread_exit cpu m th =
     bind_res (drmgr_get_tls_field (mn_result m) th) (\<lambda>p1.
     bind_res (drmgr_get_tls_field (mn_float m) th) (\<lambda>p2.
     bind_res (drmgr_get_tls_field (mn_gpr m) th) (\<lambda>p3.
     Inr [(p1, result_area), (p2, float_area cpu), (p3, gpr_area)])))"

section \<open>Modules, symbols and the end\<close>

definition module_load_handler :: "pl_env \<Rightarrow> module_data \<Rightarrow> main_state \<Rightarrow> bool \<times> main_state" where
  "module_load_handler env md m =
     (let (b, sy) = should_instrument_module (env_sym env) md (sym_part (mn_pl m))
      in (b, m\<lparr>mn_pl := (mn_pl m)\<lparr>sym_part := sy\<rparr>\<rparr>))"

text \<open>The loop of \<open>symbol_lookup_event\<close>. The first component is the list of the instructions printed.\<close>

fun symbol_lookup_loop :: "sym_env \<Rightarrow> nat \<Rightarrow> app_pc option \<Rightarrow> bool \<Rightarrow> app_instr list \<Rightarrow> sym_state \<Rightarrow> (app_instr list \<times> sym_state) cres" where
  "symbol_lookup_loop env level first already_found_fp_op [] st = Inr ([], st)"
| "symbol_lookup_loop env level first already_found_fp_op (instr # rest) st =
     (if plc_is_instrumented (plc_get_operation_category (ai_fp instr))
      then bind_res (if \<not> already_found_fp_op then log_symbol env first st else Inr st) (\<lambda>st.
           if level \<ge> 1
           then bind_res (symbol_lookup_loop env level first True rest st) (\<lambda>(printed, st). Inr (instr # printed, st))
           else Inr ([], st))
      else symbol_lookup_loop env level first already_found_fp_op rest st)"

text \<open>\<open>first\<close> is the address of the first instruction of the block, if it has one.\<close>

definition symbol_lookup_event :: "pl_env \<Rightarrow> app_pc option \<Rightarrow> app_instr list \<Rightarrow> main_state \<Rightarrow> (app_instr list \<times> main_state) cres" where
  "symbol_lookup_event env first bb m =
     bind_res (symbol_lookup_loop (env_sym env) (log_level (mn_pl m)) first False bb (sym_part (mn_pl m))) (\<lambda>(printed, sy).
     Inr (printed, m\<lparr>mn_pl := (mn_pl m)\<lparr>sym_part := sy\<rparr>\<rparr>))"

text \<open>The lines written to the file of symbols, if any. The ends of the other extensions are not modelled.\<close>

definition event_exit :: "main_state \<Rightarrow> (string list option \<times> main_state) cres" where
  "event_exit m =
     bind_res (drmgr_unregister_tls_field (mn_result m) (mn_drm m)) (\<lambda>(_, d).
     bind_res (drmgr_unregister_tls_field (mn_gpr m) d) (\<lambda>(_, d).
     bind_res (drmgr_unregister_tls_field (mn_float m) d) (\<lambda>(_, d).
     Inr (if get_symbol_mode (mn_pl m) = PLC_SYMBOL_GENERATE
          then write_symbols_to_file (symbol_file (mn_pl m) \<noteq> None) (sym_part (mn_pl m)) else None,
          m\<lparr>mn_drm := d\<rparr>))))"

end
