(* ===== verification/Plc_Threads.thy ===== *)
theory Plc_Threads
  imports Plc_Main
begin

text \<open>
  The properties of the client as a whole: the buffers of its threads through all of drmgr's contexts, the bounds of the saved
  registers in them, and what is registered for each mode.
\<close>

section \<open>The slots of the client\<close>

lemma reserve_free:
  assumes "length taken = MAX_NUM_TLS" "False \<in> set taken"
  shows "\<exists>i < MAX_NUM_TLS. drmgr_reserve_tls_cls_field taken = (int i, taken[i := True]) \<and> \<not> taken ! i"
  using takeWhile_stops [OF assms(2)] assms(1)
  by (intro exI [of _ "length (takeWhile (\<lambda>t. t) taken)"]) (simp add: drmgr_reserve_tls_cls_field_def first_free_eq Let_def)

lemma free_after_reserve:
  assumes "i < length taken" "\<not> taken ! i"
  shows "length (filter Not taken) = Suc (length (filter Not (taken[i := True])))"
proof -
  have "taken = take i taken @ taken ! i # drop (Suc i) taken" using assms(1) by (rule id_take_nth_drop)
  then have "length (filter Not taken) = length (filter Not (take i taken @ taken ! i # drop (Suc i) taken))" by simp
  also have "\<dots> = Suc (length (filter Not (take i taken @ True # drop (Suc i) taken)))" using assms(2) by simp
  finally show ?thesis using assms(1) by (simp add: upd_conv_take_nth_drop)
qed

lemma register_free:
  assumes "length (tls_taken st) = MAX_NUM_TLS" "Suc n \<le> length (filter Not (tls_taken st))"
  shows "\<exists>i st'. drmgr_register_tls_field st = (i, st') \<and> slot_range i \<and> \<not> tls_taken st ! nat i \<and>
    tls_taken st' = (tls_taken st)[nat i := True] \<and> n \<le> length (filter Not (tls_taken st')) \<and> gen st' = gen st"
proof -
  have "False \<in> set (tls_taken st)" using assms(2) by (cases "filter Not (tls_taken st)") (auto simp: filter_eq_Cons_iff)
  from reserve_free [OF assms(1) this] obtain i where i: "i < MAX_NUM_TLS"
    "drmgr_reserve_tls_cls_field (tls_taken st) = (int i, (tls_taken st)[i := True])" "\<not> tls_taken st ! i" by blast
  with free_after_reserve [of i "tls_taken st"] assms show ?thesis
    by (auto simp: drmgr_register_tls_field_def slot_range_def)
qed

lemma tls_register_ok:
  assumes "length (tls_taken (mn_drm m0)) = MAX_NUM_TLS" "3 \<le> length (filter Not (tls_taken (mn_drm m0)))"
  shows "slot_range (mn_result (tls_register m0))" "slot_range (mn_float (tls_register m0))" "slot_range (mn_gpr (tls_register m0))"
    "distinct [mn_result (tls_register m0), mn_float (tls_register m0), mn_gpr (tls_register m0)]"
proof -
  from register_free [of "mn_drm m0" 2] assms obtain r d1 where r: "drmgr_register_tls_field (mn_drm m0) = (r, d1)" "slot_range r"
    "tls_taken d1 = (tls_taken (mn_drm m0))[nat r := True]" "2 \<le> length (filter Not (tls_taken d1))" by auto
  from register_free [of d1 1] r assms(1) obtain f d2 where f: "drmgr_register_tls_field d1 = (f, d2)" "slot_range f"
    "\<not> tls_taken d1 ! nat f" "tls_taken d2 = (tls_taken d1)[nat f := True]" "1 \<le> length (filter Not (tls_taken d2))" by auto
  from register_free [of d2 0] r f assms(1) obtain g d3 where g: "drmgr_register_tls_field d2 = (g, d3)" "slot_range g"
    "\<not> tls_taken d2 ! nat g" by auto
  have "nat r < MAX_NUM_TLS" "nat f < MAX_NUM_TLS" using r(2) f(2) by (auto simp: slot_range_def nat_less_iff)
  then have ne: "r \<noteq> f" "r \<noteq> g" "f \<noteq> g" using r(3) f(3,4) g(3) assms(1) by (auto simp: nth_list_update split: if_splits)
  show "slot_range (mn_result (tls_register m0))" "slot_range (mn_float (tls_register m0))" "slot_range (mn_gpr (tls_register m0))"
    "distinct [mn_result (tls_register m0), mn_float (tls_register m0), mn_gpr (tls_register m0)]"
    using r(1,2) f(1,2) g(1,2) ne by (simp_all add: tls_register_def)
qed

section \<open>The slots of a thread\<close>

lemma set_tls_rel:
  assumes "ctx_rel th sp chain" "slot_range i"
  shows "\<exists>th'. drmgr_set_tls_field i v th = Inr (True, th') \<and> ctx_rel th' (sp\<lparr>sp_tls := (sp_tls sp)[nat i := v]\<rparr>) chain"
proof -
  have "i \<noteq> int MAX_NUM_TLS" using assms(2) by (simp add: slot_range_def)
  then show ?thesis using sim_slots [OF assms(1) _ demo_slots_length(1), of "Set_tls i v"] assms(2)
    by (auto simp: bind_res_Inr_iff)
qed

lemma get_tls_rel:
  assumes "ctx_rel th sp chain" "slot_range i"
  shows "drmgr_get_tls_field i th = Inr (sp_tls sp ! nat i)"
proof -
  have "i \<noteq> int MAX_NUM_TLS" using assms(2) by (simp add: slot_range_def)
  then show ?thesis using sim_slots [OF assms(1) _ demo_slots_length(1), of "Get_tls i"] assms(2)
    by (auto simp: bind_res_Inr_iff)
qed

lemma exec_ops_rel:
  assumes "exec_ops ops th = Some (outs, th')" "ctx_rel th sp chain"
  shows "\<exists>chain'. ctx_rel th' (snd (spec_run ops sp)) chain'"
  using assms
proof (induction ops arbitrary: th outs sp chain)
  case (Cons x ops)
  obtain st op where x: "x = (st, op)" by (cases x)
  with Cons.prems(1) obtain out th1 outs1 where e: "ctx_valid op th" "length (cls_taken st) = MAX_NUM_TLS" "ctx_step st op th = Inr (out, th1)"
    "exec_ops ops th1 = Some (outs1, th')" by (auto split: if_splits sum.splits option.splits)
  from ctx_simulation [OF Cons.prems(2) e(1,2)] e(3) obtain chain1 where "ctx_rel th1 (snd (spec_step st op sp)) chain1" by auto
  from Cons.IH [OF e(4) this] x show ?case by (auto simp: Let_def split: prod.splits)
qed auto

lemma spec_step_keeps:
  assumes "slot_range i" "\<forall>v. op \<noteq> Set_tls i v"
  shows "sp_tls (snd (spec_step st op sp)) ! nat i = sp_tls sp ! nat i"
  using assms by (cases op) (auto simp: Let_def slot_range_def nth_list_update_neq eq_nat_nat_iff)

lemma spec_run_keeps:
  assumes "slot_range i" "\<forall>(st, op) \<in> set ops. \<forall>v. op \<noteq> Set_tls i v"
  shows "sp_tls (snd (spec_run ops sp)) ! nat i = sp_tls sp ! nat i"
  using assms(2)
proof (induction ops arbitrary: sp)
  case (Cons x ops)
  obtain st op where x: "x = (st, op)" by (cases x)
  with Cons.prems have "\<forall>v. op \<noteq> Set_tls i v" by auto
  with Cons.IH [of "snd (spec_step st op sp)"] Cons.prems spec_step_keeps [OF assms(1), of op st sp] x show ?case
    by (auto simp: Let_def split: prod.splits)
qed simp

lemma areas: "float_area cpu = vec_bytes cpu * num_vecs cpu" "gpr_area = 8 * NUM_GPR_SLOTS"
  by (simp_all add: float_area_def gpr_area_def vec_bytes_def num_vecs_def NUM_GPR_SLOTS_def)

section \<open>The accesses of the inserted code\<close>

text \<open>Offset and size of an access to a buffer.\<close>

fun access :: "minstr \<Rightarrow> (int \<times> int) list" where
  "access (Store b d r) = [(d, 8)]"
| "access (Load r b d) = [(d, 8)]"
| "access (StoreSimd vex b d n r) = [(d, int n)]"
| "access (LoadSimd vex r b d n) = [(d, int n)]"
| "access _ = []"

definition accesses :: "minstr list \<Rightarrow> (int \<times> int) list" where
  "accesses code = concat (map access code)"

definition within :: "nat \<Rightarrow> (int \<times> int) list \<Rightarrow> bool" where
  "within n as \<longleftrightarrow> list_all (\<lambda>(d, k). 0 \<le> d \<and> d + k \<le> int n) as"

definition apart_list :: "(int \<times> int) list \<Rightarrow> bool" where
  "apart_list as \<longleftrightarrow> sorted_wrt (\<lambda>(d, k) (e, j). d + k \<le> e \<or> e + j \<le> d) as"

lemma accesses_map: "accesses (map f xs) = concat (map (\<lambda>x. access (f x)) xs)"
  by (simp add: accesses_def comp_def)

definition vec_slots :: "cpu \<Rightarrow> (int \<times> int) list" where
  "vec_slots cpu = map (\<lambda>k. (int (vec_bytes cpu * k), int (vec_bytes cpu))) [0..<num_vecs cpu]"

lemma simd_accesses:
  "accesses (insert_save_simd_registers cpu c) = vec_slots cpu" "accesses (insert_restore_simd_registers cpu c) = vec_slots cpu"
proof -
  have eq: "concat (map (\<lambda>j. [(offset_of_simd cpu (simd_start cpu + j), int (vec_bytes cpu))]) [0..<num_vecs cpu]) = vec_slots cpu"
    unfolding vec_slots_def concat_map_singleton by (rule map_cong) (simp_all add: offset_of_simd_eq simd_start_index)
  show "accesses (insert_save_simd_registers cpu c) = vec_slots cpu" "accesses (insert_restore_simd_registers cpu c) = vec_slots cpu"
    unfolding insert_save_simd_registers_def insert_restore_simd_registers_def simd_range_eq
    using eq by (simp_all add: accesses_def comp_def)
qed

lemma gpr_accesses:
  "accesses (insert_save_gpr_and_flags c) = [(8, 8), (0, 8), (16, 8)] @ map (\<lambda>i. (int (8 * i), 8)) [3..<17]"
  "accesses (insert_restore_gpr_and_flags c) = [(0, 8), (8, 8)] @ map (\<lambda>i. (int (8 * i), 8)) (rev [2..<17])"
proof -
  have eq: "concat (map (\<lambda>i. [(offset_of_gpr (GPR_ORDER ! i), 8)]) is) = map (\<lambda>i. (int (8 * i), 8 :: int)) is" if "\<forall>i \<in> set is. i < 17" for "is"
    unfolding concat_map_singleton using that by (intro map_cong) (simp_all add: offset_of_gpr_eq GPR_ORDER_nth)
  show "accesses (insert_save_gpr_and_flags c) = [(8, 8), (0, 8), (16, 8)] @ map (\<lambda>i. (int (8 * i), 8)) [3..<17]"
    "accesses (insert_restore_gpr_and_flags c) = [(0, 8), (8, 8)] @ map (\<lambda>i. (int (8 * i), 8)) (rev [2..<17])"
    using eq [of "[3..<17]"] eq [of "rev [2..<17]"] unfolding insert_save_gpr_and_flags_def insert_restore_gpr_and_flags_def NUM_GPR_SLOTS_def
    by (simp_all add: accesses_def comp_def)
qed

lemma gpr_accesses_ok:
  "within gpr_area (accesses (insert_save_gpr_and_flags c))" "within gpr_area (accesses (insert_restore_gpr_and_flags c))"
  "apart_list (accesses (insert_save_gpr_and_flags c))"
proof -
  show "within gpr_area (accesses (insert_save_gpr_and_flags c))" "within gpr_area (accesses (insert_restore_gpr_and_flags c))"
    unfolding gpr_accesses by (auto simp: within_def gpr_area_def list_all_iff)
  show "apart_list (accesses (insert_save_gpr_and_flags c))"
    unfolding gpr_accesses apart_list_def sorted_wrt_append sorted_wrt_map
    by (auto intro!: sorted_wrt_mono_rel [OF _ sorted_wrt_upt])
qed

lemma slots_within: "k < n \<Longrightarrow> int (w * k) + int w \<le> int (w * n)"
  by (metis Suc_leI add.commute mult_Suc_right mult_le_mono2 of_nat_add of_nat_le_iff)

lemma vec_slots_ok: "within (float_area cpu) (vec_slots cpu)" "apart_list (vec_slots cpu)"
proof -
  show "within (float_area cpu) (vec_slots cpu)" using slots_within by (auto simp: within_def vec_slots_def areas list_all_iff)
  show "apart_list (vec_slots cpu)" unfolding apart_list_def vec_slots_def sorted_wrt_map
    by (rule sorted_wrt_mono_rel [OF _ sorted_wrt_upt]) (use slots_within in auto)
qed

section \<open>Registration with the default priority\<close>

definition at_zero :: "'c cb_list \<Rightarrow> bool" where
  "at_zero l \<longleftrightarrow> events_ok l \<and> (\<forall>e \<in> set (live l). pe_priority e = 0)"

lemma at_zero_init: "at_zero (cblist_init lazy)"
  by (simp add: at_zero_def events_ok_init) (simp add: live_def entries_def cblist_init_def)

lemma add_at_zero:
  assumes "at_zero l"
  shows "\<exists>l'. event_add l None c = Inr (True, l') \<and> at_zero l' \<and> deliver l' = deliver l @ [c]"
proof -
  let ?np = "case None of None \<Rightarrow> default_priority | Some p \<Rightarrow> p"
  have ok: "events_ok l" and z: "\<forall>e \<in> set (live l). pe_priority e = 0" using assms by (simp_all add: at_zero_def)
  have n: "dp_sized ?np" "dp_name ?np = Some ''__DEFAULT__''" "dp_before ?np = None" "dp_priority ?np = 0" by (simp_all add: default_priority_def)
  have "live l = live l @ [] \<and> fits ?np (live l) []" using z by (simp add: fits_def default_priority_def)
  then have f: "\<not> ((None \<noteq> None \<and> ''__DEFAULT__'' \<in> pe_name ` set (live l)) \<or> (\<nexists>xs ys. live l = xs @ ys \<and> fits ?np xs ys))" by blast
  from event_add_ok [OF ok refl n(1,2), of c, unfolded if_not_P [OF f]]
  obtain l' xs ys e where "event_add l None c = Inr (True, l')" "events_ok l'" "live l = xs @ ys" "live l' = xs @ [e] @ ys"
    "dp_before ?np = None \<longrightarrow> (\<forall>y \<in> set ys. dp_priority ?np < pe_priority y)" "pe_priority e = dp_priority ?np" "pe_cb e = Some c"
    by (elim exE conjE) (rule that)
  moreover from this(3,5) z n(3,4) have "ys = []" by (cases ys) auto
  ultimately show ?thesis using z n(4) by (intro exI [of _ l']) (auto simp: at_zero_def deliver_def)
qed

definition calls :: "gen_state \<Rightarrow> gen_list \<Rightarrow> gcall list" where
  "calls g w = map call_of (deliver (glists g w))"

lemma generic_add_at_zero:
  assumes "\<forall>w. at_zero (glists g w)" "f \<noteq> 0"
  shows "\<exists>g'. drmgr_generic_event_add w f None False 0 g = Inr (True, g') \<and> (\<forall>w. at_zero (glists g' w)) \<and>
    calls g' = (calls g)(w := calls g w @ [(f, None)])"
proof -
  let ?c = "\<lparr>g_is_ex = False, g_using_data = False, g_data = 0, g_func = f\<rparr>"
  from add_at_zero [of "glists g w" ?c] assms(1) obtain l where
    l: "event_add (glists g w) None ?c = Inr (True, l)" "at_zero l" "deliver l = deliver (glists g w) @ [?c]" by blast
  then show ?thesis using assms
    by (intro exI [of _ "g\<lparr>glists := (glists g)(w := l)\<rparr>"])
      (auto simp: drmgr_generic_event_add_def drmgr_generic_event_add_ex_def calls_def fun_eq_iff call_of_def)
qed

lemma event_init_zero: "\<forall>w. at_zero (glists drmgr_event_init w)" "calls drmgr_event_init = (\<lambda>w. [])"
  by (simp_all add: drmgr_event_init_def at_zero_init calls_def fun_eq_iff events_ok_init)

text \<open>The first \<open>k\<close> slots taken.\<close>

definition first_slots :: "nat \<Rightarrow> bool list" where
  "first_slots k = replicate k True @ replicate (MAX_NUM_TLS - k) False"

lemma register_first:
  assumes "tls_taken st = first_slots k" "k < MAX_NUM_TLS"
  shows "drmgr_register_tls_field st = (int k, st\<lparr>tls_taken := first_slots (Suc k)\<rparr>)"
proof -
  obtain n where n: "MAX_NUM_TLS - k = Suc n" "MAX_NUM_TLS - Suc k = n" using assms(2) by (metis Suc_diff_Suc)
  have t: "takeWhile (\<lambda>t. t) (first_slots k) = replicate k True" unfolding first_slots_def n(1) by (induction k) simp_all
  have "(first_slots k)[k := True] = first_slots (Suc k)"
    using list_update_length [of "replicate k True" False "replicate n False" True] unfolding first_slots_def n
    by (simp add: replicate_app_Cons_same)
  then show ?thesis using assms t by (simp add: drmgr_register_tls_field_def drmgr_reserve_tls_cls_field_def first_free_eq Let_def)
qed

lemma drmgr_init_ok:
  assumes "h_our_thread_init h \<noteq> 0" "h_our_thread_exit h \<noteq> 0"
  shows "\<exists>st. drmgr_init h = Inr (True, st, drmgr_bb_init) \<and> (\<forall>w. at_zero (glists (gen st) w)) \<and> tls_taken st = first_slots 1 \<and>
    calls (gen st) = (\<lambda>w. [])(Thread_init := [(h_our_thread_init h, None)], Thread_exit := [(h_our_thread_exit h, None)])"
proof -
  let ?st = "\<lparr>gen = drmgr_event_init, tls_taken = replicate MAX_NUM_TLS False, cls_taken = replicate MAX_NUM_TLS False\<rparr>"
  have r: "drmgr_register_tls_field ?st = (0, ?st\<lparr>tls_taken := first_slots 1\<rparr>)"
    using register_first [of ?st 0] by (simp add: first_slots_def MAX_NUM_TLS_def)
  from generic_add_at_zero [OF event_init_zero(1) assms(1), of Thread_init] obtain g1 where
    g1: "drmgr_generic_event_add Thread_init (h_our_thread_init h) None False 0 drmgr_event_init = Inr (True, g1)" "\<forall>w. at_zero (glists g1 w)"
    "calls g1 = (calls drmgr_event_init)(Thread_init := calls drmgr_event_init Thread_init @ [(h_our_thread_init h, None)])" by blast
  from generic_add_at_zero [OF g1(2) assms(2), of Thread_exit] obtain g2 where
    g2: "drmgr_generic_event_add Thread_exit (h_our_thread_exit h) None False 0 g1 = Inr (True, g2)" "\<forall>w. at_zero (glists g2 w)"
    "calls g2 = (calls g1)(Thread_exit := calls g1 Thread_exit @ [(h_our_thread_exit h, None)])" by blast
  show ?thesis using r g1 g2 event_init_zero(2)
    by (intro exI [of _ "?st\<lparr>tls_taken := first_slots 1, gen := g2\<rparr>"])
      (simp add: drmgr_init_def drmgr_register_thread_init_event_def drmgr_register_thread_init_event_ex_def
        drmgr_register_thread_exit_event_def drmgr_register_thread_exit_event_ex_def)
qed

lemma bb_first_callback:
  assumes "w = Instrumentation \<longleftrightarrow> xf = 0"
  shows "\<exists>bb. drmgr_bb_cb_add w xf an 0 0 0 0 None drmgr_bb_init = Inr (True, bb) \<and>
    pair_count bb = (if w = Instrumentation then 1 else 0) \<and> quartet_count bb = 0 \<and>
    (\<lambda>v. deliver (lists bb v)) = (\<lambda>v. [])(w := [\<lparr>has_quartet = False, cb0 = (if xf \<noteq> 0 then xf else an), cb1 = 0\<rparr>])"
proof -
  let ?e = "\<lparr>has_quartet = False, cb0 = (if xf \<noteq> 0 then xf else an), cb1 = 0\<rparr>"
  from add_at_zero [OF at_zero_init, of False ?e] obtain l where "event_add (cblist_init False) None ?e = Inr (True, l)" "deliver l = [?e]"
    by (auto simp: events_ok_init)
  then show ?thesis using assms by (cases w; cases "xf = 0") (auto simp: drmgr_bb_cb_add_def drmgr_bb_init_def fun_eq_iff events_ok_init)
qed

lemma insertion_all_none:
  "insertion_all q p [\<lparr>has_quartet = False, cb0 = f, cb1 = 0\<rparr>] is = Inr []" "insertion_all q p [] is = Inr []"
  by (induction "is") simp_all

lemma block_to_lookup:
  assumes "f \<noteq> 0"
  shows "\<exists>bb. drmgr_register_bb_instrumentation_event f 0 None drmgr_bb_init = Inr (True, bb) \<and>
    (\<forall>stores n. drmgr_bb_event stores n bb = Inr [Analysis f])"
proof -
  from bb_first_callback [of Instrumentation 0 f] obtain bb where bb: "drmgr_bb_cb_add Instrumentation 0 f 0 0 0 0 None drmgr_bb_init = Inr (True, bb)"
    "pair_count bb = 1" "quartet_count bb = 0" "(\<lambda>v. deliver (lists bb v)) = (\<lambda>v. [])(Instrumentation := [\<lparr>has_quartet = False, cb0 = f, cb1 = 0\<rparr>])"
    by auto
  from fun_cong [OF bb(4)] bb(2,3) assms have "drmgr_bb_event stores n bb = Inr [Analysis f]" for stores n
    by (simp add: drmgr_bb_event_def insertion_all_none write_data_def)
  with bb(1) assms show ?thesis by (auto simp: drmgr_register_bb_instrumentation_event_def)
qed

lemma block_to_app2app:
  assumes "f \<noteq> 0"
  shows "\<exists>bb. drmgr_register_bb_app2app_event f None drmgr_bb_init = Inr (True, bb) \<and>
    (\<forall>stores n. drmgr_bb_event stores n bb = Inr [Xform f])"
proof -
  from bb_first_callback [of App2app f 0] assms obtain bb where bb: "drmgr_bb_cb_add App2app f 0 0 0 0 0 None drmgr_bb_init = Inr (True, bb)"
    "pair_count bb = 0" "quartet_count bb = 0" "(\<lambda>v. deliver (lists bb v)) = (\<lambda>v. [])(App2app := [\<lparr>has_quartet = False, cb0 = f, cb1 = 0\<rparr>])"
    by auto
  from fun_cong [OF bb(4)] bb(2,3) have "drmgr_bb_event stores n bb = Inr [Xform f]" for stores n
    by (simp add: drmgr_bb_event_def insertion_all_none)
  with bb(1) assms show ?thesis by (auto simp: drmgr_register_bb_app2app_event_def)
qed

lemmas register_defs = drmgr_register_thread_init_event_def drmgr_register_thread_init_event_ex_def
  drmgr_register_thread_exit_event_def drmgr_register_thread_exit_event_ex_def drmgr_register_module_load_event_def

lemma api_register_ok:
  assumes z: "\<forall>w. at_zero (glists (gen (mn_drm m)) w)" and bb: "mn_bb m = drmgr_bb_init"
    and nz: "0 \<notin> {h_module_load h, h_thread_init h, h_thread_exit h, h_symbol_lookup h, h_app2app h}"
  shows "\<exists>g b. api_register h m = Inr (m\<lparr>mn_exit := True, mn_drm := (mn_drm m)\<lparr>gen := g\<rparr>, mn_bb := b\<rparr>) \<and>
    calls g = (let c = calls (gen (mn_drm m)) in
      c(Thread_init := c Thread_init @ [(h_thread_init h, None)], Thread_exit := c Thread_exit @ [(h_thread_exit h, None)],
        Modload := (if get_symbol_mode (mn_pl m) = PLC_SYMBOL_GENERATE then c Modload else c Modload @ [(h_module_load h, None)]))) \<and>
    (\<forall>stores n. drmgr_bb_event stores n b =
      Inr (if get_symbol_mode (mn_pl m) = PLC_SYMBOL_GENERATE then [Analysis (h_symbol_lookup h)] else [Xform (h_app2app h)]))"
proof -
  let ?g = "gen (mn_drm m)"
  have h: "h_module_load h \<noteq> 0" "h_thread_init h \<noteq> 0" "h_thread_exit h \<noteq> 0" "h_symbol_lookup h \<noteq> 0" "h_app2app h \<noteq> 0" using nz by auto
  from generic_add_at_zero [OF z h(2), of Thread_init] obtain g1 where
    g1: "drmgr_generic_event_add Thread_init (h_thread_init h) None False 0 ?g = Inr (True, g1)" "\<forall>w. at_zero (glists g1 w)"
    "calls g1 = (calls ?g)(Thread_init := calls ?g Thread_init @ [(h_thread_init h, None)])" by blast
  from generic_add_at_zero [OF g1(2) h(3), of Thread_exit] obtain g2 where
    g2: "drmgr_generic_event_add Thread_exit (h_thread_exit h) None False 0 g1 = Inr (True, g2)" "\<forall>w. at_zero (glists g2 w)"
    "calls g2 = (calls g1)(Thread_exit := calls g1 Thread_exit @ [(h_thread_exit h, None)])" by blast
  show ?thesis
  proof (cases "get_symbol_mode (mn_pl m) = PLC_SYMBOL_GENERATE")
    case True
    from block_to_lookup [OF h(4)] obtain b where b: "drmgr_register_bb_instrumentation_event (h_symbol_lookup h) 0 None drmgr_bb_init = Inr (True, b)"
      "\<forall>stores n. drmgr_bb_event stores n b = Inr [Analysis (h_symbol_lookup h)]" by blast
    then show ?thesis using True g1(1,3) g2(1,3) bb
      by (intro exI [of _ g2] exI [of _ b]) (simp add: api_register_def register_defs fun_eq_iff Let_def)
  next
    case False
    from generic_add_at_zero [OF g2(2) h(1), of Modload] obtain g3 where
      g3: "drmgr_generic_event_add Modload (h_module_load h) None False 0 g2 = Inr (True, g3)"
      "calls g3 = (calls g2)(Modload := calls g2 Modload @ [(h_module_load h, None)])" by blast
    from block_to_app2app [OF h(5)] obtain b where b: "drmgr_register_bb_app2app_event (h_app2app h) None drmgr_bb_init = Inr (True, b)"
      "\<forall>stores n. drmgr_bb_event stores n b = Inr [Xform (h_app2app h)]" by blast
    then show ?thesis using False g1(1,3) g2(1,3) g3 bb
      by (intro exI [of _ g3] exI [of _ b]) (simp add: api_register_def register_defs fun_eq_iff Let_def)
  qed
qed

lemma tls_register_first:
  assumes "tls_taken (mn_drm m) = first_slots 1"
  shows "tls_register m = m\<lparr>mn_drm := (mn_drm m)\<lparr>tls_taken := first_slots 4\<rparr>, mn_result := 1, mn_float := 2, mn_gpr := 3\<rparr>"
  using register_first [OF assms] register_first [of "(mn_drm m)\<lparr>tls_taken := first_slots 2\<rparr>" 2]
    register_first [of "(mn_drm m)\<lparr>tls_taken := first_slots 3\<rparr>" 3]
  by (simp add: tls_register_def MAX_NUM_TLS_def eval_nat_numeral)

section \<open>Properties\<close>

text \<open>C9. The client's thread start allocates the three buffers with the sizes that the inserted code relies on and stores them in
  three different slots. Whatever contexts the thread enters and leaves and whatever other slots are set, the slots keep these
  addresses, and the end of the thread frees exactly the three blocks with the sizes they were allocated with, provided
  that three slots were free when the client started.\<close>

theorem thread_buffers:
  assumes "length (tls_taken (mn_drm m0)) = MAX_NUM_TLS" "3 \<le> length (filter Not (tls_taken (mn_drm m0)))" "m = tls_register m0"
    and "ctx_run ops outs th"
  shows "\<exists>th1. thread_init cpu m p1 p2 p3 th =
      Inr ([(p1, 8), (p2, vec_bytes cpu * num_vecs cpu), (p3, 8 * NUM_GPR_SLOTS)], th1) \<and>
    (\<forall>ops2 outs2 th2. exec_ops ops2 th1 = Some (outs2, th2) \<and>
       (\<forall>(st, op) \<in> set ops2. \<forall>v. op \<notin> {Set_tls (mn_result m) v, Set_tls (mn_float m) v, Set_tls (mn_gpr m) v}) \<longrightarrow>
       thread_exit cpu m th2 = Inr [(p1, 8), (p2, vec_bytes cpu * num_vecs cpu), (p3, 8 * NUM_GPR_SLOTS)])"
proof -
  note r = tls_register_ok [OF assms(1,2), folded assms(3)]
  have d: "nat (mn_result m) \<noteq> nat (mn_float m)" "nat (mn_result m) \<noteq> nat (mn_gpr m)" "nat (mn_float m) \<noteq> nat (mn_gpr m)"
    using r by (auto simp: slot_range_def)
  obtain sp chain where rel: "ctx_rel th sp chain" using ctx_run_rel(2) [OF assms(4)] by blast
  from set_tls_rel [OF rel r(1), of p1] obtain t1 where t1: "drmgr_set_tls_field (mn_result m) p1 th = Inr (True, t1)"
    and rel1: "ctx_rel t1 (sp\<lparr>sp_tls := (sp_tls sp)[nat (mn_result m) := p1]\<rparr>) chain" by blast
  from set_tls_rel [OF rel1 r(2), of p2] obtain t2 where t2: "drmgr_set_tls_field (mn_float m) p2 t1 = Inr (True, t2)"
    and rel2: "ctx_rel t2 (sp\<lparr>sp_tls := (sp_tls sp)[nat (mn_result m) := p1, nat (mn_float m) := p2]\<rparr>) chain" by auto
  from set_tls_rel [OF rel2 r(3), of p3] obtain t3 where t3: "drmgr_set_tls_field (mn_gpr m) p3 t2 = Inr (True, t3)"
    and rel3: "ctx_rel t3 (sp\<lparr>sp_tls := (sp_tls sp)[nat (mn_result m) := p1, nat (mn_float m) := p2, nat (mn_gpr m) := p3]\<rparr>) chain" by auto
  define sp3 where "sp3 = sp\<lparr>sp_tls := (sp_tls sp)[nat (mn_result m) := p1, nat (mn_float m) := p2, nat (mn_gpr m) := p3]\<rparr>"
  have "length (sp_tls sp) = MAX_NUM_TLS" using rel ctx_ok_array(3) [OF _ ctx_okD(4)] by (metis ctx_rel_def)
  then have v: "sp_tls sp3 ! nat (mn_result m) = p1" "sp_tls sp3 ! nat (mn_float m) = p2" "sp_tls sp3 ! nat (mn_gpr m) = p3"
    using r d by (simp_all add: sp3_def slot_range_def nat_less_iff)
  have ti: "thread_init cpu m p1 p2 p3 th = Inr ([(p1, 8), (p2, vec_bytes cpu * num_vecs cpu), (p3, 8 * NUM_GPR_SLOTS)], t3)"
    using t1 t2 t3 by (simp add: thread_init_def areas result_area_def)
  have "thread_exit cpu m th2 = Inr [(p1, 8), (p2, vec_bytes cpu * num_vecs cpu), (p3, 8 * NUM_GPR_SLOTS)]"
    if e: "exec_ops ops2 t3 = Some (outs2, th2)"
      and u: "\<forall>(st, op) \<in> set ops2. \<forall>v. op \<notin> {Set_tls (mn_result m) v, Set_tls (mn_float m) v, Set_tls (mn_gpr m) v}" for ops2 outs2 th2
  proof -
    obtain chain' where rel': "ctx_rel th2 (snd (spec_run ops2 sp3)) chain'" using exec_ops_rel [OF e rel3] by (auto simp: sp3_def)
    have "sp_tls (snd (spec_run ops2 sp3)) ! nat i = sp_tls sp3 ! nat i" if "i \<in> {mn_result m, mn_float m, mn_gpr m}" for i
      using that u r by (intro spec_run_keeps) auto
    then show ?thesis using get_tls_rel [OF rel'] r v by (simp add: thread_exit_def areas result_area_def)
  qed
  with ti show ?thesis by blast
qed

definition demo_main :: main_state where
  "demo_main = \<lparr>mn_pl = start_state, mn_drm = demo_slots, mn_bb = drmgr_bb_init, mn_result = 0, mn_float = 0, mn_gpr = 0, mn_exit = False\<rparr>"

theorem thread_buffers_witness:
  "\<exists>th1 outs2 th2. thread_init demo_cpu (tls_register demo_main) 16 32 48 demo_thread = Inr ([(16, 8), (32, 512), (48, 136)], th1) \<and>
     exec_ops demo_enter th1 = Some (outs2, th2) \<and> thread_exit demo_cpu (tls_register demo_main) th2 = Inr [(16, 8), (32, 512), (48, 136)]"
proof -
  let ?m = "tls_register demo_main"
  have sz: "vec_bytes demo_cpu * num_vecs demo_cpu = 512" "8 * NUM_GPR_SLOTS = 136" by (simp_all add: demo_cpu_size NUM_GPR_SLOTS_def)
  have t: "length (tls_taken (mn_drm demo_main)) = MAX_NUM_TLS" "3 \<le> length (filter Not (tls_taken (mn_drm demo_main)))" by code_simp+
  have idx: "mn_result ?m = 1 \<and> mn_float ?m = 2 \<and> mn_gpr ?m = 3" by code_simp
  from thread_buffers [OF t refl demo_thread_run, of demo_cpu 16 32 48, unfolded sz] obtain th1 where
    th1: "thread_init demo_cpu ?m 16 32 48 demo_thread = Inr ([(16, 8), (32, 512), (48, 136)], th1)"
    and ex: "\<And>ops2 outs2 th2. exec_ops ops2 th1 = Some (outs2, th2) \<and>
       (\<forall>(st, op) \<in> set ops2. \<forall>v. op \<notin> {Set_tls (mn_result ?m) v, Set_tls (mn_float ?m) v, Set_tls (mn_gpr ?m) v}) \<longrightarrow>
       thread_exit demo_cpu ?m th2 = Inr [(16, 8), (32, 512), (48, 136)]" by blast
  have "case thread_init demo_cpu ?m 16 32 48 demo_thread of Inl _ \<Rightarrow> False | Inr (b, th) \<Rightarrow> exec_ops demo_enter th \<noteq> None" by code_simp
  then obtain outs2 th2 where e: "exec_ops demo_enter th1 = Some (outs2, th2)" using th1 by auto
  have "\<forall>(st, op) \<in> set demo_enter. \<forall>v. op \<notin> {Set_tls (mn_result ?m) v, Set_tls (mn_float ?m) v, Set_tls (mn_gpr ?m) v}"
    using idx by (auto simp: demo_enter_def)
  with ex e th1 show ?thesis by blast
qed

text \<open>C25. Every access of the code that saves and restores the registers lies in the buffer that the start of a thread allocates for it,
  on every processor, and no two registers are saved to overlapping bytes.\<close>

theorem saved_registers_in_bounds:
  "within gpr_area (accesses (insert_save_gpr_and_flags c)) \<and> within gpr_area (accesses (insert_restore_gpr_and_flags c)) \<and>
   within (float_area cpu) (accesses (insert_save_simd_registers cpu c)) \<and>
   within (float_area cpu) (accesses (insert_restore_simd_registers cpu c)) \<and>
   apart_list (accesses (insert_save_gpr_and_flags c)) \<and> apart_list (accesses (insert_save_simd_registers cpu c))"
  unfolding simd_accesses using gpr_accesses_ok vec_slots_ok by blast



end
