(* ===== verification/Spec2Isabelle.thy ===== *)
theory Spec2Isabelle
  imports Drvector Hashtable Plc_Threads
begin

text \<open>
  PADLOC is a DynamoRIO client: it replaces the floating-point instructions of a running program by calls of a numerical
  backend, for a selection of modules and functions. This development models the client and the parts of DynamoRIO's
  extensions it stands on, translated from the sources under src/ for x86-64 and UNIX, and proves what they promise.

  \<^bold>\<open>The parts and how they interact\<close>

  DynamoRIO calls the client when the program starts, when threads and modules come and go, and for every basic block before
  it enters the code cache. The client (api/samples/padloc.cpp) reads its command line, registers handlers with drmgr
  (ext/drmgr), reserves three thread-local slots for the buffers of a thread, and decides for each block whether to instrument
  it. Instrumenting inserts code that saves the registers into the buffers, prepares the addresses of the operands, calls the
  backend and restores the registers. The lists of symbols decide which blocks are wanted; an analysis of the backend's own code
  finds the registers that it uses.

  \<^bold>\<open>Theories\<close>

  \<^item> Plc_Prelude: faults of C code as values of a sum type, and the lemmas shared by all theories.
  \<^item> Drvector and Hashtable (ext/drcontainers/drvector.c, hashtable.c): one definition per function on a record of the struct, with
    the lock as a flag whose misuse is a fault. The vector behaves as a list, the table refines a finite map whatever sequence
    of operations is run; free callbacks are called once for each payload.
  \<^item> Registers (core/arch/opnd.h, opnd_shared.c, x86/arch.c): the register numbers, overlap and resizing. Overlap is characterised by
    the containing register.
  \<^item> Machine: bytes, little-endian words and memory. Plc_Operations (padloc_operations.cpp): the category of an opcode, equal to a
    reference definition over the mnemonic.
  \<^item> Plc_Client (padloc_client.cpp and app2app_bb_event of padloc.cpp): the instructions that are inserted, as a datatype, and
    their execution on a machine of registers, flags, memory and thread-local slots. Plc_Dispatch shows that the function called is the
    one of the instruction's operation, precision and vector size; Plc_Frames that restoring brings back what saving stored;
    Plc_Lanes, Plc_Operands and Plc_Correct that one call computes the instruction lane by lane; Plc_Block that a whole block has the
    effect of the original instructions with the backend's arithmetic, up to the buffers and the bytes below the stack pointer, and
    where it has not: the overflow flag, the destination of scalar AVX instructions, a block that ends in an instrumented
    instruction.
  \<^item> Plc_Symbols, Plc_Lists, Plc_Lookup (symbol_config.cpp): reading the white and black lists, the table of modules and symbols, and
    the decision for a block, which agrees with the lists for every mode. Plc_Generate: the mode that collects symbols and
    the round trip through the file it writes.
  \<^item> Plc_Analyse and Plc_Follow (analyse.cpp): following calls and jumps through the backend. The walk ends and collects exactly the
    registers of the reachable code; the register file is read back as it was written.
  \<^item> Plc_Arguments (utils.cpp, symbol_config.cpp, analyse.cpp): the command line. Documented options have their effect, reading
    always returns, unknown arguments are errors with one exception.
  \<^item> Drmgr_Events and Drmgr_Order (drmgr.c): the arrays of callbacks. A callback is added exactly when its requests can be met, in
    the order of priority, and the array is never left or read before it is written. The locale event_list holds what a client of
    such a list relies on, interpreted for the lists of block events and for the others.
  \<^item> Drmgr_Blocks and Drmgr_Data: the four passes over a block with the user data of pairs and quartets; each callback gets the data of
    its own component, except when a quartet lacks callbacks.
  \<^item> Drmgr_Generic: the wrapped events of threads, system calls, modules, signals and the restoration of state.
  \<^item> Drmgr_Storage, Drmgr_Context and Drmgr_Slots: slots, note values and the contexts of a thread, which are a doubly linked list in an
    explicit memory. They refine one shared array and a stack of arrays; the end of a thread frees each context once; the
    code inserted to reach a slot agrees with the functions; reservation keeps to the bounds, but for one index.
  \<^item> Plc_Main and Plc_Threads (padloc.cpp): the events of the client on top of all this: what is registered for each mode, that the
    buffers of a thread have the sizes on which the inserted code relies, survive all changes of context and are freed as
    they were allocated, and that every access to them is within bounds.

  \<^bold>\<open>Conventions\<close>

  Machine integers are words of their width; indices that the source keeps small and checks are natural numbers or integers. An access
  outside an array, a read of memory that was never written, a null pointer, a second lock and a failing assertion of the code that is always
  compiled are values of the type of faults, so that a theorem that an operation returns a value excludes them. Loops are structural
  recursions over what they walk, or functions with a measure; the walks over code and over linked contexts, which could run for ever,
  are partial functions with values in an option type, and it is proved that they return. There is no fuel.

  The rest of the system enters as arguments: the decoder, the modules and symbols, the files, the addresses that allocation returns, what
  a called function leaves in the registers the calling convention lets it change, and the arithmetic of the backend. Assumptions on
  them are hypotheses of the theorems (the decoder moves forward, allocated memory is not in use, the buffers and the stack do
  not overlap), and each such theorem is applied to a concrete instance.

  \<^bold>\<open>Not modelled\<close>

  The Verrou backend, which rounds at random with the host's floating-point unit, is a parameter. DynamoRIO's core (decoder and encoder, code
  cache, dispatch, memory and operating system layer), drreg and drsyms are arguments or left out: they are the
  runtime around the client, machine code and system calls rather than functions of its state. Locks between threads are only checked
  to be taken and released in the vector and the table; interleavings of threads are not. Of drmgr the phase of a thread, the emit flags, the
  pass over branches and the marks of emulated code are left out, of the table its persistence. Output for the user is not modelled.
\<close>

end
